(* ===== verification/Rowan_Prelude.thy ===== *)
theory Rowan_Prelude
  imports Main "HOL-Library.Word"
begin

text \<open>
  Shared ground of the development: machine integer types, bounds-checked access to byte
  memory, the little-endian view of words, the address arithmetic of slot rings (arrays of
  equal buffers handed out round robin) and the reachable states of a step relation, with
  the locales \<open>slot_ring\<close>, \<open>pod_type\<close> and \<open>invariant_system\<close> that the components
  interpret.
\<close>

unbundle bit_operations_syntax

section \<open>Machine integers\<close>

type_synonym u8 = "8 word"
type_synonym u16 = "16 word"
type_synonym u32 = "32 word"
type_synonym u64 = "64 word"

lemma unat_widen [simp]:
  "unat (ucast (x :: u8) :: u16) = unat x" "unat (ucast (x :: u8) :: u32) = unat x"
  "unat (ucast (x :: u8) :: u64) = unat x" "unat (ucast (y :: u16) :: u32) = unat y"
  "unat (ucast (y :: u16) :: u64) = unat y" "unat (ucast (z :: u32) :: u64) = unat z"
  by (transfer, simp add: take_bit_take_bit min_def)+

lemma unat_widen_twice [simp]: "unat (ucast (ucast (y :: u16) :: u64) :: u32) = unat y"
  by transfer (simp add: take_bit_take_bit min_def)

named_theorems mem_simps
named_theorems ring_simps

section \<open>Bounds-checked byte memory\<close>

text \<open>
  A block of memory is the list of its bytes. An access outside the block is undefined
  behaviour of the program and is the value \<open>None\<close>.
\<close>

definition read_at :: "'a list \<Rightarrow> nat \<Rightarrow> nat \<Rightarrow> 'a list option" where
  "read_at xs i n = (if i + n \<le> length xs then Some (take n (drop i xs)) else None)"

definition write_at :: "'a list \<Rightarrow> nat \<Rightarrow> 'a list \<Rightarrow> 'a list option" where
  "write_at xs i ys =
     (if i + length ys \<le> length xs then Some (take i xs @ ys @ drop (i + length ys) xs)
      else None)"

lemma write_at_length: "write_at xs i ys = Some zs \<Longrightarrow> length zs = length xs"
  by (auto simp: write_at_def split: if_splits)

lemma write_at_Some_iff [mem_simps]:
  "(\<exists>zs. write_at xs i ys = Some zs) \<longleftrightarrow> i + length ys \<le> length xs"
  by (simp add: write_at_def)

lemma write_at_None_iff [mem_simps]:
  "write_at xs i ys = None \<longleftrightarrow> length xs < i + length ys"
  by (auto simp: write_at_def)

lemma read_write_same: "write_at xs i ys = Some zs \<Longrightarrow> read_at zs i (length ys) = Some ys"
  by (auto simp: write_at_def read_at_def min_def split: if_splits)

lemma read_write_before:
  assumes "write_at xs i ys = Some zs" "j + n \<le> i"
  shows "read_at zs j n = read_at xs j n"
proof -
  from assms have zs: "zs = take i xs @ ys @ drop (i + length ys) xs"
    and le: "i + length ys \<le> length xs"
    by (auto simp: write_at_def split: if_splits)
  have "take (j + n) zs = take (j + n) xs"
    using assms(2) le by (simp add: zs min_def)
  then have "take n (drop j zs) = take n (drop j xs)"
    by (metis add.commute take_drop)
  then show ?thesis
    using assms(2) le write_at_length [OF assms(1)] by (simp add: read_at_def)
qed

lemma read_write_after:
  assumes "write_at xs i ys = Some zs" "i + length ys \<le> j"
  shows "read_at zs j n = read_at xs j n"
proof -
  from assms have zs: "zs = take i xs @ ys @ drop (i + length ys) xs"
    and le: "i + length ys \<le> length xs"
    by (auto simp: write_at_def split: if_splits)
  obtain k where k: "j = i + length ys + k"
    using assms(2) by (metis le_Suc_ex)
  have "drop j zs = drop j xs"
    using le by (simp add: zs k min_def add.commute add.left_commute)
  then show ?thesis
    using write_at_length [OF assms(1)] by (simp add: read_at_def)
qed

lemma write_at_append:
  assumes "write_at xs i ys = Some zs"
  shows "write_at zs (i + length ys) us = write_at xs i (ys @ us)"
proof -
  from assms have zs: "zs = take i xs @ ys @ drop (i + length ys) xs"
    and le: "i + length ys \<le> length xs"
    by (auto simp: write_at_def split: if_splits)
  have "take (i + length ys) zs = take i xs @ ys"
    using le unfolding zs by (cases ys) (auto simp: min_def)
  moreover have "drop (i + length ys + length us) zs = drop (i + length ys + length us) xs"
    using le by (simp add: zs min_def add.commute add.left_commute)
  ultimately show ?thesis
    using write_at_length [OF assms] by (simp add: write_at_def add.assoc)
qed

lemma read_at_length: "read_at xs i n = Some ys \<Longrightarrow> length ys = n"
  by (auto simp: read_at_def split: if_splits)

lemma read_at_split:
  "read_at xs i (a + b) =
     Option.bind (read_at xs i a) (\<lambda>x. map_option (\<lambda>y. x @ y) (read_at xs (i + a) b))"
  by (auto simp: read_at_def take_add add.commute add.left_commute)

lemma read_at_Some_iff [mem_simps]:
  "(\<exists>ys. read_at xs i n = Some ys) \<longleftrightarrow> i + n \<le> length xs"
  by (simp add: read_at_def)

section \<open>Little-endian bytes of a word\<close>

definition le_bytes :: "nat \<Rightarrow> 'a::len word \<Rightarrow> u8 list" where
  "le_bytes n w = map (\<lambda>i. ucast (drop_bit (8 * i) w)) [0..<n]"

fun le_word :: "u8 list \<Rightarrow> 'a::len word" where
  "le_word [] = 0"
| "le_word (b # bs) = ucast b OR push_bit 8 (le_word bs)"

lemma length_le_bytes [simp]: "length (le_bytes n w) = n"
  by (simp add: le_bytes_def)

lemma bit_le_word:
  "bit (le_word bs :: 'a::len word) i \<longleftrightarrow>
     i < LENGTH('a) \<and> i div 8 < length bs \<and> bit (bs ! (i div 8)) (i mod 8)"
proof (induction bs arbitrary: i)
  case Nil
  then show ?case by simp
next
  case (Cons b bs)
  show ?case
  proof (cases "i < 8")
    case True
    then show ?thesis by (simp add: bit_simps)
  next
    case False
    then obtain j where j: "i = 8 + j" by (metis le_Suc_ex not_less)
    have "\<not> bit b i" using False by (auto dest: bit_imp_le_length)
    moreover have "(8 + j) div 8 = Suc (j div 8)" by simp
    ultimately show ?thesis by (auto simp: j bit_simps Cons.IH dest: bit_imp_le_length)
  qed
qed

lemma le_word_le_bytes:
  "LENGTH('a) \<le> 8 * n \<Longrightarrow> le_word (le_bytes n w) = (w :: 'a::len word)"
  by (rule bit_word_eqI)
     (auto simp: bit_le_word le_bytes_def bit_simps less_mult_imp_div_less mult.commute)

lemma le_bytes_le_word:
  assumes "LENGTH('a) = 8 * length bs"
  shows "le_bytes (length bs) (le_word bs :: 'a::len word) = bs"
proof (rule nth_equalityI)
  show "length (le_bytes (length bs) (le_word bs :: 'a word)) = length bs" by simp
next
  fix i assume i: "i < length (le_bytes (length bs) (le_word bs :: 'a word))"
  show "le_bytes (length bs) (le_word bs :: 'a word) ! i = bs ! i"
  proof (rule bit_word_eqI)
    fix k assume k: "k < LENGTH(8)"
    then have "(k + 8 * i) div 8 = i" "(k + 8 * i) mod 8 = k" by simp_all
    with i k assms show "bit (le_bytes (length bs) (le_word bs :: 'a word) ! i) k = bit (bs ! i) k"
      by (simp add: le_bytes_def bit_simps bit_le_word)
  qed
qed

text \<open>
  What a C template over plain data relies on: a type with a fixed size whose values are
  copied to bytes and back.
\<close>

locale pod_type =
  fixes enc :: "'v \<Rightarrow> u8 list" and dec :: "u8 list \<Rightarrow> 'v" and sz :: nat
  assumes enc_length: "length (enc v) = sz"
    and dec_enc: "dec (enc v) = v"
begin

lemma enc_inj: "enc v = enc w \<longleftrightarrow> v = w"
  by (metis dec_enc)

lemma write_read_pod:
  "write_at xs i (enc v) = Some zs \<Longrightarrow> map_option dec (read_at zs i sz) = Some v"
  using read_write_same [of xs i "enc v" zs] by (simp add: enc_length dec_enc)

end

section \<open>Slot rings\<close>

text \<open>The address of slot \<open>i\<close> in an array of buffers of \<open>sz\<close> bytes.\<close>

definition slot_addr :: "u64 \<Rightarrow> nat \<Rightarrow> nat \<Rightarrow> u64" where
  "slot_addr base sz i = base + word_of_nat (i * sz)"

text \<open>Two ranges of \<open>sz\<close> bytes that do not overlap.\<close>

definition disjoint_bufs :: "nat \<Rightarrow> u64 \<Rightarrow> u64 \<Rightarrow> bool" where
  "disjoint_bufs sz a b \<longleftrightarrow> unat a + sz \<le> unat b \<or> unat b + sz \<le> unat a"

lemma unat_slot_addr [ring_simps]:
  assumes "unat base + n * sz \<le> 2 ^ 64" "i < n" "0 < sz"
  shows "unat (slot_addr base sz i) = unat base + i * sz"
proof -
  have "i * sz + sz \<le> n * sz"
    using assms(2) by (metis Suc_leI add.commute mult_Suc mult_le_mono1)
  then have lt: "unat base + i * sz < 2 ^ 64" using assms by linarith
  then have "unat (word_of_nat (i * sz) :: u64) = i * sz"
    by (simp add: unat_of_nat del: of_nat_mult)
  with lt show ?thesis by (simp add: slot_addr_def unat_word_ariths)
qed

lemma mod_neq_window:
  fixes a b n :: nat
  assumes "a < b" "b < a + n"
  shows "a mod n \<noteq> b mod n"
proof
  assume "a mod n = b mod n"
  then have "n dvd b - a" using assms(1) by (metis less_imp_le mod_eq_dvd_iff_nat)
  with assms show False by (auto dest: dvd_imp_le)
qed

locale slot_ring =
  fixes sz n :: nat
  assumes sz_pos: "0 < sz" and n_pos: "0 < n"
begin

lemma slots_disjoint:
  assumes "unat base + n * sz \<le> 2 ^ 64" "i < n" "j < n" "i \<noteq> j"
  shows "disjoint_bufs sz (slot_addr base sz i) (slot_addr base sz j)"
proof -
  have "i * sz + sz \<le> j * sz \<or> j * sz + sz \<le> i * sz"
    using assms(4) by (metis Suc_leI add.commute linorder_neqE_nat mult_Suc mult_le_mono1)
  then show ?thesis
    using assms sz_pos by (auto simp: disjoint_bufs_def unat_slot_addr)
qed

lemma slot_in_region:
  assumes "unat base + n * sz \<le> 2 ^ 64" "i < n"
  shows "unat base \<le> unat (slot_addr base sz i)"
    and "unat (slot_addr base sz i) + sz \<le> unat base + n * sz"
proof -
  have "i * sz + sz \<le> n * sz"
    using assms(2) by (metis Suc_leI add.commute mult_Suc mult_le_mono1)
  then show "unat base \<le> unat (slot_addr base sz i)"
    "unat (slot_addr base sz i) + sz \<le> unat base + n * sz"
    using assms sz_pos by (simp_all add: unat_slot_addr)
qed

lemma window_disjoint:
  assumes "unat base + n * sz \<le> 2 ^ 64" "a < b" "b < a + n"
  shows "disjoint_bufs sz (slot_addr base sz (a mod n)) (slot_addr base sz (b mod n))"
  using assms n_pos mod_neq_window [OF assms(2,3)] by (intro slots_disjoint) simp_all

lemma slot_inj:
  assumes "unat base + n * sz \<le> 2 ^ 64" "i < n" "j < n"
  shows "slot_addr base sz i = slot_addr base sz j \<longleftrightarrow> i = j"
  using slots_disjoint [OF assms] sz_pos by (cases "i = j") (auto simp: disjoint_bufs_def)

end

section \<open>Reachable states and invariants\<close>

inductive reachable :: "('s \<Rightarrow> bool) \<Rightarrow> ('s \<Rightarrow> 's \<Rightarrow> bool) \<Rightarrow> 's \<Rightarrow> bool"
  for start :: "'s \<Rightarrow> bool" and step :: "'s \<Rightarrow> 's \<Rightarrow> bool" where
  reach_start: "start s \<Longrightarrow> reachable start step s"
| reach_step: "reachable start step s \<Longrightarrow> step s t \<Longrightarrow> reachable start step t"

locale invariant_system =
  fixes start :: "'s \<Rightarrow> bool" and step :: "'s \<Rightarrow> 's \<Rightarrow> bool" and inv :: "'s \<Rightarrow> bool"
  assumes start_inv: "start s \<Longrightarrow> inv s"
    and step_inv: "step s t \<Longrightarrow> inv s \<Longrightarrow> inv t"
begin

lemma reachable_inv: "reachable start step s \<Longrightarrow> inv s"
  by (induction rule: reachable.induct) (auto intro: start_inv step_inv)

end

end
