(* ===== verification/Config.thy ===== *)
theory Config
  imports Rowan_Prelude
begin

text \<open>
  The constants of \<open>include/dsm/Config.h\<close> and the cluster description \<open>DSMConfig\<close>
  that every component is configured with.
\<close>

definition kMaxNetThread :: nat where "kMaxNetThread = 36"
definition MESSAGE_SIZE :: nat where "MESSAGE_SIZE = 4096"
definition RPC_QUEUE_SIZE :: nat where "RPC_QUEUE_SIZE = 128"
definition NR_DIRECTORY :: nat where "NR_DIRECTORY = 1"

lemmas config_consts = kMaxNetThread_def MESSAGE_SIZE_def RPC_QUEUE_SIZE_def NR_DIRECTORY_def

record ClusterInfo =
  server_cnt :: u32
  client_cnt :: u32

definition mk_ClusterInfo :: "u32 \<Rightarrow> ClusterInfo" where
  "mk_ClusterInfo n = \<lparr>server_cnt = n, client_cnt = 0\<rparr>"

datatype NodeType = SERVER | CLIENT

record DSMConfig =
  cluster_info :: ClusterInfo
  machine_cnt :: u32
  dsm_addr :: u64
  dsm_size :: u64
  buf_addr :: u64
  buf_size :: u64
  node_type :: NodeType
  nic_name :: string

definition mk_DSMConfig :: "ClusterInfo \<Rightarrow> u64 \<Rightarrow> u64 \<Rightarrow> NodeType \<Rightarrow> DSMConfig" where
  "mk_DSMConfig ci dsmSize bufferSize nt =
     \<lparr>cluster_info = ci, machine_cnt = client_cnt ci + server_cnt ci,
      dsm_addr = 0, dsm_size = dsmSize, buf_addr = 0, buf_size = bufferSize,
      node_type = nt, nic_name = []\<rparr>"

end
