(* ===== verification/Rpc_Message.thy ===== *)
theory Rpc_Message
  imports Config
begin

text \<open>
  \<open>include/utility/Slice.h\<close> and \<open>include/dsm/RpcMessage.h\<close>: byte slices and the packed
  RPC message with its append operations (\<open>add\<close>, \<open>add_string\<close>, \<open>add_string_wo_size\<close>) and
  its cursor reads (\<open>get\<close>, \<open>get_string\<close>, \<open>get_string_wo_size\<close>). The message is the view
  of a block of memory: five header fields and the bytes \<open>msg\<close> behind them up to the end
  of the block. A read or write past the block is undefined behaviour and is \<open>None\<close>.
\<close>

section \<open>Slices\<close>

text \<open>
  The pointer of a slice is the memory readable from it (\<open>None\<close> is the null pointer).
\<close>

record Slice =
  sl_s :: "u8 list option"
  sl_len :: nat

definition Slice_Void :: Slice where
  "Slice_Void = \<lparr>sl_s = None, sl_len = 0\<rparr>"

definition Slice_mk :: "u8 list \<Rightarrow> nat \<Rightarrow> Slice" where
  "Slice_mk s len = \<lparr>sl_s = Some s, sl_len = len\<rparr>"

text \<open>\<open>c_str()\<close> is the characters of the string and a closing zero.\<close>

definition Slice_from_string :: "u8 list \<Rightarrow> Slice" where
  "Slice_from_string str = \<lparr>sl_s = Some (str @ [0]), sl_len = length str\<rparr>"

definition Slice_to_string :: "Slice \<Rightarrow> u8 list option" where
  "Slice_to_string sl =
     (case sl_s sl of None \<Rightarrow> if sl_len sl = 0 then Some [] else None
      | Some mem \<Rightarrow> read_at mem 0 (sl_len sl))"

definition Slice_equal :: "Slice \<Rightarrow> Slice \<Rightarrow> bool option" where
  "Slice_equal a b =
     (if sl_len a = sl_len b then
        Option.bind (Slice_to_string a) (\<lambda>x.
          Option.bind (Slice_to_string b) (\<lambda>y. Some (x = y)))
      else Some False)"

lemma Slice_string_roundtrip: "Slice_to_string (Slice_from_string s) = Some s"
  by (simp add: Slice_to_string_def Slice_from_string_def read_at_def)

lemma Slice_equal_strings:
  "Slice_equal (Slice_from_string s) (Slice_from_string t) = Some (s = t)"
proof -
  have "sl_len (Slice_from_string u) = length u" for u by (simp add: Slice_from_string_def)
  then show ?thesis by (auto simp: Slice_equal_def Slice_string_roundtrip)
qed

section \<open>The message and its memory image\<close>

record RpcMessage =
  magic :: u8
  rtype :: u8
  node_id :: u8
  t_id :: u8
  msg_size :: u16
  msg :: "u8 list"

definition sizeof_RpcMessage :: nat where "sizeof_RpcMessage = 6"

text \<open>The packed layout: four bytes, a little-endian \<open>uint16_t\<close>, the message bytes.\<close>

definition bytes_of_rpc :: "RpcMessage \<Rightarrow> u8 list" where
  "bytes_of_rpc m =
     [magic m, rtype m, node_id m, t_id m] @ le_bytes 2 (msg_size m) @ msg m"

definition rpc_of_bytes :: "u8 list \<Rightarrow> RpcMessage option" where
  "rpc_of_bytes mem =
     (case mem of
        a # b # c # d # s0 # s1 # rest \<Rightarrow>
          Some \<lparr>magic = a, rtype = b, node_id = c, t_id = d,
                msg_size = le_word [s0, s1], msg = rest\<rparr>
      | _ \<Rightarrow> None)"

definition rpc_size :: "RpcMessage \<Rightarrow> nat" where
  "rpc_size m = sizeof_RpcMessage + unat (msg_size m)"

definition rpc_clear :: "RpcMessage \<Rightarrow> RpcMessage" where
  "rpc_clear m = m\<lparr>msg_size := 0\<rparr>"

definition set_type :: "RpcMessage \<Rightarrow> u8 \<Rightarrow> RpcMessage" where
  "set_type m t = m\<lparr>rtype := t\<rparr>"

section \<open>Appending\<close>

text \<open>
  The common step of every append: store the bytes at \<open>msg + msg_size\<close> and advance
  \<open>msg_size\<close>, a 16-bit addition.
\<close>

definition put_bytes :: "RpcMessage \<Rightarrow> u8 list \<Rightarrow> RpcMessage option" where
  "put_bytes m bs =
     map_option (\<lambda>mem. m\<lparr>msg := mem, msg_size := msg_size m + word_of_nat (length bs)\<rparr>)
       (write_at (msg m) (unat (msg_size m)) bs)"

text \<open>\<open>template <class T> void add(const T &v)\<close> at the integer types.\<close>

definition add_u8 :: "RpcMessage \<Rightarrow> u8 \<Rightarrow> RpcMessage option" where
  "add_u8 m v = put_bytes m (le_bytes 1 v)"
definition add_u16 :: "RpcMessage \<Rightarrow> u16 \<Rightarrow> RpcMessage option" where
  "add_u16 m v = put_bytes m (le_bytes 2 v)"
definition add_u32 :: "RpcMessage \<Rightarrow> u32 \<Rightarrow> RpcMessage option" where
  "add_u32 m v = put_bytes m (le_bytes 4 v)"
definition add_u64 :: "RpcMessage \<Rightarrow> u64 \<Rightarrow> RpcMessage option" where
  "add_u64 m v = put_bytes m (le_bytes 8 v)"

definition add_string_wo_size :: "RpcMessage \<Rightarrow> u8 list \<Rightarrow> u32 \<Rightarrow> RpcMessage option" where
  "add_string_wo_size m s k =
     Option.bind (read_at s 0 (unat k)) (\<lambda>bs. put_bytes m bs)"

definition add_string :: "RpcMessage \<Rightarrow> u8 list \<Rightarrow> u32 \<Rightarrow> RpcMessage option" where
  "add_string m s k =
     Option.bind (add_u32 m k) (\<lambda>m'.
       Option.bind (read_at s 0 (unat k)) (\<lambda>bs. put_bytes m' bs))"

text \<open>
  The \<open>Slice\<close> overloads: the \<open>size_t\<close> length is converted to \<open>uint32_t\<close>; a copy of no
  bytes from a null pointer copies nothing.
\<close>

definition slice_mem :: "Slice \<Rightarrow> u8 list" where
  "slice_mem sl = (case sl_s sl of None \<Rightarrow> [] | Some mem \<Rightarrow> mem)"

definition add_string_wo_size_slice :: "RpcMessage \<Rightarrow> Slice \<Rightarrow> RpcMessage option" where
  "add_string_wo_size_slice m sl = add_string_wo_size m (slice_mem sl) (word_of_nat (sl_len sl))"

definition add_string_slice :: "RpcMessage \<Rightarrow> Slice \<Rightarrow> RpcMessage option" where
  "add_string_slice m sl = add_string m (slice_mem sl) (word_of_nat (sl_len sl))"

section \<open>Reading with a cursor\<close>

record Cursor =
  off :: u32

definition Cursor_mk :: Cursor where "Cursor_mk = \<lparr>off = 0\<rparr>"

definition get_bytes :: "RpcMessage \<Rightarrow> Cursor \<Rightarrow> nat \<Rightarrow> (u8 list \<times> Cursor) option" where
  "get_bytes m cur n =
     map_option (\<lambda>bs. (bs, cur\<lparr>off := off cur + word_of_nat n\<rparr>))
       (read_at (msg m) (unat (off cur)) n)"

definition get_u8 :: "RpcMessage \<Rightarrow> Cursor \<Rightarrow> (u8 \<times> Cursor) option" where
  "get_u8 m cur = map_option (map_prod le_word id) (get_bytes m cur 1)"
definition get_u16 :: "RpcMessage \<Rightarrow> Cursor \<Rightarrow> (u16 \<times> Cursor) option" where
  "get_u16 m cur = map_option (map_prod le_word id) (get_bytes m cur 2)"
definition get_u32 :: "RpcMessage \<Rightarrow> Cursor \<Rightarrow> (u32 \<times> Cursor) option" where
  "get_u32 m cur = map_option (map_prod le_word id) (get_bytes m cur 4)"
definition get_u64 :: "RpcMessage \<Rightarrow> Cursor \<Rightarrow> (u64 \<times> Cursor) option" where
  "get_u64 m cur = map_option (map_prod le_word id) (get_bytes m cur 8)"

text \<open>The slices point into the message; nothing compares the length with \<open>msg_size\<close>.\<close>

definition get_string_wo_size :: "RpcMessage \<Rightarrow> Cursor \<Rightarrow> nat \<Rightarrow> Slice \<times> Cursor" where
  "get_string_wo_size m cur n =
     (Slice_mk (drop (unat (off cur)) (msg m)) n, cur\<lparr>off := off cur + word_of_nat n\<rparr>)"

definition get_string :: "RpcMessage \<Rightarrow> Cursor \<Rightarrow> (Slice \<times> Cursor) option" where
  "get_string m cur =
     map_option
       (\<lambda>bs. let k = (le_word bs :: u32) in
          (Slice_mk (drop (unat (off cur) + 4) (msg m)) (unat k),
           cur\<lparr>off := off cur + word_of_nat (4 + unat k)\<rparr>))
       (read_at (msg m) (unat (off cur)) 4)"

section \<open>Messages in memory blocks\<close>

text \<open>
  \<open>malloc\<close> gives a block with arbitrary contents; only \<open>msg_size\<close> (bytes 4 and 5 of each
  message) is initialised. \<open>th\<close> is message \<open>k\<close> of an array of messages.
\<close>

definition get_new_msg :: "u8 list \<Rightarrow> u8 list option" where
  "get_new_msg block =
     (if length block = MESSAGE_SIZE then write_at block 4 (le_bytes 2 (0 :: u16)) else None)"

fun clear_sizes :: "u8 list \<Rightarrow> nat \<Rightarrow> nat \<Rightarrow> u8 list option" where
  "clear_sizes block i 0 = Some block"
| "clear_sizes block i (Suc n) =
     Option.bind (write_at block (MESSAGE_SIZE * i + 4) (le_bytes 2 (0 :: u16)))
       (\<lambda>block'. clear_sizes block' (Suc i) n)"

definition get_new_msg_arr :: "u8 list \<Rightarrow> nat \<Rightarrow> u8 list option" where
  "get_new_msg_arr block k =
     (if length block = MESSAGE_SIZE * k then clear_sizes block 0 k else None)"

definition th :: "u8 list \<Rightarrow> nat \<Rightarrow> RpcMessage option" where
  "th block k = Option.bind (read_at block (MESSAGE_SIZE * k) MESSAGE_SIZE) rpc_of_bytes"

section \<open>The plain types the templates are used at\<close>

interpretation pod_u8: pod_type "le_bytes 1 :: u8 \<Rightarrow> u8 list" le_word 1
  by unfold_locales (simp_all add: le_word_le_bytes)
interpretation pod_u16: pod_type "le_bytes 2 :: u16 \<Rightarrow> u8 list" le_word 2
  by unfold_locales (simp_all add: le_word_le_bytes)
interpretation pod_u32: pod_type "le_bytes 4 :: u32 \<Rightarrow> u8 list" le_word 4
  by unfold_locales (simp_all add: le_word_le_bytes)
interpretation pod_u64: pod_type "le_bytes 8 :: u64 \<Rightarrow> u8 list" le_word 8
  by unfold_locales (simp_all add: le_word_le_bytes)

section \<open>Well-formed messages and their payload\<close>

text \<open>
  The payload is the part of \<open>msg\<close> that \<open>msg_size\<close> counts. A message in a block of less
  than 64 KiB cannot wrap \<open>msg_size\<close>: the block ends first.
\<close>

definition payload :: "RpcMessage \<Rightarrow> u8 list" where
  "payload m = take (unat (msg_size m)) (msg m)"

definition rpc_wf :: "RpcMessage \<Rightarrow> bool" where
  "rpc_wf m \<longleftrightarrow> unat (msg_size m) \<le> length (msg m) \<and> length (msg m) < 2 ^ 16"

definition same_header :: "RpcMessage \<Rightarrow> RpcMessage \<Rightarrow> bool" where
  "same_header m m' \<longleftrightarrow> magic m' = magic m \<and> rtype m' = rtype m \<and> node_id m' = node_id m
     \<and> t_id m' = t_id m \<and> length (msg m') = length (msg m)"

lemma same_header_trans: "same_header a b \<Longrightarrow> same_header b c \<Longrightarrow> same_header a c"
  by (simp add: same_header_def)

lemma length_payload: "rpc_wf m \<Longrightarrow> length (payload m) = unat (msg_size m)"
  by (simp add: payload_def rpc_wf_def)

lemma rpc_wf_clear: "length (msg m) < 2 ^ 16 \<Longrightarrow> rpc_wf (rpc_clear m)"
  by (simp add: rpc_wf_def rpc_clear_def)

lemma payload_clear [simp]: "payload (rpc_clear m) = []"
  by (simp add: payload_def rpc_clear_def)

lemma put_bytes_defined:
  "(\<exists>m'. put_bytes m bs = Some m') \<longleftrightarrow> unat (msg_size m) + length bs \<le> length (msg m)"
  by (simp add: put_bytes_def mem_simps)

lemma put_bytes_None_iff:
  "put_bytes m bs = None \<longleftrightarrow> length (msg m) < unat (msg_size m) + length bs"
  by (simp add: put_bytes_def mem_simps)

lemma put_bytes_Some:
  assumes wf: "rpc_wf m" and put: "put_bytes m bs = Some m'"
  shows "rpc_wf m'" and "payload m' = payload m @ bs" and "same_header m m'"
    and "unat (msg_size m') = unat (msg_size m) + length bs"
proof -
  from put have fits: "unat (msg_size m) + length bs \<le> length (msg m)"
    using put_bytes_defined by blast
  with wf have lt: "unat (msg_size m) + length bs < 2 ^ 16" by (simp add: rpc_wf_def)
  from put fits have m': "m' = m\<lparr>
      msg := take (unat (msg_size m)) (msg m) @ bs @ drop (unat (msg_size m) + length bs) (msg m),
      msg_size := msg_size m + word_of_nat (length bs)\<rparr>"
    by (simp add: put_bytes_def write_at_def)
  show sz: "unat (msg_size m') = unat (msg_size m) + length bs"
    using lt by (simp add: m' unat_word_ariths unat_of_nat)
  then show "payload m' = payload m @ bs"
    using fits by (simp add: payload_def) (simp add: m')
  show "rpc_wf m'" "same_header m m'"
    using wf fits sz by (simp_all add: rpc_wf_def same_header_def) (simp_all add: m')
qed

section \<open>Sequences of items\<close>

text \<open>
  A client appends a sequence of items; a reader reads a sequence of shapes. The items are
  the instances of \<open>add\<close>/\<open>get\<close>, a string with its length and a string without.
\<close>

datatype item = IU8 u8 | IU16 u16 | IU32 u32 | IU64 u64 | IStr "u8 list" | IRaw "u8 list"

datatype shape = SU8 | SU16 | SU32 | SU64 | SStr | SRaw nat

fun shape_of :: "item \<Rightarrow> shape" where
  "shape_of (IU8 _) = SU8"
| "shape_of (IU16 _) = SU16"
| "shape_of (IU32 _) = SU32"
| "shape_of (IU64 _) = SU64"
| "shape_of (IStr _) = SStr"
| "shape_of (IRaw s) = SRaw (length s)"

fun item_bytes :: "item \<Rightarrow> u8 list" where
  "item_bytes (IU8 v) = le_bytes 1 v"
| "item_bytes (IU16 v) = le_bytes 2 v"
| "item_bytes (IU32 v) = le_bytes 4 v"
| "item_bytes (IU64 v) = le_bytes 8 v"
| "item_bytes (IStr s) = le_bytes 4 (word_of_nat (length s) :: u32) @ s"
| "item_bytes (IRaw s) = s"

fun add_item :: "RpcMessage \<Rightarrow> item \<Rightarrow> RpcMessage option" where
  "add_item m (IU8 v) = add_u8 m v"
| "add_item m (IU16 v) = add_u16 m v"
| "add_item m (IU32 v) = add_u32 m v"
| "add_item m (IU64 v) = add_u64 m v"
| "add_item m (IStr s) = add_string m s (word_of_nat (length s))"
| "add_item m (IRaw s) = add_string_wo_size m s (word_of_nat (length s))"

fun add_items :: "RpcMessage \<Rightarrow> item list \<Rightarrow> RpcMessage option" where
  "add_items m [] = Some m"
| "add_items m (it # its) = Option.bind (add_item m it) (\<lambda>m'. add_items m' its)"

fun get_item :: "RpcMessage \<Rightarrow> Cursor \<Rightarrow> shape \<Rightarrow> (item \<times> Cursor) option" where
  "get_item m cur SU8 = map_option (map_prod IU8 id) (get_u8 m cur)"
| "get_item m cur SU16 = map_option (map_prod IU16 id) (get_u16 m cur)"
| "get_item m cur SU32 = map_option (map_prod IU32 id) (get_u32 m cur)"
| "get_item m cur SU64 = map_option (map_prod IU64 id) (get_u64 m cur)"
| "get_item m cur SStr = Option.bind (get_string m cur) (\<lambda>(sl, cur').
     map_option (\<lambda>s. (IStr s, cur')) (Slice_to_string sl))"
| "get_item m cur (SRaw n) = (case get_string_wo_size m cur n of (sl, cur') \<Rightarrow>
     map_option (\<lambda>s. (IRaw s, cur')) (Slice_to_string sl))"

fun get_items :: "RpcMessage \<Rightarrow> Cursor \<Rightarrow> shape list \<Rightarrow> (item list \<times> Cursor) option" where
  "get_items m cur [] = Some ([], cur)"
| "get_items m cur (sh # shs) =
     Option.bind (get_item m cur sh) (\<lambda>(it, cur').
       map_option (map_prod (Cons it) id) (get_items m cur' shs))"

definition items_length :: "item list \<Rightarrow> nat" where
  "items_length its = length (concat (map item_bytes its))"

text \<open>Every append of an item whose bytes fit is one \<open>put_bytes\<close> of its bytes.\<close>

lemma put_put:
  assumes "rpc_wf m"
  shows "Option.bind (put_bytes m xs) (\<lambda>m'. put_bytes m' ys) = put_bytes m (xs @ ys)"
proof (cases "put_bytes m xs")
  case None
  moreover from None have "put_bytes m (xs @ ys) = None" by (simp add: put_bytes_None_iff)
  ultimately show ?thesis by simp
next
  case (Some m1)
  note m1 = put_bytes_Some [OF assms Some]
  from Some obtain mem where mem: "write_at (msg m) (unat (msg_size m)) xs = Some mem"
    and m1_eq: "m1 = m\<lparr>msg := mem, msg_size := msg_size m + word_of_nat (length xs)\<rparr>"
    by (auto simp: put_bytes_def)
  have "put_bytes m1 ys = map_option
      (\<lambda>mem'. m\<lparr>msg := mem', msg_size := msg_size m + word_of_nat (length (xs @ ys))\<rparr>)
      (write_at mem (unat (msg_size m) + length xs) ys)"
    unfolding put_bytes_def m1(4) by (simp add: m1_eq add.assoc)
  also have "\<dots> = put_bytes m (xs @ ys)"
    by (simp add: put_bytes_def write_at_append [OF mem])
  finally show ?thesis by (simp add: Some)
qed

lemma read_at_all: "read_at s 0 (length s) = Some s"
  by (simp add: read_at_def)

lemma add_item_put:
  assumes wf: "rpc_wf m" and le: "length (item_bytes it) < 2 ^ 16"
  shows "add_item m it = put_bytes m (item_bytes it)"
proof (cases it)
  case (IStr s)
  with le have "unat (word_of_nat (length s) :: u32) = length s" by (simp add: unat_of_nat)
  then have "add_item m it = Option.bind (put_bytes m (le_bytes 4 (word_of_nat (length s) :: u32)))
      (\<lambda>m'. put_bytes m' s)"
    by (simp add: IStr add_string_def add_u32_def read_at_all)
  then show ?thesis using put_put [OF wf] by (simp add: IStr)
next
  case (IRaw s)
  with le have "unat (word_of_nat (length s) :: u32) = length s" by (simp add: unat_of_nat)
  then show ?thesis by (simp add: IRaw add_string_wo_size_def read_at_all)
qed (simp_all add: add_u8_def add_u16_def add_u32_def add_u64_def)

lemma add_items_put:
  assumes "rpc_wf m" "items_length its < 2 ^ 16"
  shows "add_items m its = put_bytes m (concat (map item_bytes its))"
  using assms
proof (induction its arbitrary: m)
  case Nil
  then show ?case by (simp add: put_bytes_def write_at_def rpc_wf_def)
next
  case (Cons it its)
  have le: "length (item_bytes it) < 2 ^ 16" "items_length its < 2 ^ 16"
    using Cons.prems(2) by (simp_all add: items_length_def)
  have "add_items m (it # its)
      = Option.bind (put_bytes m (item_bytes it)) (\<lambda>m'. add_items m' its)"
    using add_item_put [OF Cons.prems(1) le(1)] by simp
  also have "\<dots> = Option.bind (put_bytes m (item_bytes it))
      (\<lambda>m'. put_bytes m' (concat (map item_bytes its)))"
    using Cons.IH le(2) put_bytes_Some(1) [OF Cons.prems(1)]
    by (cases "put_bytes m (item_bytes it)") simp_all
  also have "\<dots> = put_bytes m (concat (map item_bytes (it # its)))"
    by (simp add: put_put [OF Cons.prems(1)])
  finally show ?case .
qed

text \<open>Reading at a position inside the payload gives the bytes stored there.\<close>

lemma get_bytes_payload:
  assumes wf: "rpc_wf m" and pl: "payload m = pre @ bs @ post"
    and cur: "unat (off cur) = length pre"
  shows "get_bytes m cur (length bs) = Some (bs, cur\<lparr>off := off cur + word_of_nat (length bs)\<rparr>)"
    and "unat (off cur + word_of_nat (length bs)) = length (pre @ bs)"
    and "drop (length pre) (msg m) = bs @ post @ drop (unat (msg_size m)) (msg m)"
proof -
  have msg: "msg m = (pre @ bs @ post) @ drop (unat (msg_size m)) (msg m)"
    unfolding pl [symmetric] by (simp add: payload_def)
  then show dr: "drop (length pre) (msg m) = bs @ post @ drop (unat (msg_size m)) (msg m)"
    by (metis append.assoc append_eq_conv_conj)
  have le: "length pre + length bs \<le> length (msg m)"
    by (subst msg) simp
  then show "get_bytes m cur (length bs)
      = Some (bs, cur\<lparr>off := off cur + word_of_nat (length bs)\<rparr>)"
    by (simp add: get_bytes_def read_at_def cur dr)
  have "length pre + length bs < 2 ^ 16" using le wf by (simp add: rpc_wf_def)
  then show "unat (off cur + word_of_nat (length bs)) = length (pre @ bs)"
    by (simp add: unat_word_ariths unat_of_nat cur)
qed

lemma read_at_append: "read_at (s @ t) 0 (length s) = Some s"
  by (simp add: read_at_def)

lemma get_item_payload:
  assumes wf: "rpc_wf m" and pl: "payload m = pre @ item_bytes it @ post"
    and cur: "unat (off cur) = length pre"
  shows "\<exists>cur'. get_item m cur (shape_of it) = Some (it, cur')
           \<and> unat (off cur') = length (pre @ item_bytes it)"
proof (cases it)
  case (IStr s)
  let ?k = "word_of_nat (length s) :: u32"
  from pl have pl4: "payload m = pre @ le_bytes 4 ?k @ (s @ post)" by (simp add: IStr)
  note g4 = get_bytes_payload [OF wf pl4 cur]
  note gs = get_bytes_payload [OF wf pl cur, unfolded IStr item_bytes.simps]
  have "length (payload m) < 2 ^ 16" using wf by (simp add: length_payload rpc_wf_def)
  then have ls: "4 + length s < 2 ^ 16" using pl4 by simp
  then have k: "unat ?k = length s" by (simp add: unat_of_nat)
  have r4: "read_at (msg m) (unat (off cur)) 4 = Some (le_bytes 4 ?k)"
    using g4(1) by (auto simp: get_bytes_def)
  have "drop 4 (drop (length pre) (msg m)) = s @ post @ drop (unat (msg_size m)) (msg m)"
    by (simp add: g4(3) del: drop_drop)
  then have "drop (unat (off cur) + 4) (msg m) = s @ post @ drop (unat (msg_size m)) (msg m)"
    by (simp add: cur add.commute)
  then show ?thesis
    using gs(2) r4 k
    by (simp add: IStr get_string_def Let_def pod_u32.dec_enc Slice_mk_def Slice_to_string_def
        read_at_append)
next
  case (IRaw s)
  from pl have "payload m = pre @ s @ post" by (simp add: IRaw)
  note g = get_bytes_payload [OF wf this cur]
  show ?thesis
    using g(2,3) by (simp add: IRaw get_string_wo_size_def Slice_mk_def Slice_to_string_def
        cur read_at_append)
qed (use get_bytes_payload(1,2) [OF wf pl cur] in
  \<open>auto simp: get_u8_def get_u16_def get_u32_def get_u64_def
     pod_u8.dec_enc [unfolded One_nat_def] pod_u16.dec_enc pod_u32.dec_enc pod_u64.dec_enc\<close>)

lemma get_items_payload:
  assumes "rpc_wf m" "payload m = pre @ concat (map item_bytes its) @ post"
    "unat (off cur) = length pre"
  shows "\<exists>cur'. get_items m cur (map shape_of its) = Some (its, cur')
           \<and> unat (off cur') = length pre + items_length its"
  using assms
proof (induction its arbitrary: pre cur)
  case Nil
  then show ?case by (simp add: items_length_def)
next
  case (Cons it its)
  from Cons.prems(2) have "payload m = pre @ item_bytes it @ concat (map item_bytes its) @ post"
    by simp
  from get_item_payload [OF Cons.prems(1) this Cons.prems(3)] obtain cur1
    where c1: "get_item m cur (shape_of it) = Some (it, cur1)"
      and o1: "unat (off cur1) = length (pre @ item_bytes it)" by blast
  from Cons.prems(2) have "payload m = (pre @ item_bytes it) @ concat (map item_bytes its) @ post"
    by simp
  from Cons.IH [OF Cons.prems(1) this o1] c1 show ?case
    by (auto simp: items_length_def)
qed

section \<open>The memory image\<close>

lemma rpc_of_bytes_of_rpc: "rpc_of_bytes (bytes_of_rpc m) = Some m"
proof -
  obtain a b where ab: "le_bytes 2 (msg_size m) = [a, b]"
    using length_le_bytes [of "Suc (Suc 0)" "msg_size m"]
    by (auto simp: numeral_2_eq_2 length_Suc_conv simp del: length_le_bytes)
  have "le_word [a, b] = msg_size m"
    using pod_u16.dec_enc [of "msg_size m"] ab by simp
  then show ?thesis by (simp add: bytes_of_rpc_def rpc_of_bytes_def ab del: le_word.simps)
qed

lemma take_bytes_of_rpc:
  "take (rpc_size m) (bytes_of_rpc m) @ rest = bytes_of_rpc (m\<lparr>msg := payload m @ rest\<rparr>)"
proof -
  define hdr where "hdr = [magic m, rtype m, node_id m, t_id m] @ le_bytes 2 (msg_size m)"
  have "length hdr = 6" by (simp add: hdr_def)
  moreover have "bytes_of_rpc (m\<lparr>msg := ms\<rparr>) = hdr @ ms" for ms
    by (simp add: bytes_of_rpc_def hdr_def)
  moreover have "bytes_of_rpc m = hdr @ msg m" by (simp add: bytes_of_rpc_def hdr_def)
  ultimately show ?thesis by (simp add: rpc_size_def sizeof_RpcMessage_def payload_def)
qed

lemma clear_sizes_frame:
  assumes "MESSAGE_SIZE * (i + n) \<le> length block"
  shows "\<exists>b'. clear_sizes block i n = Some b' \<and> length b' = length block
     \<and> (\<forall>j l. j + l \<le> MESSAGE_SIZE * i + 4 \<longrightarrow> read_at b' j l = read_at block j l)
     \<and> (\<forall>k. i \<le> k \<longrightarrow> k < i + n \<longrightarrow>
           read_at b' (MESSAGE_SIZE * k + 4) 2 = Some (le_bytes 2 (0 :: u16))
         \<and> read_at b' (MESSAGE_SIZE * k) 4 = read_at block (MESSAGE_SIZE * k) 4
         \<and> read_at b' (MESSAGE_SIZE * k + 6) (MESSAGE_SIZE - 6)
             = read_at block (MESSAGE_SIZE * k + 6) (MESSAGE_SIZE - 6))"
  using assms
proof (induction n arbitrary: block i)
  case 0
  then show ?case by simp
next
  case (Suc n)
  have fit: "MESSAGE_SIZE * i + 4 + 2 \<le> length block"
    using Suc.prems by (simp add: MESSAGE_SIZE_def)
  then obtain b1 where b1: "write_at block (MESSAGE_SIZE * i + 4) (le_bytes 2 (0 :: u16)) = Some b1"
    by (auto simp: write_at_def)
  note w = write_at_length [OF b1] read_write_before [OF b1] read_write_after [OF b1]
    read_write_same [OF b1]
  from Suc.prems w(1) have "MESSAGE_SIZE * (Suc i + n) \<le> length b1" by simp
  from Suc.IH [OF this] obtain b' where b': "clear_sizes b1 (Suc i) n = Some b'"
    and len: "length b' = length b1"
    and low: "\<And>j l. j + l \<le> MESSAGE_SIZE * Suc i + 4 \<Longrightarrow> read_at b' j l = read_at b1 j l"
    and high: "\<And>k. Suc i \<le> k \<Longrightarrow> k < Suc i + n \<Longrightarrow>
           read_at b' (MESSAGE_SIZE * k + 4) 2 = Some (le_bytes 2 (0 :: u16))
         \<and> read_at b' (MESSAGE_SIZE * k) 4 = read_at b1 (MESSAGE_SIZE * k) 4
         \<and> read_at b' (MESSAGE_SIZE * k + 6) (MESSAGE_SIZE - 6)
             = read_at b1 (MESSAGE_SIZE * k + 6) (MESSAGE_SIZE - 6)" by blast
  have b1_after: "read_at b1 j l = read_at block j l" if "MESSAGE_SIZE * i + 6 \<le> j" for j l
    using that by (intro w(3)) simp
  have k_case: "read_at b' (MESSAGE_SIZE * k + 4) 2 = Some (le_bytes 2 (0 :: u16))
         \<and> read_at b' (MESSAGE_SIZE * k) 4 = read_at block (MESSAGE_SIZE * k) 4
         \<and> read_at b' (MESSAGE_SIZE * k + 6) (MESSAGE_SIZE - 6)
             = read_at block (MESSAGE_SIZE * k + 6) (MESSAGE_SIZE - 6)"
    if k: "i \<le> k" "k < i + Suc n" for k
  proof (cases "k = i")
    case True
    then show ?thesis
      using w(4) low w(2) b1_after by (simp add: MESSAGE_SIZE_def)
  next
    case False
    with k have "Suc i \<le> k" "k < Suc i + n" by simp_all
    moreover from False k have "MESSAGE_SIZE * i + 6 \<le> MESSAGE_SIZE * k"
      by (simp add: MESSAGE_SIZE_def)
    ultimately show ?thesis using high [of k] b1_after by simp
  qed
  have "read_at b' j l = read_at block j l" if "j + l \<le> MESSAGE_SIZE * i + 4" for j l
    using that low [of j l] w(2) [of j l] by (simp add: MESSAGE_SIZE_def)
  then show ?case using b1 b' len w(1) k_case by (auto simp: numeral_eq_Suc)
qed

text \<open>A message of an array, put together from its four header bytes, its size and its data.\<close>

lemma th_parts:
  assumes "read_at block (MESSAGE_SIZE * k) 4 = Some h"
    and "read_at block (MESSAGE_SIZE * k + 4) 2 = Some (le_bytes 2 (sz :: u16))"
    and "read_at block (MESSAGE_SIZE * k + 6) (MESSAGE_SIZE - 6) = Some d"
  shows "th block k = Some \<lparr>magic = h ! 0, rtype = h ! 1, node_id = h ! 2, t_id = h ! 3,
                             msg_size = sz, msg = d\<rparr>"
proof -
  from read_at_length [OF assms(1)] have h: "h = [h ! 0, h ! 1, h ! 2, h ! 3]"
    by (auto simp: numeral_eq_Suc length_Suc_conv)
  have "read_at block (MESSAGE_SIZE * k) 6 = Some (h @ le_bytes 2 sz)"
    using read_at_split [of block "MESSAGE_SIZE * k" 4 2] assms(1,2) by simp
  then have "read_at block (MESSAGE_SIZE * k) (6 + (MESSAGE_SIZE - 6))
      = Some (h @ le_bytes 2 sz @ d)"
    using read_at_split [of block "MESSAGE_SIZE * k" 6 "MESSAGE_SIZE - 6"] assms(3) by simp
  then have "read_at block (MESSAGE_SIZE * k) MESSAGE_SIZE = Some (h @ le_bytes 2 sz @ d)"
    by (simp add: MESSAGE_SIZE_def)
  moreover have "h @ le_bytes 2 sz @ d = bytes_of_rpc
      \<lparr>magic = h ! 0, rtype = h ! 1, node_id = h ! 2, t_id = h ! 3, msg_size = sz, msg = d\<rparr>"
    using h by (simp add: bytes_of_rpc_def)
  ultimately show ?thesis
    by (simp add: th_def rpc_of_bytes_of_rpc)
qed

section \<open>Properties\<close>

text \<open>
  C17. Round trip of the append and read operations: when the items of a sequence fit in the
  block of the message, all appends to a cleared message succeed, and reading the same
  shapes from the start with one cursor gives back every item in order; the size of the
  message is the header and the bytes of the items.
\<close>

theorem rpc_roundtrip:
  assumes "length (msg m) < 2 ^ 16" and "items_length its \<le> length (msg m)"
  shows "\<exists>m' cur. add_items (rpc_clear m) its = Some m' \<and> rpc_size m' = 6 + items_length its
           \<and> get_items m' Cursor_mk (map shape_of its) = Some (its, cur)
           \<and> unat (off cur) = items_length its"
proof -
  note wf = rpc_wf_clear [OF assms(1)]
  have "add_items (rpc_clear m) its = put_bytes (rpc_clear m) (concat (map item_bytes its))"
    using add_items_put [OF wf] assms by simp
  moreover have "\<exists>m'. put_bytes (rpc_clear m) (concat (map item_bytes its)) = Some m'"
    using assms(2) unfolding put_bytes_defined by (simp add: rpc_clear_def items_length_def)
  ultimately obtain m' where m': "add_items (rpc_clear m) its = Some m'"
    and put: "put_bytes (rpc_clear m) (concat (map item_bytes its)) = Some m'" by auto
  note p = put_bytes_Some [OF wf put]
  have "payload m' = [] @ concat (map item_bytes its) @ []" using p(2) by simp
  from get_items_payload [OF p(1) this, of Cursor_mk] m' p(4) show ?thesis
    by (auto simp: Cursor_mk_def rpc_size_def sizeof_RpcMessage_def rpc_clear_def items_length_def)
qed

theorem rpc_roundtrip_witness:
  "\<exists>m' cur. add_items (rpc_clear \<lparr>magic = 1, rtype = 2, node_id = 0, t_id = 3, msg_size = 77,
       msg = replicate 20 0\<rparr>) [IU32 5, IStr [104, 105], IU8 9] = Some m' \<and> rpc_size m' = 17
     \<and> get_items m' Cursor_mk [SU32, SStr, SU8] = Some ([IU32 5, IStr [104, 105], IU8 9], cur)"
  using rpc_roundtrip [of "\<lparr>magic = 1, rtype = 2, node_id = 0, t_id = 3, msg_size = 77,
       msg = replicate 20 0\<rparr>" "[IU32 5, IStr [104, 105], IU8 9]"]
  by (auto simp: items_length_def)

text \<open>
  The append operations stay inside the block exactly when the items fit: a sequence of
  items (of less than 64 KiB) overruns the memory of the message (\<open>None\<close>) if and only if
  its bytes are more than the block has behind the header. The operations have no check of
  their own.
\<close>

theorem rpc_append_overrun_iff:
  assumes "length (msg m) < 2 ^ 16" and "items_length its < 2 ^ 16"
  shows "add_items (rpc_clear m) its = None \<longleftrightarrow> length (msg m) < items_length its"
  using add_items_put [OF rpc_wf_clear [OF assms(1)] assms(2)]
  by (simp add: put_bytes_None_iff rpc_clear_def items_length_def)

theorem rpc_append_overrun_witness:
  "add_items (rpc_clear \<lparr>magic = 1, rtype = 2, node_id = 0, t_id = 3, msg_size = 77,
       msg = replicate 9 0\<rparr>) [IU32 5, IStr [104, 105]] = None"
  using rpc_append_overrun_iff [of "\<lparr>magic = 1, rtype = 2, node_id = 0, t_id = 3, msg_size = 77,
       msg = replicate 9 0\<rparr>" "[IU32 5, IStr [104, 105]]"]
  by (simp add: items_length_def)

text \<open>
  \<open>get_new_msg_arr\<close> gives \<open>k\<close> empty messages: on any block of \<open>k\<close> times 4096 bytes it
  succeeds, and message \<open>i\<close> of the array (\<open>th\<close>) is what the memory held there with
  \<open>msg_size\<close> cleared and nothing else changed.
\<close>

theorem new_msg_arr_clears_each:
  assumes "length block = MESSAGE_SIZE * k"
  shows "\<exists>b'. get_new_msg_arr block k = Some b' \<and> length b' = length block
     \<and> (\<forall>i < k. \<exists>m0. th block i = Some m0 \<and> th b' i = Some (rpc_clear m0))"
proof -
  from clear_sizes_frame [of 0 k block] assms obtain b'
    where b': "clear_sizes block 0 k = Some b'" "length b' = length block"
      and parts: "\<And>i. i < k \<Longrightarrow> read_at b' (MESSAGE_SIZE * i + 4) 2 = Some (le_bytes 2 (0 :: u16))
         \<and> read_at b' (MESSAGE_SIZE * i) 4 = read_at block (MESSAGE_SIZE * i) 4
         \<and> read_at b' (MESSAGE_SIZE * i + 6) (MESSAGE_SIZE - 6)
             = read_at block (MESSAGE_SIZE * i + 6) (MESSAGE_SIZE - 6)" by auto
  have "\<exists>m0. th block i = Some m0 \<and> th b' i = Some (rpc_clear m0)" if "i < k" for i
  proof -
    have "MESSAGE_SIZE * i + MESSAGE_SIZE \<le> length block"
      using that assms by (simp add: MESSAGE_SIZE_def)
    then obtain h s d where h: "read_at block (MESSAGE_SIZE * i) 4 = Some h"
      and s: "read_at block (MESSAGE_SIZE * i + 4) 2 = Some s"
      and d: "read_at block (MESSAGE_SIZE * i + 6) (MESSAGE_SIZE - 6) = Some d"
      by (auto simp: read_at_def MESSAGE_SIZE_def)
    have "s = le_bytes 2 (le_word s :: u16)"
      using le_bytes_le_word [of s, where 'a = 16] read_at_length [OF s] by simp
    with s have s': "read_at block (MESSAGE_SIZE * i + 4) 2 = Some (le_bytes 2 (le_word s :: u16))"
      by simp
    show ?thesis
      using th_parts [OF h s' d] th_parts [of b' i h 0 d] parts [OF that] h d
      by (simp add: rpc_clear_def)
  qed
  then show ?thesis using b' assms by (auto simp: get_new_msg_arr_def)
qed

theorem new_msg_arr_witness:
  "\<exists>b'. get_new_msg_arr (replicate (MESSAGE_SIZE * 2) 7) 2 = Some b'
     \<and> (\<exists>m0. th (replicate (MESSAGE_SIZE * 2) 7) 1 = Some m0 \<and> th b' 1 = Some (rpc_clear m0))"
  using new_msg_arr_clears_each [of "replicate (MESSAGE_SIZE * 2) 7" 2] by auto

end
