(* ===== verification/Rdma_Ops.thy ===== *)
theory Rdma_Ops
  imports Config
begin

text \<open>
  \<open>include/rdma/Rdma.h\<close> and \<open>src/rdma/Operation.cpp\<close>: the work requests that the RDMA
  operations build and post, and the completion polling. The verbs library is not part of
  the repository: \<open>ibv_post_send\<close>, \<open>ibv_post_recv\<close>, \<open>ibv_post_srq_recv\<close> and
  \<open>ibv_poll_cq\<close> are the parameters \<open>post\<close> and \<open>poll\<close> of the definitions, functions on an
  arbitrary device state. A failed \<open>assert\<close> is the outcome \<open>Abort\<close>.
\<close>

section \<open>Work requests\<close>

definition kMaxInlineData :: nat where "kMaxInlineData = 64"
definition UD_PKEY :: u32 where "UD_PKEY = 0x11111111"
definition PSN :: u32 where "PSN = 3185"
definition HOP_LIMIT :: u8 where "HOP_LIMIT = 1"

datatype send_flag = IBV_SEND_SIGNALED | IBV_SEND_INLINE

datatype wr_opcode =
    IBV_WR_RDMA_WRITE | IBV_WR_RDMA_WRITE_WITH_IMM | IBV_WR_SEND | IBV_WR_SEND_WITH_IMM
  | IBV_WR_RDMA_READ | IBV_WR_ATOMIC_CMP_AND_SWP | IBV_WR_ATOMIC_FETCH_AND_ADD

record ibv_sge =
  sge_addr :: u64
  sge_length :: u32
  sge_lkey :: u32

text \<open>The union \<open>wr\<close> of a send request; no function writes two of its arms.\<close>

datatype wr_arm =
    WR_NONE
  | WR_UD (ud_ah: u64) (ud_remote_qpn: u32) (ud_remote_qkey: u32)
  | WR_RDMA (rdma_remote_addr: u64) (rdma_rkey: u32)
  | WR_ATOMIC (atomic_remote_addr: u64) (atomic_rkey: u32) (compare_add: u64) (swap_val: u64)

record ibv_send_wr =
  wr_id :: u64
  sg_list :: "ibv_sge list"
  num_sge :: nat
  opcode :: wr_opcode
  send_flags :: "send_flag set"
  imm_data :: u32
  arm :: wr_arm

record ibv_recv_wr =
  rwr_id :: u64
  rsg_list :: "ibv_sge list"
  rnum_sge :: nat

text \<open>\<open>memset(&wr, 0, ...)\<close>.\<close>

definition zero_send_wr :: ibv_send_wr where
  "zero_send_wr = \<lparr>wr_id = 0, sg_list = [], num_sge = 0, opcode = IBV_WR_RDMA_WRITE,
     send_flags = {}, imm_data = 0, arm = WR_NONE\<rparr>"

definition mk_sge :: "u64 \<Rightarrow> u64 \<Rightarrow> u32 \<Rightarrow> ibv_sge" where
  "mk_sge source sz lkey =
     \<lparr>sge_addr = source, sge_length = ucast sz, sge_lkey = lkey\<rparr>"

definition fillSgeWr_send :: "u64 \<Rightarrow> u64 \<Rightarrow> u32 \<Rightarrow> ibv_send_wr" where
  "fillSgeWr_send source sz lkey =
     zero_send_wr\<lparr>wr_id := 0, sg_list := [mk_sge source sz lkey], num_sge := 1\<rparr>"

definition fillSgeWr_recv :: "u64 \<Rightarrow> u64 \<Rightarrow> u32 \<Rightarrow> ibv_recv_wr" where
  "fillSgeWr_recv source sz lkey =
     \<lparr>rwr_id = 0, rsg_list = [mk_sge source sz lkey], rnum_sge = 1\<rparr>"

section \<open>Posting\<close>

text \<open>
  \<open>post qp wrs\<close> is \<open>ibv_post_send\<close> on the chain \<open>wrs\<close>: a return code and the new state of
  the device.
\<close>

datatype outcome = Ret bool | Abort

definition post_wr :: "('qp \<Rightarrow> 'wr list \<Rightarrow> 's \<Rightarrow> int \<times> 's) \<Rightarrow> 'qp \<Rightarrow> 'wr \<Rightarrow> 's \<Rightarrow> bool \<times> 's"
  where "post_wr post qp wr s = (case post qp [wr] s of (rc, s') \<Rightarrow> (rc = 0, s'))"

text \<open>The requests, in the order of the source: UD sends, RC sends, reads, writes, atomics.\<close>

definition ud_send_wr :: "u64 \<Rightarrow> u64 \<Rightarrow> u32 \<Rightarrow> u64 \<Rightarrow> u32 \<Rightarrow> bool \<Rightarrow> ibv_send_wr" where
  "ud_send_wr source sz lkey ah remoteQPN isSignaled =
     (let wr = (fillSgeWr_send source sz lkey)\<lparr>opcode := IBV_WR_SEND,
                  arm := WR_UD ah remoteQPN UD_PKEY\<rparr>;
          wr = (if unat sz \<le> kMaxInlineData
                then wr\<lparr>send_flags := insert IBV_SEND_INLINE (send_flags wr)\<rparr> else wr)
      in if isSignaled then wr\<lparr>send_flags := {IBV_SEND_SIGNALED}\<rparr> else wr)"

definition ud_send2_wr ::
  "u64 \<Rightarrow> u64 \<Rightarrow> u64 \<Rightarrow> u64 \<Rightarrow> u32 \<Rightarrow> u32 \<Rightarrow> u64 \<Rightarrow> u32 \<Rightarrow> bool \<Rightarrow> ibv_send_wr" where
  "ud_send2_wr source1 sz1 source2 sz2 lkey1 lkey2 ah remoteQPN isSignaled =
     (let wr = zero_send_wr\<lparr>wr_id := 0,
                  sg_list := [mk_sge source1 sz1 lkey1, mk_sge source2 sz2 lkey2],
                  num_sge := 2, opcode := IBV_WR_SEND, arm := WR_UD ah remoteQPN UD_PKEY\<rparr>
      in if isSignaled then wr\<lparr>send_flags := {IBV_SEND_SIGNALED}\<rparr> else wr)"

definition rc_send_wr :: "u64 \<Rightarrow> u64 \<Rightarrow> u32 \<Rightarrow> 32 word \<Rightarrow> bool \<Rightarrow> ibv_send_wr" where
  "rc_send_wr source sz lkey imm isSignaled =
     (let wr = fillSgeWr_send source sz lkey;
          wr = (if imm \<noteq> -1 then wr\<lparr>imm_data := imm, opcode := IBV_WR_SEND_WITH_IMM\<rparr>
                else wr\<lparr>opcode := IBV_WR_SEND\<rparr>)
      in if isSignaled then wr\<lparr>send_flags := {IBV_SEND_SIGNALED}\<rparr> else wr)"

definition rc_read_wr ::
  "u64 \<Rightarrow> u64 \<Rightarrow> u64 \<Rightarrow> u32 \<Rightarrow> u32 \<Rightarrow> bool \<Rightarrow> u64 \<Rightarrow> ibv_send_wr" where
  "rc_read_wr source dest sz lkey remoteRKey signal wrID =
     (let wr = (fillSgeWr_send source sz lkey)\<lparr>opcode := IBV_WR_RDMA_READ\<rparr>;
          wr = (if signal then wr\<lparr>send_flags := {IBV_SEND_SIGNALED}\<rparr> else wr)
      in wr\<lparr>arm := WR_RDMA dest remoteRKey, wr_id := wrID\<rparr>)"

definition rc_write_wr ::
  "u64 \<Rightarrow> u64 \<Rightarrow> u64 \<Rightarrow> u32 \<Rightarrow> u32 \<Rightarrow> 32 word \<Rightarrow> bool \<Rightarrow> u64 \<Rightarrow> ibv_send_wr" where
  "rc_write_wr source dest sz lkey remoteRKey imm isSignaled wrID =
     (let wr = fillSgeWr_send source sz lkey;
          wr = (if imm = -1 then wr\<lparr>opcode := IBV_WR_RDMA_WRITE\<rparr>
                else wr\<lparr>imm_data := imm, opcode := IBV_WR_RDMA_WRITE_WITH_IMM\<rparr>);
          wr = (if isSignaled then wr\<lparr>send_flags := {IBV_SEND_SIGNALED}\<rparr> else wr)
      in wr\<lparr>arm := WR_RDMA dest remoteRKey, wr_id := wrID\<rparr>)"

definition rc_faa_wr :: "u64 \<Rightarrow> u64 \<Rightarrow> u64 \<Rightarrow> u32 \<Rightarrow> u32 \<Rightarrow> bool \<Rightarrow> u64 \<Rightarrow> ibv_send_wr" where
  "rc_faa_wr source dest addv lkey remoteRKey signal wrID =
     (let wr = (fillSgeWr_send source 8 lkey)\<lparr>opcode := IBV_WR_ATOMIC_FETCH_AND_ADD\<rparr>;
          wr = (if signal then wr\<lparr>send_flags := {IBV_SEND_SIGNALED}\<rparr> else wr)
      in wr\<lparr>arm := WR_ATOMIC dest remoteRKey addv 0, wr_id := wrID\<rparr>)"

definition rc_cas_wr ::
  "u64 \<Rightarrow> u64 \<Rightarrow> u64 \<Rightarrow> u64 \<Rightarrow> u32 \<Rightarrow> u32 \<Rightarrow> bool \<Rightarrow> u64 \<Rightarrow> ibv_send_wr" where
  "rc_cas_wr source dest compare swap lkey remoteRKey signal wrID =
     (let wr = (fillSgeWr_send source 8 lkey)\<lparr>opcode := IBV_WR_ATOMIC_CMP_AND_SWP\<rparr>;
          wr = (if signal then wr\<lparr>send_flags := {IBV_SEND_SIGNALED}\<rparr> else wr)
      in wr\<lparr>arm := WR_ATOMIC dest remoteRKey compare swap, wr_id := wrID\<rparr>)"

text \<open>The posting functions.\<close>

definition rdmaSend_ud where
  "rdmaSend_ud post qp source sz lkey ah remoteQPN isSignaled s =
     post_wr post qp (ud_send_wr source sz lkey ah remoteQPN isSignaled) s"

definition rdmaSend2Sge where
  "rdmaSend2Sge post qp source1 sz1 source2 sz2 lkey1 lkey2 ah remoteQPN isSignaled s =
     post_wr post qp
       (ud_send2_wr source1 sz1 source2 sz2 lkey1 lkey2 ah remoteQPN isSignaled) s"

definition rdmaSend where
  "rdmaSend post qp source sz lkey imm isSignaled s =
     post_wr post qp (rc_send_wr source sz lkey imm isSignaled) s"

definition rdmaReceive where
  "rdmaReceive post qp source sz lkey wrid s =
     post_wr post qp ((fillSgeWr_recv source sz lkey)\<lparr>rwr_id := wrid\<rparr>) s"

definition rdmaReceive_srq where
  "rdmaReceive_srq post srq source sz lkey s =
     post_wr post srq (fillSgeWr_recv source sz lkey) s"

definition rdmaRead where
  "rdmaRead post qp source dest sz lkey remoteRKey signal wrID s =
     post_wr post qp (rc_read_wr source dest sz lkey remoteRKey signal wrID) s"

text \<open>\<open>rdmaWrite\<close> asserts that the post succeeds.\<close>

definition rdmaWrite where
  "rdmaWrite post qp source dest sz lkey remoteRKey imm isSignaled wrID s =
     (case post_wr post qp (rc_write_wr source dest sz lkey remoteRKey imm isSignaled wrID) s of
        (ok, s') \<Rightarrow> (if ok then Ret True else Abort, s'))"

definition rdmaFetchAndAdd where
  "rdmaFetchAndAdd post qp source dest addv lkey remoteRKey signal wrID s =
     post_wr post qp (rc_faa_wr source dest addv lkey remoteRKey signal wrID) s"

definition rdmaCompareAndSwap where
  "rdmaCompareAndSwap post qp source dest compare swap lkey remoteRKey signal wrID s =
     post_wr post qp (rc_cas_wr source dest compare swap lkey remoteRKey signal wrID) s"

end
