(* ===== verification/Rdma_Poll.thy ===== *)
theory Rdma_Poll
  imports Rdma_Ops
begin

text \<open>
  \<open>pollWithCQ\<close> and \<open>pollOnce\<close> of \<open>src/rdma/Operation.cpp\<close>. \<open>poll s\<close> stands for
  \<open>ibv_poll_cq(cq, 1, wc)\<close>: the count it returns, the completion it wrote (if any) and the
  new device state. The polling loop ends only when enough completions were counted, so it
  is a \<open>partial_function\<close> whose value \<open>None\<close> is a loop that does not end.
\<close>

datatype ibv_wc_status = IBV_WC_SUCCESS | IBV_WC_ERROR nat

record ibv_wc =
  wc_id :: u64
  wc_status :: ibv_wc_status
  wc_is_recv :: bool

type_synonym 's poll_fn = "'s \<Rightarrow> int \<times> ibv_wc option \<times> 's"

text \<open>One turn of the loop: poll, keep the completion if one was written, add the count.\<close>

fun poll_turn :: "'s poll_fn \<Rightarrow> int \<times> ibv_wc \<times> 's \<Rightarrow> int \<times> ibv_wc \<times> 's" where
  "poll_turn poll (cnt, wc, s) =
     (case poll s of (new_count, w, s') \<Rightarrow>
        (cnt + new_count, (case w of None \<Rightarrow> wc | Some w' \<Rightarrow> w'), s'))"

partial_function (option) poll_loop ::
  "'s poll_fn \<Rightarrow> int \<Rightarrow> int \<times> ibv_wc \<times> 's \<Rightarrow> (int \<times> ibv_wc \<times> 's) option" where
  "poll_loop poll pollNumber c =
     (let c' = poll_turn poll c
      in if fst c' < pollNumber then poll_loop poll pollNumber c' else Some c')"

text \<open>The message printed on the way out, and the returned value.\<close>

datatype poll_exit = Poll_Completion_failed | Failed_status ibv_wc_status | Polled int

fun poll_return :: "poll_exit \<Rightarrow> int" where
  "poll_return Poll_Completion_failed = -1"
| "poll_return (Failed_status _) = -1"
| "poll_return (Polled k) = k"

definition pollWithCQ ::
  "'s poll_fn \<Rightarrow> int \<Rightarrow> ibv_wc \<Rightarrow> 's \<Rightarrow> (poll_exit \<times> ibv_wc \<times> 's) option" where
  "pollWithCQ poll pollNumber wc s =
     map_option (\<lambda>(cnt, wc', s').
        (if cnt < 0 then Poll_Completion_failed
         else if wc_status wc' \<noteq> IBV_WC_SUCCESS then Failed_status (wc_status wc')
         else Polled cnt, wc', s'))
       (poll_loop poll pollNumber (0, wc, s))"

text \<open>
  \<open>pollOnce\<close> polls for up to \<open>pollNumber\<close> completions at once (\<open>poll\<close> returns their list) and
  looks at the status of the first one.
\<close>

definition pollOnce ::
  "(int \<Rightarrow> 's \<Rightarrow> int \<times> ibv_wc list \<times> 's) \<Rightarrow> int \<Rightarrow> 's \<Rightarrow> int \<times> ibv_wc list \<times> 's" where
  "pollOnce poll pollNumber s =
     (case poll pollNumber s of (cnt, wcs, s') \<Rightarrow>
        if cnt \<le> 0 then (0, wcs, s')
        else if wc_status (wcs ! 0) \<noteq> IBV_WC_SUCCESS then (-1, wcs, s')
        else (cnt, wcs, s'))"

section \<open>The loop as an iteration\<close>

abbreviation turns :: "'s poll_fn \<Rightarrow> nat \<Rightarrow> int \<times> ibv_wc \<times> 's \<Rightarrow> int \<times> ibv_wc \<times> 's" where
  "turns poll m c \<equiv> (poll_turn poll ^^ m) c"

text \<open>\<open>m\<close> is the number of turns after which the loop condition first fails.\<close>

definition stops_after :: "'s poll_fn \<Rightarrow> int \<Rightarrow> int \<times> ibv_wc \<times> 's \<Rightarrow> nat \<Rightarrow> bool" where
  "stops_after poll n c m \<longleftrightarrow> 1 \<le> m \<and> n \<le> fst (turns poll m c)
     \<and> (\<forall>j. 1 \<le> j \<longrightarrow> j < m \<longrightarrow> fst (turns poll j c) < n)"

lemma poll_loop_SomeD:
  assumes "poll_loop poll n c = Some c'"
  shows "\<exists>m. stops_after poll n c m \<and> c' = turns poll m c"
proof (rule poll_loop.raw_induct
    [where P = "\<lambda>poll n c c'. \<exists>m. stops_after poll n c m \<and> c' = turns poll m c", OF _ assms])
  fix f :: "'a poll_fn \<Rightarrow> int \<Rightarrow> int \<times> ibv_wc \<times> 'a \<Rightarrow> (int \<times> ibv_wc \<times> 'a) option"
    and poll n c r
  assume IH: "\<And>poll n c r. f poll n c = Some r
      \<Longrightarrow> \<exists>m. stops_after poll n c m \<and> r = turns poll m c"
    and eq: "(let c' = poll_turn poll c in if fst c' < n then f poll n c' else Some c') = Some r"
  show "\<exists>m. stops_after poll n c m \<and> r = turns poll m c"
  proof (cases "fst (poll_turn poll c) < n")
    case True
    with eq have "f poll n (poll_turn poll c) = Some r" by (simp add: Let_def)
    from IH [OF this] obtain m where m: "stops_after poll n (poll_turn poll c) m"
      "r = turns poll m (poll_turn poll c)" by blast
    have "stops_after poll n c (Suc m)"
      unfolding stops_after_def
    proof (intro conjI allI impI)
      fix j assume j: "1 \<le> j" "j < Suc m"
      then obtain i where i: "j = Suc i" by (cases j) auto
      show "fst (turns poll j c) < n"
        using m(1) j True by (cases "i = 0") (auto simp: i stops_after_def funpow_swap1)
    qed (use m(1) in \<open>auto simp: stops_after_def funpow_swap1\<close>)
    moreover have "r = turns poll (Suc m) c" using m(2) by (simp add: funpow_swap1)
    ultimately show ?thesis by blast
  next
    case False
    with eq have "stops_after poll n c 1 \<and> r = turns poll 1 c"
      by (auto simp: Let_def stops_after_def)
    then show ?thesis by blast
  qed
qed

lemma poll_loop_stops:
  "stops_after poll n c m \<Longrightarrow> poll_loop poll n c = Some (turns poll m c)"
proof (induction m arbitrary: c)
  case 0
  then show ?case by (simp add: stops_after_def)
next
  case (Suc m)
  show ?case
  proof (cases "m = 0")
    case True
    with Suc.prems show ?thesis
      by (subst poll_loop.simps) (simp add: Let_def stops_after_def)
  next
    case False
    then have lt: "fst (poll_turn poll c) < n"
      using Suc.prems unfolding stops_after_def by (auto dest: spec [of _ 1])
    have "stops_after poll n (poll_turn poll c) m"
      using Suc.prems False unfolding stops_after_def
      by (auto simp: funpow_swap1 dest: spec [of _ "Suc _"])
    from Suc.IH [OF this] lt show ?thesis
      by (subst poll_loop.simps) (simp add: Let_def funpow_swap1)
  qed
qed

lemma stops_after_exists:
  assumes "1 \<le> m" "n \<le> fst (turns poll m c)"
  shows "\<exists>k \<le> m. stops_after poll n c k"
proof -
  let ?P = "\<lambda>k. 1 \<le> k \<and> n \<le> fst (turns poll k c)"
  have "?P (LEAST k. ?P k)" by (rule LeastI) (use assms in blast)
  moreover have "(LEAST k. ?P k) \<le> m" by (rule Least_le) (use assms in blast)
  moreover have "fst (turns poll j c) < n" if "1 \<le> j" "j < (LEAST k. ?P k)" for j
    using not_less_Least [OF that(2)] that(1) by auto
  ultimately show ?thesis unfolding stops_after_def by blast
qed

section \<open>Well-behaved devices\<close>

text \<open>
  \<open>ibv_poll_cq\<close> with room for one entry, without errors: it returns 0 and writes nothing or
  returns 1 and writes the completion. \<open>completions\<close> lists what the first \<open>m\<close> polls wrote.
\<close>

definition poll_ok :: "'s poll_fn \<Rightarrow> bool" where
  "poll_ok poll \<longleftrightarrow> (\<forall>s k w s'. poll s = (k, w, s') \<longrightarrow> k = (if w = None then 0 else 1))"

fun completions :: "'s poll_fn \<Rightarrow> nat \<Rightarrow> 's \<Rightarrow> ibv_wc list" where
  "completions poll 0 s = []"
| "completions poll (Suc m) s =
     (case poll s of (k, w, s') \<Rightarrow>
        (case w of None \<Rightarrow> completions poll m s' | Some w' \<Rightarrow> w' # completions poll m s'))"

lemma turns_ok:
  assumes "poll_ok poll"
  shows "fst (turns poll m (cnt, wc, s)) = cnt + int (length (completions poll m s))
    \<and> fst (snd (turns poll m (cnt, wc, s))) = last (wc # completions poll m s)"
proof (induction m arbitrary: cnt wc s)
  case 0
  show ?case by simp
next
  case (Suc m)
  obtain k w s' where p: "poll s = (k, w, s')" by (metis prod_cases3)
  have k: "k = (if w = None then 0 else 1)"
    by (rule assms [unfolded poll_ok_def, rule_format, OF p])
  show ?case
    using Suc.IH by (cases w) (simp_all add: funpow_Suc_right p k del: funpow.simps(2))
qed

lemma completions_Suc_length:
  assumes "poll_ok poll"
  shows "length (completions poll (Suc m) s) \<le> Suc (length (completions poll m s))"
proof (induction m arbitrary: s)
  case 0
  then show ?case by (auto split: prod.splits option.splits)
next
  case (Suc m)
  obtain k w s' where p: "poll s = (k, w, s')" by (metis prod_cases3)
  show ?case using Suc.IH [of s'] by (cases w) (auto simp: p split: prod.splits option.splits)
qed

section \<open>Properties\<close>

text \<open>
  C21. \<open>pollWithCQ\<close> collects exactly the completions it was asked for. On a device without
  poll errors, once enough completions arrive (the first \<open>m\<close> polls bring at least
  \<open>pollNumber\<close> of them) the loop ends after some \<open>j\<close> polls that bring exactly \<open>pollNumber\<close>
  completions; \<open>wc\<close> is the last of them, and the value returned is \<open>pollNumber\<close> when the
  last completion succeeded and -1 otherwise.
\<close>

theorem pollWithCQ_collects:
  assumes ok: "poll_ok poll" and n: "1 \<le> n"
    and arrive: "n \<le> length (completions poll m s)"
  shows "\<exists>j \<le> m. \<exists>ex wc'. pollWithCQ poll (int n) wc s = Some (ex, wc', snd (snd (turns poll j (0, wc, s))))
     \<and> length (completions poll j s) = n \<and> wc' = last (completions poll j s)
     \<and> poll_return ex = (if wc_status wc' = IBV_WC_SUCCESS then int n else -1)"
proof -
  note t = turns_ok [OF ok]
  have "1 \<le> m" using n arrive by (cases m) auto
  then obtain j where j: "j \<le> m" "stops_after poll (int n) (0, wc, s) j"
    using stops_after_exists [of m "int n" poll "(0, wc, s)"] t arrive by auto
  have len: "length (completions poll j s) = n"
  proof -
    obtain i where i: "j = Suc i" using j(2) by (cases j) (auto simp: stops_after_def)
    have "fst (turns poll i (0, wc, s)) < int n"
      using j(2) n unfolding stops_after_def i by (cases "i = 0") auto
    then have "length (completions poll i s) < n" using t [of i 0 wc s] by simp
    moreover have "n \<le> length (completions poll j s)"
      using j(2) t [of j 0 wc s] by (simp add: stops_after_def)
    ultimately show ?thesis using completions_Suc_length [OF ok, of i s] i by simp
  qed
  with n have "completions poll j s \<noteq> []" by auto
  then have "fst (snd (turns poll j (0, wc, s))) = last (completions poll j s)"
    "fst (turns poll j (0, wc, s)) = int n"
    using t [of j 0 wc s] len by simp_all
  with j poll_loop_stops [OF j(2)] len show ?thesis
    by (intro exI [of _ j]) (auto simp: pollWithCQ_def split: prod.splits)
qed

definition demo_cq :: "ibv_wc list poll_fn" where
  "demo_cq q = (case q of [] \<Rightarrow> (0, None, []) | w # q' \<Rightarrow> (1, Some w, q'))"

definition demo_wc :: "u64 \<Rightarrow> ibv_wc_status \<Rightarrow> ibv_wc" where
  "demo_wc i st = \<lparr>wc_id = i, wc_status = st, wc_is_recv = False\<rparr>"

lemma demo_cq_ok: "poll_ok demo_cq"
  by (auto simp: poll_ok_def demo_cq_def split: list.splits)

theorem pollWithCQ_collects_witness:
  "\<exists>ex wc' s'. pollWithCQ demo_cq 2 (demo_wc 0 IBV_WC_SUCCESS)
      [demo_wc 1 IBV_WC_SUCCESS, demo_wc 2 IBV_WC_SUCCESS, demo_wc 3 IBV_WC_SUCCESS] = Some (ex, wc', s')
     \<and> (poll_return ex = 2 \<or> poll_return ex = -1)"
proof -
  have "2 \<le> length (completions demo_cq 3
      [demo_wc 1 IBV_WC_SUCCESS, demo_wc 2 IBV_WC_SUCCESS, demo_wc 3 IBV_WC_SUCCESS])"
    by (simp add: demo_cq_def numeral_3_eq_3)
  from pollWithCQ_collects [OF demo_cq_ok _ this, of "demo_wc 0 IBV_WC_SUCCESS"] show ?thesis
    by (auto split: if_splits)
qed

text \<open>
  The exit "Poll Completion failed" of \<open>pollWithCQ\<close> is never taken for a non-negative
  \<open>pollNumber\<close>: failed polls return negative counts, which are added up while the loop goes
  on. A loop that ends never ends there, and on a queue whose polls all fail it never ends.
\<close>

theorem pollWithCQ_never_reports_poll_failure:
  assumes "0 \<le> n"
  shows "(\<forall>ex wc' s'. pollWithCQ poll n wc s = Some (ex, wc', s') \<longrightarrow> ex \<noteq> Poll_Completion_failed)
    \<and> ((\<forall>u. fst (poll u) < 0) \<longrightarrow> pollWithCQ poll n wc s = None)"
proof (intro conjI allI impI)
  fix ex wc' s' assume "pollWithCQ poll n wc s = Some (ex, wc', s')"
  then obtain cnt where c: "poll_loop poll n (0, wc, s) = Some (cnt, wc', s')"
    and ex: "ex = (if cnt < 0 then Poll_Completion_failed
         else if wc_status wc' \<noteq> IBV_WC_SUCCESS then Failed_status (wc_status wc')
         else Polled cnt)" by (auto simp: pollWithCQ_def)
  from poll_loop_SomeD [OF c] obtain m where "stops_after poll n (0, wc, s) m"
    "(cnt, wc', s') = turns poll m (0, wc, s)" by blast
  then have "n \<le> cnt" unfolding stops_after_def by (metis fst_conv)
  with assms ex show "ex \<noteq> Poll_Completion_failed" by simp
next
  assume neg: "\<forall>u. fst (poll u) < 0"
  have below: "fst (turns poll (Suc m) (0, wc, s)) < 0" for m
  proof (induction m)
    case 0
    have "fst (poll s) < 0" using neg by blast
    then show ?case by (cases "poll s") simp
  next
    case (Suc m)
    obtain cnt w u where t: "turns poll (Suc m) (0, wc, s) = (cnt, w, u)" by (metis prod_cases3)
    have "fst (poll u) < 0" using neg by blast
    with Suc t show ?case by (cases "poll u") simp
  qed
  have "\<not> stops_after poll n (0, wc, s) m" for m
    using below [of "m - 1"] assms by (cases m) (auto simp: stops_after_def)
  then show "pollWithCQ poll n wc s = None"
    using poll_loop_SomeD [of poll n "(0, wc, s)"]
    by (cases "poll_loop poll n (0, wc, s)") (auto simp: pollWithCQ_def)
qed

theorem pollWithCQ_never_reports_poll_failure_witness:
  "pollWithCQ (\<lambda>u :: nat. (-1, None, u)) 1 (demo_wc 0 IBV_WC_SUCCESS) 5 = None"
  using pollWithCQ_never_reports_poll_failure [of 1 "\<lambda>u :: nat. (-1, None, u)"
      "demo_wc 0 IBV_WC_SUCCESS" 5] by simp

text \<open>
  A failed completion is lost when it is not the last one collected: two polls that bring
  a failed completion and then a successful one make \<open>pollWithCQ\<close> report two successes.
\<close>

theorem pollWithCQ_masks_earlier_failure:
  assumes "poll s = (1, Some w1, s1)" and "poll s1 = (1, Some w2, s2)"
    and "wc_status w1 \<noteq> IBV_WC_SUCCESS" and "wc_status w2 = IBV_WC_SUCCESS"
  shows "pollWithCQ poll 2 wc s = Some (Polled 2, w2, s2)"
proof -
  have "stops_after poll 2 (0, wc, s) 2"
    unfolding stops_after_def
  proof (intro conjI allI impI)
    fix j :: nat assume "1 \<le> j" "j < 2"
    then have "j = 1" by simp
    then show "fst (turns poll j (0, wc, s)) < 2" using assms(1) by simp
  qed (use assms in \<open>simp_all add: numeral_2_eq_2\<close>)
  from poll_loop_stops [OF this] show ?thesis
    using assms by (simp add: pollWithCQ_def numeral_2_eq_2)
qed

theorem pollWithCQ_masks_earlier_failure_witness:
  "pollWithCQ demo_cq 2 (demo_wc 0 IBV_WC_SUCCESS)
     [demo_wc 7 (IBV_WC_ERROR 12), demo_wc 8 IBV_WC_SUCCESS]
   = Some (Polled 2, demo_wc 8 IBV_WC_SUCCESS, [])"
  by (rule pollWithCQ_masks_earlier_failure [where ?w1.0 = "demo_wc 7 (IBV_WC_ERROR 12)"
        and ?s1.0 = "[demo_wc 8 IBV_WC_SUCCESS]"])
     (simp_all add: demo_cq_def demo_wc_def)

end
