(* ===== verification/Rdma_Vector.thy ===== *)
theory Rdma_Vector
  imports Rdma_Ops
begin

text \<open>
  \<open>rdmaWriteVector\<close> of \<open>src/rdma/Operation.cpp\<close>: a list of local buffers written to one
  contiguous remote range with a chain of RDMA writes of at most \<open>sgePerWr\<close> buffers each.
  The local arrays \<open>wr\<close> and \<open>sg\<close> are lists updated by index; a request points to its first
  scatter/gather entry and to the next request by index, and the chain is what following
  \<open>next\<close> from request 0 gives.
\<close>

record SourceList =
  src_addr :: u64
  src_size :: u16

record vec_wr =
  v_sg :: "(nat \<times> nat) option"
  v_num_sge :: nat
  v_opcode :: wr_opcode
  v_remote_addr :: u64
  v_rkey :: u32
  v_id :: u64
  v_flags :: "send_flag set"
  v_next :: "nat option"

definition zero_vec_wr :: vec_wr where
  "zero_vec_wr = \<lparr>v_sg = None, v_num_sge = 0, v_opcode = IBV_WR_RDMA_WRITE, v_remote_addr = 0,
     v_rkey = 0, v_id = 0, v_flags = {}, v_next = None\<rparr>"

definition zero_sge :: ibv_sge where
  "zero_sge = \<lparr>sge_addr = 0, sge_length = 0, sge_lkey = 0\<rparr>"

definition src_sge :: "u32 \<Rightarrow> SourceList \<Rightarrow> ibv_sge" where
  "src_sge lkey e = \<lparr>sge_addr = src_addr e, sge_length = ucast (src_size e), sge_lkey = lkey\<rparr>"

text \<open>The arguments that the loop body reads.\<close>

record vec_args =
  va_src :: "SourceList list"
  va_n :: nat
  va_seg :: nat
  va_dest :: u64
  va_lkey :: u32
  va_rkey :: u32
  va_id :: u64

type_synonym vec_state = "vec_wr list \<times> ibv_sge list list \<times> int"

text \<open>The assignments to a request: on its first entry (\<open>sge_id == 0\<close>) and on the last index.\<close>

definition vec_wr_first :: "vec_args \<Rightarrow> nat \<Rightarrow> int \<Rightarrow> vec_wr \<Rightarrow> vec_wr" where
  "vec_wr_first a req_id acc w = w\<lparr>v_sg := Some (req_id, 0),
     v_num_sge := min (va_seg a) (va_n a - req_id * va_seg a),
     v_opcode := IBV_WR_RDMA_WRITE, v_remote_addr := va_dest a + word_of_int acc,
     v_rkey := va_rkey a, v_id := va_id a, v_next := Some (req_id + 1)\<rparr>"

definition vec_wr_last :: "vec_wr \<Rightarrow> vec_wr" where
  "vec_wr_last w = w\<lparr>v_flags := {IBV_SEND_SIGNALED}, v_next := None\<rparr>"

text \<open>
  The body for index \<open>i\<close>. \<open>acc_size\<close> is a signed 32-bit \<open>int\<close>: an overflow is undefined.
\<close>

definition vec_body :: "vec_args \<Rightarrow> nat \<Rightarrow> vec_state \<Rightarrow> vec_state option" where
  "vec_body a i st = (case st of (wrs, sg, acc) \<Rightarrow>
     let req_id = i div va_seg a;
         sge_id = i mod va_seg a;
         e = va_src a ! i;
         sg = sg[req_id := (sg ! req_id)[sge_id := src_sge (va_lkey a) e]];
         wrs = (if sge_id = 0 then wrs[req_id := vec_wr_first a req_id acc (wrs ! req_id)] else wrs);
         acc = acc + uint (src_size e);
         wrs = (if i = va_n a - 1 then wrs[req_id := vec_wr_last (wrs ! req_id)] else wrs)
     in if acc < 2 ^ 31 then Some (wrs, sg, acc) else None)"

fun vec_loop :: "vec_args \<Rightarrow> nat \<Rightarrow> nat \<Rightarrow> vec_state \<Rightarrow> vec_state option" where
  "vec_loop a i 0 st = Some st"
| "vec_loop a i (Suc k) st = Option.bind (vec_body a i st) (vec_loop a (Suc i) k)"

text \<open>What the device reads when it is given request \<open>r\<close>: the entries it points to.\<close>

definition vec_deref :: "ibv_sge list list \<Rightarrow> vec_wr \<Rightarrow> ibv_send_wr" where
  "vec_deref sg w = \<lparr>wr_id = v_id w,
     sg_list = (case v_sg w of None \<Rightarrow> [] | Some (r, c) \<Rightarrow> take (v_num_sge w) (drop c (sg ! r))),
     num_sge = v_num_sge w, opcode = v_opcode w, send_flags = v_flags w, imm_data = 0,
     arm = WR_RDMA (v_remote_addr w) (v_rkey w)\<rparr>"

fun vec_follow :: "vec_wr list \<Rightarrow> ibv_sge list list \<Rightarrow> nat \<Rightarrow> nat option \<Rightarrow> ibv_send_wr list" where
  "vec_follow wrs sg fuel None = []"
| "vec_follow wrs sg 0 (Some r) = []"
| "vec_follow wrs sg (Suc fuel) (Some r) =
     vec_deref sg (wrs ! r) # vec_follow wrs sg fuel (v_next (wrs ! r))"

definition vec_cnt_wr :: "nat \<Rightarrow> nat \<Rightarrow> nat" where
  "vec_cnt_wr n seg = (n + seg - 1) div seg"

text \<open>
  An empty list or a non-positive \<open>sgePerWr\<close> divides by zero or declares an array without
  elements: undefined, \<open>None\<close>. \<open>isSignaled\<close> is not looked at. A failed post aborts.
\<close>

definition rdmaWriteVector ::
  "('qp \<Rightarrow> ibv_send_wr list \<Rightarrow> 's \<Rightarrow> int \<times> 's) \<Rightarrow> 'qp \<Rightarrow> SourceList list \<Rightarrow> int \<Rightarrow> u64 \<Rightarrow> u32 \<Rightarrow> u32
     \<Rightarrow> bool \<Rightarrow> u64 \<Rightarrow> int \<Rightarrow> 's \<Rightarrow> (outcome \<times> 's) option" where
  "rdmaWriteVector post qp source_list list_size dest lkey remoteRKey isSignaled wrID sgePerWr s =
     (if sgePerWr \<le> 0 \<or> list_size \<le> 0 \<or> int (length source_list) < list_size then None
      else
        let n = nat list_size; kCntSeg = nat sgePerWr; kCntWr = vec_cnt_wr n kCntSeg;
            a = \<lparr>va_src = source_list, va_n = n, va_seg = kCntSeg, va_dest = dest,
                 va_lkey = lkey, va_rkey = remoteRKey, va_id = wrID\<rparr>
        in Option.bind
             (vec_loop a 0 n (replicate kCntWr zero_vec_wr,
                              replicate kCntWr (replicate kCntSeg zero_sge), 0))
             (\<lambda>(wrs, sg, acc). case post qp (vec_follow wrs sg kCntWr (Some 0)) s of
                (rc, s') \<Rightarrow> Some (if rc = 0 then Ret True else Abort, s')))"

section \<open>The loop fills the arrays\<close>

definition vec_sum :: "vec_args \<Rightarrow> nat \<Rightarrow> int" where
  "vec_sum a i = (\<Sum>e \<leftarrow> take i (va_src a). uint (src_size e))"

text \<open>Entry \<open>r\<close> of \<open>wr\<close> and of \<open>sg\<close> after the first \<open>i\<close> indices.\<close>

definition vec_wr_at :: "vec_args \<Rightarrow> nat \<Rightarrow> nat \<Rightarrow> vec_wr" where
  "vec_wr_at a i r =
     (if r * va_seg a < i then
        \<lparr>v_sg = Some (r, 0), v_num_sge = min (va_seg a) (va_n a - r * va_seg a),
         v_opcode = IBV_WR_RDMA_WRITE,
         v_remote_addr = va_dest a + word_of_int (vec_sum a (r * va_seg a)),
         v_rkey = va_rkey a, v_id = va_id a,
         v_flags = (if i = va_n a \<and> r = (va_n a - 1) div va_seg a then {IBV_SEND_SIGNALED} else {}),
         v_next = (if i = va_n a \<and> r = (va_n a - 1) div va_seg a then None else Some (r + 1))\<rparr>
      else zero_vec_wr)"

definition vec_sge_at :: "vec_args \<Rightarrow> nat \<Rightarrow> nat \<Rightarrow> nat \<Rightarrow> ibv_sge" where
  "vec_sge_at a i r c =
     (if r * va_seg a + c < i then src_sge (va_lkey a) (va_src a ! (r * va_seg a + c)) else zero_sge)"

definition vec_state_at :: "vec_args \<Rightarrow> nat \<Rightarrow> vec_state" where
  "vec_state_at a i =
     (map (vec_wr_at a i) [0..<vec_cnt_wr (va_n a) (va_seg a)],
      map (\<lambda>r. map (vec_sge_at a i r) [0..<va_seg a]) [0..<vec_cnt_wr (va_n a) (va_seg a)],
      vec_sum a i)"

lemma map_upt_update: "k < n \<Longrightarrow> (map f [0..<n])[k := v] = map (f(k := v)) [0..<n]"
  by (rule nth_equalityI) (auto simp: nth_list_update)

lemma vec_cnt_wr_eq:
  assumes "0 < n" "0 < seg"
  shows "vec_cnt_wr n seg = Suc ((n - 1) div seg)"
proof -
  have "n + seg - 1 = (n - 1) + seg" using assms by simp
  then show ?thesis
    using assms(2) by (simp only: vec_cnt_wr_def div_add_self2)
qed

text \<open>The two array updates of one turn of the loop.\<close>

lemma vec_sg_step:
  assumes q: "i div va_seg a < N" and seg: "0 < va_seg a"
  shows "(map (\<lambda>r. map (vec_sge_at a i r) [0..<va_seg a]) [0..<N])[i div va_seg a :=
            (map (vec_sge_at a i (i div va_seg a)) [0..<va_seg a])
              [i mod va_seg a := src_sge (va_lkey a) (va_src a ! i)]]
         = map (\<lambda>r. map (vec_sge_at a (Suc i) r) [0..<va_seg a]) [0..<N]"
proof -
  let ?q = "i div va_seg a" and ?c = "i mod va_seg a"
  have c: "?c < va_seg a" using seg by simp
  have same: "vec_sge_at a i r k = vec_sge_at a (Suc i) r k"
    if "k < va_seg a" "\<not> (r = ?q \<and> k = ?c)" for r k
  proof -
    have "r * va_seg a + k \<noteq> i" using that by auto
    then show ?thesis by (auto simp: vec_sge_at_def)
  qed
  have new: "vec_sge_at a (Suc i) ?q ?c = src_sge (va_lkey a) (va_src a ! i)"
    by (simp add: vec_sge_at_def)
  show ?thesis
    unfolding map_upt_update [OF q] map_upt_update [OF c]
    using same new by (intro map_cong) (auto intro!: map_cong)
qed

definition vec_wrs_step :: "vec_args \<Rightarrow> nat \<Rightarrow> int \<Rightarrow> vec_wr list \<Rightarrow> vec_wr list" where
  "vec_wrs_step a i acc wrs =
     (let q = i div va_seg a;
          wrs = (if i mod va_seg a = 0 then wrs[q := vec_wr_first a q acc (wrs ! q)] else wrs)
      in if i = va_n a - 1 then wrs[q := vec_wr_last (wrs ! q)] else wrs)"

lemma vec_body_eq:
  "vec_body a i (wrs, sg, acc) =
     (let acc' = acc + uint (src_size (va_src a ! i))
      in if acc' < 2 ^ 31 then Some (vec_wrs_step a i acc wrs,
           sg[i div va_seg a := (sg ! (i div va_seg a))[i mod va_seg a := src_sge (va_lkey a) (va_src a ! i)]],
           acc') else None)"
  by (simp add: vec_body_def vec_wrs_step_def Let_def)

lemma vec_wrs_step_nth:
  assumes "r < length wrs" "i div va_seg a < length wrs"
  shows "vec_wrs_step a i acc wrs ! r =
     (if r = i div va_seg a then
        let w = (if i mod va_seg a = 0 then vec_wr_first a r acc (wrs ! r) else wrs ! r)
        in if i = va_n a - 1 then vec_wr_last w else w
      else wrs ! r)"
  using assms by (auto simp: vec_wrs_step_def Let_def nth_list_update)

lemma vec_wr_at_other:
  assumes "r \<noteq> i div va_seg a" "i < va_n a" "0 < va_seg a"
  shows "vec_wr_at a (Suc i) r = vec_wr_at a i r"
proof -
  have "r * va_seg a \<noteq> i" using assms by auto
  moreover have "Suc i = va_n a \<Longrightarrow> r \<noteq> (va_n a - 1) div va_seg a"
    using assms(1) by (metis diff_Suc_1)
  ultimately show ?thesis using assms(2) by (auto simp: vec_wr_at_def less_Suc_eq)
qed

lemma vec_wr_at_current:
  assumes "i < va_n a" "0 < va_seg a" "r = i div va_seg a"
  shows "vec_wr_at a (Suc i) r =
     (let w = (if i mod va_seg a = 0 then vec_wr_first a r (vec_sum a i) (vec_wr_at a i r)
               else vec_wr_at a i r)
      in if i = va_n a - 1 then vec_wr_last w else w)"
proof (cases "i mod va_seg a = 0")
  case True
  then have "r * va_seg a = i" using assms by auto
  then show ?thesis
    using True assms
    by (auto simp: vec_wr_at_def vec_wr_first_def vec_wr_last_def zero_vec_wr_def Let_def)
next
  case False
  then have "r * va_seg a < i"
    using assms by (metis div_times_less_eq_dividend le_neq_implies_less mod_mult_self2_is_0)
  then show ?thesis
    using False assms
    by (auto simp: vec_wr_at_def vec_wr_last_def Let_def)
qed

lemma vec_body_state:
  assumes i: "i < va_n a" and n: "va_n a \<le> length (va_src a)" and seg: "0 < va_seg a"
    and acc: "vec_sum a (Suc i) < 2 ^ 31"
  shows "vec_body a i (vec_state_at a i) = Some (vec_state_at a (Suc i))"
proof -
  let ?q = "i div va_seg a" and ?N = "vec_cnt_wr (va_n a) (va_seg a)"
  have "?q \<le> (va_n a - 1) div va_seg a" using i by (intro div_le_mono) simp
  then have q: "?q < ?N" using i seg by (simp add: vec_cnt_wr_eq)
  have sum: "vec_sum a i + uint (src_size (va_src a ! i)) = vec_sum a (Suc i)"
    using i n by (simp add: vec_sum_def take_Suc_conv_app_nth)
  have wrs: "vec_wrs_step a i (vec_sum a i) (map (vec_wr_at a i) [0..<?N])
      = map (vec_wr_at a (Suc i)) [0..<?N]"
  proof (rule nth_equalityI)
    show "length (vec_wrs_step a i (vec_sum a i) (map (vec_wr_at a i) [0..<?N]))
        = length (map (vec_wr_at a (Suc i)) [0..<?N])"
      by (simp add: vec_wrs_step_def Let_def)
    fix r assume "r < length (vec_wrs_step a i (vec_sum a i) (map (vec_wr_at a i) [0..<?N]))"
    then have r: "r < ?N" by (simp add: vec_wrs_step_def Let_def split: if_splits)
    show "vec_wrs_step a i (vec_sum a i) (map (vec_wr_at a i) [0..<?N]) ! r
        = map (vec_wr_at a (Suc i)) [0..<?N] ! r"
    proof (cases "r = ?q")
      case True
      then show ?thesis
        using r q vec_wr_at_current [OF i seg True] by (subst vec_wrs_step_nth) simp_all
    next
      case False
      then show ?thesis
        using r q vec_wr_at_other [OF False i seg] by (subst vec_wrs_step_nth) simp_all
    qed
  qed
  have row: "map (\<lambda>r. map (vec_sge_at a i r) [0..<va_seg a]) [0..<?N] ! ?q
      = map (vec_sge_at a i ?q) [0..<va_seg a]"
    using q by simp
  show ?thesis
    unfolding vec_state_at_def vec_body_eq Let_def sum row wrs vec_sg_step [OF q seg]
    using acc by simp
qed

lemma vec_sum_mono:
  assumes "i \<le> j"
  shows "vec_sum a i \<le> vec_sum a j"
proof -
  obtain k where "j = i + k" using assms by (metis le_Suc_ex)
  then have "take j (va_src a) = take i (va_src a) @ take k (drop i (va_src a))"
    by (simp add: take_add)
  moreover have "0 \<le> (\<Sum>e \<leftarrow> take k (drop i (va_src a)). uint (src_size e))"
    by (rule sum_list_nonneg) auto
  ultimately show ?thesis by (simp add: vec_sum_def)
qed

lemma vec_loop_state:
  assumes "i + k = va_n a" "va_n a \<le> length (va_src a)" "0 < va_seg a"
    "vec_sum a (va_n a) < 2 ^ 31"
  shows "vec_loop a i k (vec_state_at a i) = Some (vec_state_at a (va_n a))"
  using assms
proof (induction k arbitrary: i)
  case 0
  then show ?case by simp
next
  case (Suc k)
  then have "vec_sum a (Suc i) < 2 ^ 31"
    using vec_sum_mono [of "Suc i" "va_n a" a] by simp
  with Suc show ?case by (simp add: vec_body_state)
qed

lemma vec_state_init:
  "vec_state_at a 0 = (replicate (vec_cnt_wr (va_n a) (va_seg a)) zero_vec_wr,
     replicate (vec_cnt_wr (va_n a) (va_seg a)) (replicate (va_seg a) zero_sge), 0)"
proof -
  have "vec_wr_at a 0 = (\<lambda>_. zero_vec_wr)" "vec_sge_at a 0 = (\<lambda>_ _. zero_sge)"
    by (auto simp: fun_eq_iff vec_wr_at_def vec_sge_at_def)
  then show ?thesis by (simp add: vec_state_at_def vec_sum_def map_replicate_const)
qed

section \<open>The chain that is posted\<close>

text \<open>Request \<open>r\<close> of the chain, written over the source list.\<close>

definition vec_request :: "vec_args \<Rightarrow> nat \<Rightarrow> ibv_send_wr" where
  "vec_request a r = \<lparr>wr_id = va_id a,
     sg_list = map (src_sge (va_lkey a)) (take (va_seg a) (drop (r * va_seg a) (take (va_n a) (va_src a)))),
     num_sge = min (va_seg a) (va_n a - r * va_seg a), opcode = IBV_WR_RDMA_WRITE,
     send_flags = (if r = (va_n a - 1) div va_seg a then {IBV_SEND_SIGNALED} else {}),
     imm_data = 0,
     arm = WR_RDMA (va_dest a + word_of_int (vec_sum a (r * va_seg a))) (va_rkey a)\<rparr>"

definition vec_chain :: "vec_args \<Rightarrow> ibv_send_wr list" where
  "vec_chain a = map (vec_request a) [0..<vec_cnt_wr (va_n a) (va_seg a)]"

lemma vec_deref_request:
  assumes "r * va_seg a < va_n a" "r < vec_cnt_wr (va_n a) (va_seg a)"
    "va_n a \<le> length (va_src a)"
  shows "vec_deref (map (\<lambda>r. map (vec_sge_at a (va_n a) r) [0..<va_seg a])
            [0..<vec_cnt_wr (va_n a) (va_seg a)]) (vec_wr_at a (va_n a) r) = vec_request a r"
proof -
  have "take (min (va_seg a) (va_n a - r * va_seg a)) (map (vec_sge_at a (va_n a) r) [0..<va_seg a])
      = map (src_sge (va_lkey a)) (take (va_seg a) (drop (r * va_seg a) (take (va_n a) (va_src a))))"
    using assms by (intro nth_equalityI) (auto simp: vec_sge_at_def)
  then show ?thesis
    using assms by (simp add: vec_deref_def vec_wr_at_def vec_request_def)
qed

lemma vec_state_nth:
  "r < vec_cnt_wr (va_n a) (va_seg a) \<Longrightarrow> fst (vec_state_at a i) ! r = vec_wr_at a i r"
  by (simp add: vec_state_at_def del: upt_Suc)

lemma vec_request_in_range:
  assumes "0 < va_n a" "r \<le> (va_n a - 1) div va_seg a"
  shows "r * va_seg a < va_n a"
proof -
  have "r * va_seg a \<le> (va_n a - 1) div va_seg a * va_seg a"
    using assms(2) by (rule mult_le_mono1)
  also have "\<dots> \<le> va_n a - 1" by (rule div_times_less_eq_dividend)
  finally show ?thesis using assms(1) by simp
qed

lemma vec_wr_next:
  assumes "0 < va_n a" "r \<le> (va_n a - 1) div va_seg a"
  shows "v_next (vec_wr_at a (va_n a) r)
    = (if r = (va_n a - 1) div va_seg a then None else Some (Suc r))"
  using vec_request_in_range [OF assms] by (simp add: vec_wr_at_def)

lemma vec_follow_chain:
  assumes n: "0 < va_n a" "va_n a \<le> length (va_src a)" and seg: "0 < va_seg a"
    and r: "r + Suc k = vec_cnt_wr (va_n a) (va_seg a)"
  shows "vec_follow (fst (vec_state_at a (va_n a))) (fst (snd (vec_state_at a (va_n a)))) (Suc k) (Some r)
         = map (vec_request a) [r..<vec_cnt_wr (va_n a) (va_seg a)]"
  using r
proof (induction k arbitrary: r)
  case 0
  then have last: "r = (va_n a - 1) div va_seg a" using n seg by (simp add: vec_cnt_wr_eq)
  have lt: "r < vec_cnt_wr (va_n a) (va_seg a)" using 0 by simp
  have one: "[r..<vec_cnt_wr (va_n a) (va_seg a)] = [r]"
    unfolding 0 [symmetric] by simp
  have deref: "vec_deref (fst (snd (vec_state_at a (va_n a)))) (vec_wr_at a (va_n a) r) = vec_request a r"
    using vec_deref_request [OF _ lt n(2)] vec_request_in_range [OF n(1)] last
    by (simp add: vec_state_at_def del: upt_Suc)
  have "v_next (vec_wr_at a (va_n a) r) = None" using vec_wr_next [OF n(1), of r] last by simp
  then show ?case by (simp add: vec_state_nth [OF lt] deref one)
next
  case (Suc k)
  then have below: "r < (va_n a - 1) div va_seg a" using n seg by (simp add: vec_cnt_wr_eq)
  have lt: "r < vec_cnt_wr (va_n a) (va_seg a)" using Suc.prems by simp
  have cons: "[r..<vec_cnt_wr (va_n a) (va_seg a)] = r # [Suc r..<vec_cnt_wr (va_n a) (va_seg a)]"
    by (rule upt_conv_Cons [OF lt])
  have deref: "vec_deref (fst (snd (vec_state_at a (va_n a)))) (vec_wr_at a (va_n a) r) = vec_request a r"
    using vec_deref_request [OF _ lt n(2)] vec_request_in_range [OF n(1), of r] below
    by (simp add: vec_state_at_def del: upt_Suc)
  have "vec_follow (fst (vec_state_at a (va_n a))) (fst (snd (vec_state_at a (va_n a))))
      (Suc k) (Some (Suc r)) = map (vec_request a) [Suc r..<vec_cnt_wr (va_n a) (va_seg a)]"
    by (rule Suc.IH) (use Suc.prems in simp)
  then show ?case
    unfolding cons using n below
    by (subst vec_follow.simps(3)) (simp add: vec_state_nth [OF lt] vec_wr_next deref)
qed

section \<open>The remote range that is written\<close>

text \<open>
  A write request copies its local buffers one after the other to its remote address. Each
  buffer is listed with its length and the remote address it goes to.
\<close>

fun seg_targets :: "u64 \<Rightarrow> ibv_sge list \<Rightarrow> (u64 \<times> u32 \<times> u64) list" where
  "seg_targets r [] = []"
| "seg_targets r (e # es) =
     (sge_addr e, sge_length e, r) # seg_targets (r + ucast (sge_length e)) es"

definition wr_targets :: "ibv_send_wr \<Rightarrow> (u64 \<times> u32 \<times> u64) list" where
  "wr_targets w = seg_targets (rdma_remote_addr (arm w)) (sg_list w)"

lemma seg_targets_append:
  "seg_targets r (xs @ ys) =
     seg_targets r xs @ seg_targets (r + (\<Sum>e \<leftarrow> xs. ucast (sge_length e))) ys"
  by (induction xs arbitrary: r) (simp_all add: add.assoc)

lemma vec_sum_word:
  "word_of_int (vec_sum a i) = (\<Sum>e \<leftarrow> map (src_sge l) (take i (va_src a)). ucast (sge_length e) :: u64)"
proof -
  have "word_of_int (\<Sum>e \<leftarrow> xs. uint (src_size e))
      = (\<Sum>e \<leftarrow> map (src_sge l) xs. ucast (sge_length e) :: u64)" for xs :: "SourceList list"
  proof (induction xs)
    case (Cons e xs)
    have "(ucast (ucast (src_size e) :: u32) :: u64) = word_of_int (uint (src_size e))"
      by (rule bit_word_eqI) (auto simp: bit_simps dest: bit_imp_le_length)
    with Cons show ?case by (simp add: src_sge_def)
  qed simp
  then show ?thesis by (simp add: vec_sum_def)
qed

text \<open>The chunks of the chain put together are the source list.\<close>

lemma vec_chain_targets_upto:
  assumes "k \<le> vec_cnt_wr (va_n a) (va_seg a)" "va_n a \<le> length (va_src a)"
    "0 < va_n a" "0 < va_seg a"
  shows "concat (map (wr_targets \<circ> vec_request a) [0..<k]) =
     seg_targets (va_dest a)
       (map (src_sge (va_lkey a)) (take (k * va_seg a) (take (va_n a) (va_src a))))"
  using assms(1)
proof (induction k)
  case 0
  then show ?case by simp
next
  case (Suc k)
  let ?xs = "take (va_n a) (va_src a)" and ?f = "src_sge (va_lkey a)"
  have "k * va_seg a < va_n a"
    using Suc.prems assms(3,4) by (intro vec_request_in_range) (simp_all add: vec_cnt_wr_eq)
  then have pre: "take (k * va_seg a) ?xs = take (k * va_seg a) (va_src a)"
    by (simp add: min_def)
  have split: "take (Suc k * va_seg a) ?xs
      = take (k * va_seg a) ?xs @ take (va_seg a) (drop (k * va_seg a) ?xs)"
    by (metis add.commute mult_Suc take_add)
  have "wr_targets (vec_request a k) = seg_targets
      (va_dest a + (\<Sum>e \<leftarrow> map ?f (take (k * va_seg a) ?xs). ucast (sge_length e)))
      (map ?f (take (va_seg a) (drop (k * va_seg a) ?xs)))"
    unfolding pre vec_sum_word [of a "k * va_seg a" "va_lkey a", symmetric]
    by (simp add: wr_targets_def vec_request_def)
  then show ?case
    using Suc by (simp add: split seg_targets_append del: take_take mult_Suc)
qed

lemma vec_cnt_wr_covers: "0 < n \<Longrightarrow> 0 < seg \<Longrightarrow> n \<le> vec_cnt_wr n seg * seg"
proof -
  assume n: "0 < n" and seg: "0 < seg"
  have "n - 1 < Suc ((n - 1) div seg) * seg"
    using dividend_less_div_times [OF seg, of "n - 1"] by simp
  then show ?thesis by (simp add: vec_cnt_wr_eq [OF n seg])
qed

section \<open>Property\<close>

text \<open>
  C20. \<open>rdmaWriteVector\<close> writes the buffers of the list one after the other to the remote
  range that starts at \<open>dest\<close>: for a non-empty list and a positive \<open>sgePerWr\<close> (and a total
  size below 2 GiB) exactly one chain of requests is posted; together its requests copy
  buffer after buffer to consecutive remote addresses, each request has between one and
  \<open>sgePerWr\<close> entries as it announces in \<open>num_sge\<close>, and the last request alone is signaled,
  whatever \<open>isSignaled\<close> is. A failed post aborts.
\<close>

theorem rdmaWriteVector_contiguous:
  assumes n: "0 < n" "n \<le> length src" and seg: "0 < seg"
    and total: "(\<Sum>e \<leftarrow> take n src. uint (src_size e)) < 2 ^ 31"
  shows "\<exists>chain. rdmaWriteVector post qp src (int n) dest lkey rkey sig wrID (int seg) s
        = Some (case post qp chain s of (rc, s') \<Rightarrow> (if rc = 0 then Ret True else Abort, s'))
     \<and> concat (map wr_targets chain) = seg_targets dest (map (src_sge lkey) (take n src))
     \<and> (\<forall>w \<in> set chain. 1 \<le> num_sge w \<and> num_sge w \<le> seg \<and> length (sg_list w) = num_sge w)
     \<and> map send_flags chain = replicate (vec_cnt_wr n seg - 1) {} @ [{IBV_SEND_SIGNALED}]"
proof -
  define a where "a = \<lparr>va_src = src, va_n = n, va_seg = seg, va_dest = dest, va_lkey = lkey,
      va_rkey = rkey, va_id = wrID\<rparr>"
  have va: "va_src a = src" "va_n a = n" "va_seg a = seg" "va_dest a = dest" "va_lkey a = lkey"
    by (simp_all add: a_def)
  let ?N = "vec_cnt_wr n seg"
  have N: "?N = Suc ((n - 1) div seg)" by (rule vec_cnt_wr_eq [OF n(1) seg])
  have loop: "vec_loop a 0 n (replicate ?N zero_vec_wr, replicate ?N (replicate seg zero_sge), 0)
      = Some (vec_state_at a n)"
    using vec_loop_state [of 0 n a] vec_state_init [of a] n seg total by (simp add: va vec_sum_def)
  have follow: "vec_follow (fst (vec_state_at a n)) (fst (snd (vec_state_at a n))) ?N (Some 0)
      = vec_chain a"
    using vec_follow_chain [of a 0 "(n - 1) div seg"] n seg N by (simp add: va vec_chain_def del: upt_Suc)
  have "rdmaWriteVector post qp src (int n) dest lkey rkey sig wrID (int seg) s
      = Some (case post qp (vec_chain a) s of (rc, s') \<Rightarrow> (if rc = 0 then Ret True else Abort, s'))"
    using n seg loop follow
    by (cases "vec_state_at a n") (simp add: rdmaWriteVector_def Let_def a_def split: prod.splits)
  moreover have "concat (map wr_targets (vec_chain a)) = seg_targets dest (map (src_sge lkey) (take n src))"
    using vec_chain_targets_upto [of ?N a] vec_cnt_wr_covers [OF n(1) seg] n seg
    by (simp add: vec_chain_def va del: upt_Suc)
  moreover have "\<forall>w \<in> set (vec_chain a). 1 \<le> num_sge w \<and> num_sge w \<le> seg \<and> length (sg_list w) = num_sge w"
  proof
    fix w assume "w \<in> set (vec_chain a)"
    then obtain r where w: "w = vec_request a r" and r: "r \<le> (n - 1) div seg"
      by (auto simp: vec_chain_def va N simp del: upt_Suc)
    have "r * seg < n" using vec_request_in_range [of a r] r n by (simp add: va)
    then show "1 \<le> num_sge w \<and> num_sge w \<le> seg \<and> length (sg_list w) = num_sge w"
      using n seg by (auto simp: w vec_request_def va)
  qed
  moreover have "map send_flags (vec_chain a) = replicate (?N - 1) {} @ [{IBV_SEND_SIGNALED}]"
    by (rule nth_equalityI) (auto simp: vec_chain_def vec_request_def va N nth_append simp del: upt_Suc)
  ultimately show ?thesis by blast
qed

definition demo_src :: "SourceList list" where
  "demo_src = [\<lparr>src_addr = 100, src_size = 8\<rparr>, \<lparr>src_addr = 300, src_size = 16\<rparr>,
               \<lparr>src_addr = 200, src_size = 4\<rparr>]"

theorem rdmaWriteVector_contiguous_witness:
  "\<exists>chain. rdmaWriteVector (\<lambda>qp :: nat. \<lambda>wrs s. (0, wrs # s)) 9 demo_src 3 1000 1 2 False 5 2 []
      = Some (Ret True, [chain])
     \<and> concat (map wr_targets chain) = [(100, 8, 1000), (300, 16, 1008), (200, 4, 1024)]"
  using rdmaWriteVector_contiguous [of 3 demo_src 2 "\<lambda>qp :: nat. \<lambda>wrs s. (0, wrs # s)" 9 1000 1 2
      False 5 "[]"]
  by (auto simp: demo_src_def src_sge_def)

end
