(* ===== verification/Rdma_QP.thy ===== *)
theory Rdma_QP
  imports Rdma_Ops
begin

text \<open>
  \<open>src/rdma/StateTrans.cpp\<close> and \<open>fillAhAttr\<close> of \<open>src/rdma/Resource.cpp\<close>: the transitions of
  a queue pair. \<open>ibv_modify_qp\<close> belongs to the verbs library and is the parameter
  \<open>modify qp attr mask s\<close>, which gives a return code and the new device state;
  \<open>verbs_modify\<close> states what its manual page documents (the attributes each transition
  requires).
\<close>

datatype ibv_qp_type = IBV_QPT_RC | IBV_QPT_UC | IBV_QPT_UD | IBV_QPT_RAW_PACKET

datatype ibv_qp_state =
    IBV_QPS_RESET | IBV_QPS_INIT | IBV_QPS_RTR | IBV_QPS_RTS | IBV_QPS_SQD | IBV_QPS_SQE
  | IBV_QPS_ERR | IBV_QPS_UNKNOWN

text \<open>The states are ordered as the enumeration is, so that progress can be stated with \<open><\<close>.\<close>

fun qps_rank :: "ibv_qp_state \<Rightarrow> nat" where
  "qps_rank IBV_QPS_RESET = 0"
| "qps_rank IBV_QPS_INIT = 1"
| "qps_rank IBV_QPS_RTR = 2"
| "qps_rank IBV_QPS_RTS = 3"
| "qps_rank IBV_QPS_SQD = 4"
| "qps_rank IBV_QPS_SQE = 5"
| "qps_rank IBV_QPS_ERR = 6"
| "qps_rank IBV_QPS_UNKNOWN = 7"

lemma qps_rank_inj: "qps_rank a = qps_rank b \<Longrightarrow> a = b"
  by (cases a; cases b) simp_all

instantiation ibv_qp_state :: linorder
begin

definition less_eq_ibv_qp_state :: "ibv_qp_state \<Rightarrow> ibv_qp_state \<Rightarrow> bool" where
  "less_eq_ibv_qp_state a b \<longleftrightarrow> qps_rank a \<le> qps_rank b"

definition less_ibv_qp_state :: "ibv_qp_state \<Rightarrow> ibv_qp_state \<Rightarrow> bool" where
  "less_ibv_qp_state a b \<longleftrightarrow> qps_rank a < qps_rank b"

instance
  by intro_classes (auto simp: less_eq_ibv_qp_state_def less_ibv_qp_state_def dest: qps_rank_inj)

end

datatype access_flag =
  IBV_ACCESS_LOCAL_WRITE | IBV_ACCESS_REMOTE_READ | IBV_ACCESS_REMOTE_WRITE | IBV_ACCESS_REMOTE_ATOMIC

datatype attr_mask =
    IBV_QP_STATE | IBV_QP_PKEY_INDEX | IBV_QP_PORT | IBV_QP_QKEY | IBV_QP_ACCESS_FLAGS
  | IBV_QP_AV | IBV_QP_PATH_MTU | IBV_QP_DEST_QPN | IBV_QP_RQ_PSN
  | IBV_QP_MAX_DEST_RD_ATOMIC | IBV_QP_MIN_RNR_TIMER | IBV_QP_SQ_PSN | IBV_QP_TIMEOUT
  | IBV_QP_RETRY_CNT | IBV_QP_RNR_RETRY | IBV_QP_MAX_QP_RD_ATOMIC

datatype ibv_mtu = IBV_MTU_ZERO | IBV_MTU_4096

record RdmaContext =
  devIndex :: u8
  port :: u8
  gidIndex :: int
  ctx_handle :: u64
  pd_handle :: u64
  lid :: u16
  gid :: "u8 list"

record ibv_global_route =
  dgid :: "u8 list"
  flow_label :: u32
  sgid_index :: u8
  hop_limit :: u8
  traffic_class :: u8

record ibv_ah_attr =
  grh :: ibv_global_route
  dlid :: u16
  ah_sl :: u8
  src_path_bits :: u8
  is_global :: u8
  ah_port_num :: u8

definition zero_ah_attr :: ibv_ah_attr where
  "zero_ah_attr = \<lparr>grh = \<lparr>dgid = replicate 16 0, flow_label = 0, sgid_index = 0, hop_limit = 0,
     traffic_class = 0\<rparr>, dlid = 0, ah_sl = 0, src_path_bits = 0, is_global = 0, ah_port_num = 0\<rparr>"

definition fillAhAttr :: "u32 \<Rightarrow> u8 list \<Rightarrow> RdmaContext \<Rightarrow> ibv_ah_attr" where
  "fillAhAttr remoteLid remoteGid context =
     zero_ah_attr\<lparr>dlid := ucast remoteLid, ah_sl := 0, src_path_bits := 0,
       ah_port_num := port context, is_global := 1,
       grh := \<lparr>dgid = take 16 remoteGid, flow_label = 0,
               sgid_index = word_of_int (gidIndex context), hop_limit = HOP_LIMIT,
               traffic_class = 0\<rparr>\<rparr>"

record ibv_qp_attr =
  qp_state :: ibv_qp_state
  path_mtu :: ibv_mtu
  qkey :: u32
  rq_psn :: u32
  sq_psn :: u32
  dest_qp_num :: u32
  qp_access_flags :: "access_flag set"
  ah_attr :: ibv_ah_attr
  pkey_index :: u16
  max_rd_atomic :: u8
  max_dest_rd_atomic :: u8
  min_rnr_timer :: u8
  port_num :: u8
  timeout :: u8
  retry_cnt :: u8
  rnr_retry :: u8

definition zero_qp_attr :: ibv_qp_attr where
  "zero_qp_attr = \<lparr>qp_state = IBV_QPS_RESET, path_mtu = IBV_MTU_ZERO, qkey = 0, rq_psn = 0,
     sq_psn = 0, dest_qp_num = 0, qp_access_flags = {}, ah_attr = zero_ah_attr, pkey_index = 0,
     max_rd_atomic = 0, max_dest_rd_atomic = 0, min_rnr_timer = 0, port_num = 0, timeout = 0,
     retry_cnt = 0, rnr_retry = 0\<rparr>"

record ibv_qp =
  qp_num :: u32
  qp_type :: ibv_qp_type

type_synonym 's modify_fn = "ibv_qp \<Rightarrow> ibv_qp_attr \<Rightarrow> attr_mask set \<Rightarrow> 's \<Rightarrow> int \<times> 's"

definition modify_ok :: "'s modify_fn \<Rightarrow> ibv_qp \<Rightarrow> ibv_qp_attr \<Rightarrow> attr_mask set \<Rightarrow> 's \<Rightarrow> bool \<times> 's"
  where "modify_ok modify qp attr msk s = (case modify qp attr msk s of (rc, s') \<Rightarrow> (rc = 0, s'))"

section \<open>The transitions\<close>

definition modifyQPtoReset :: "'s modify_fn \<Rightarrow> ibv_qp \<Rightarrow> 's \<Rightarrow> bool \<times> 's" where
  "modifyQPtoReset modify qp s =
     modify_ok modify qp (zero_qp_attr\<lparr>qp_state := IBV_QPS_RESET\<rparr>) {IBV_QP_STATE} s"

definition init_attr :: "ibv_qp \<Rightarrow> RdmaContext \<Rightarrow> ibv_qp_attr" where
  "init_attr qp context =
     (let attr = zero_qp_attr\<lparr>qp_state := IBV_QPS_INIT, port_num := port context, pkey_index := 0\<rparr>
      in case qp_type qp of
           IBV_QPT_RC \<Rightarrow> attr\<lparr>qp_access_flags :=
             {IBV_ACCESS_REMOTE_READ, IBV_ACCESS_REMOTE_WRITE, IBV_ACCESS_REMOTE_ATOMIC}\<rparr>
         | IBV_QPT_UC \<Rightarrow> attr\<lparr>qp_access_flags := {IBV_ACCESS_REMOTE_WRITE}\<rparr>
         | _ \<Rightarrow> attr)"

definition modifyQPtoInit :: "'s modify_fn \<Rightarrow> ibv_qp \<Rightarrow> RdmaContext \<Rightarrow> 's \<Rightarrow> bool \<times> 's" where
  "modifyQPtoInit modify qp context s =
     modify_ok modify qp (init_attr qp context)
       {IBV_QP_STATE, IBV_QP_PKEY_INDEX, IBV_QP_PORT, IBV_QP_ACCESS_FLAGS} s"

definition modifyQPtoRTR ::
  "'s modify_fn \<Rightarrow> ibv_qp \<Rightarrow> u32 \<Rightarrow> u16 \<Rightarrow> u8 list \<Rightarrow> RdmaContext \<Rightarrow> 's \<Rightarrow> bool \<times> 's" where
  "modifyQPtoRTR modify qp remoteQPN remoteLid remoteGid context s =
     (let attr = zero_qp_attr\<lparr>qp_state := IBV_QPS_RTR, path_mtu := IBV_MTU_4096,
            dest_qp_num := remoteQPN, rq_psn := PSN,
            ah_attr := fillAhAttr (ucast remoteLid) remoteGid context\<rparr>;
          flags = {IBV_QP_STATE, IBV_QP_AV, IBV_QP_PATH_MTU, IBV_QP_DEST_QPN, IBV_QP_RQ_PSN};
          (attr, flags) =
            (if qp_type qp = IBV_QPT_RC
             then (attr\<lparr>max_dest_rd_atomic := 16, min_rnr_timer := 12\<rparr>,
                   flags \<union> {IBV_QP_MAX_DEST_RD_ATOMIC, IBV_QP_MIN_RNR_TIMER})
             else (attr, flags))
      in modify_ok modify qp attr flags s)"

definition modifyQPtoRTS :: "'s modify_fn \<Rightarrow> ibv_qp \<Rightarrow> 's \<Rightarrow> bool \<times> 's" where
  "modifyQPtoRTS modify qp s =
     (let attr = zero_qp_attr\<lparr>qp_state := IBV_QPS_RTS, sq_psn := PSN\<rparr>;
          flags = {IBV_QP_STATE, IBV_QP_SQ_PSN};
          (attr, flags) =
            (if qp_type qp = IBV_QPT_RC
             then (attr\<lparr>timeout := 14, retry_cnt := 7, rnr_retry := 7, max_rd_atomic := 16\<rparr>,
                   flags \<union> {IBV_QP_TIMEOUT, IBV_QP_RETRY_CNT, IBV_QP_RNR_RETRY,
                            IBV_QP_MAX_QP_RD_ATOMIC})
             else (attr, flags))
      in modify_ok modify qp attr flags s)"

definition modifyUDtoRTS :: "'s modify_fn \<Rightarrow> ibv_qp \<Rightarrow> RdmaContext \<Rightarrow> 's \<Rightarrow> bool \<times> 's" where
  "modifyUDtoRTS modify qp context s =
     (let ud = (qp_type qp = IBV_QPT_UD);
          attr1 = zero_qp_attr\<lparr>qp_state := IBV_QPS_INIT, pkey_index := 0,
                               port_num := port context, qkey := UD_PKEY\<rparr>;
          (ok1, s1) = modify_ok modify qp attr1
             (if ud then {IBV_QP_STATE, IBV_QP_PKEY_INDEX, IBV_QP_PORT, IBV_QP_QKEY}
              else {IBV_QP_STATE, IBV_QP_PORT}) s
      in if \<not> ok1 then (False, s1)
         else
           let (ok2, s2) = modify_ok modify qp (zero_qp_attr\<lparr>qp_state := IBV_QPS_RTR\<rparr>)
                             {IBV_QP_STATE} s1
           in if \<not> ok2 then (False, s2)
              else modify_ok modify qp (zero_qp_attr\<lparr>qp_state := IBV_QPS_RTS, sq_psn := PSN\<rparr>)
                     (if ud then {IBV_QP_STATE, IBV_QP_SQ_PSN} else {IBV_QP_STATE}) s2)"

text \<open>
  The three calls with which \<open>DSMKeeper::setDataFromRemote\<close> connects an RC queue pair; it
  does not look at what they return.
\<close>

definition connect_qp ::
  "'s modify_fn \<Rightarrow> ibv_qp \<Rightarrow> RdmaContext \<Rightarrow> u32 \<Rightarrow> u16 \<Rightarrow> u8 list \<Rightarrow> 's \<Rightarrow> 's" where
  "connect_qp modify qp context remoteQPN remoteLid remoteGid s =
     (let s = snd (modifyQPtoInit modify qp context s);
          s = snd (modifyQPtoRTR modify qp remoteQPN remoteLid remoteGid context s)
      in snd (modifyQPtoRTS modify qp s))"

section \<open>What the verbs manual says about \<open>ibv_modify_qp\<close>\<close>

text \<open>
  The attributes that the transitions from reset to ready-to-send require, by the type of
  the queue pair.
\<close>

definition required_mask ::
  "ibv_qp_type \<Rightarrow> ibv_qp_state \<Rightarrow> ibv_qp_state \<Rightarrow> attr_mask set option" where
  "required_mask ty from to =
     (if to = IBV_QPS_RESET then Some {IBV_QP_STATE}
      else if from = IBV_QPS_RESET \<and> to = IBV_QPS_INIT then
        (case ty of
           IBV_QPT_UD \<Rightarrow> Some {IBV_QP_STATE, IBV_QP_PKEY_INDEX, IBV_QP_PORT, IBV_QP_QKEY}
         | IBV_QPT_RAW_PACKET \<Rightarrow> Some {IBV_QP_STATE, IBV_QP_PORT}
         | _ \<Rightarrow> Some {IBV_QP_STATE, IBV_QP_PKEY_INDEX, IBV_QP_PORT, IBV_QP_ACCESS_FLAGS})
      else if from = IBV_QPS_INIT \<and> to = IBV_QPS_RTR then
        (case ty of
           IBV_QPT_RC \<Rightarrow> Some {IBV_QP_STATE, IBV_QP_AV, IBV_QP_PATH_MTU, IBV_QP_DEST_QPN,
              IBV_QP_RQ_PSN, IBV_QP_MAX_DEST_RD_ATOMIC, IBV_QP_MIN_RNR_TIMER}
         | IBV_QPT_UC \<Rightarrow> Some {IBV_QP_STATE, IBV_QP_AV, IBV_QP_PATH_MTU, IBV_QP_DEST_QPN,
              IBV_QP_RQ_PSN}
         | _ \<Rightarrow> Some {IBV_QP_STATE})
      else if from = IBV_QPS_RTR \<and> to = IBV_QPS_RTS then
        (case ty of
           IBV_QPT_RC \<Rightarrow> Some {IBV_QP_STATE, IBV_QP_SQ_PSN, IBV_QP_TIMEOUT, IBV_QP_RETRY_CNT,
              IBV_QP_RNR_RETRY, IBV_QP_MAX_QP_RD_ATOMIC}
         | IBV_QPT_RAW_PACKET \<Rightarrow> Some {IBV_QP_STATE}
         | _ \<Rightarrow> Some {IBV_QP_STATE, IBV_QP_SQ_PSN})
      else None)"

text \<open>
  \<open>st\<close> and \<open>dest\<close> observe the state and the peer of every queue pair. A transition with the
  required attributes succeeds and changes this queue pair only; one that lacks a required
  attribute fails and changes nothing.
\<close>

definition verbs_modify ::
  "'s modify_fn \<Rightarrow> ('s \<Rightarrow> u32 \<Rightarrow> ibv_qp_state) \<Rightarrow> ('s \<Rightarrow> u32 \<Rightarrow> u32) \<Rightarrow> bool" where
  "verbs_modify modify st dest \<longleftrightarrow>
     (\<forall>qp attr msk s req.
        required_mask (qp_type qp) (st s (qp_num qp)) (qp_state attr) = Some req \<longrightarrow>
        (msk = req \<longrightarrow> (\<exists>s'. modify qp attr msk s = (0, s')
            \<and> st s' = (st s)(qp_num qp := qp_state attr)
            \<and> dest s' = (if IBV_QP_DEST_QPN \<in> msk then (dest s)(qp_num qp := dest_qp_num attr)
                         else dest s)))
      \<and> (\<not> req \<subseteq> msk \<longrightarrow> (\<exists>rc. rc \<noteq> 0 \<and> modify qp attr msk s = (rc, s))))"

lemma verbs_modifyD:
  assumes "verbs_modify modify st dest"
    and "required_mask (qp_type qp) (st s (qp_num qp)) (qp_state attr) = Some req"
  shows "msk = req \<Longrightarrow> \<exists>s'. modify qp attr msk s = (0, s')
            \<and> st s' = (st s)(qp_num qp := qp_state attr)
            \<and> dest s' = (if IBV_QP_DEST_QPN \<in> msk then (dest s)(qp_num qp := dest_qp_num attr)
                         else dest s)"
    and "\<not> req \<subseteq> msk \<Longrightarrow> \<exists>rc. rc \<noteq> 0 \<and> modify qp attr msk s = (rc, s)"
  using assms(1) [unfolded verbs_modify_def, rule_format, OF assms(2)] by blast+

lemma modify_ok_succeeds:
  assumes "verbs_modify modify st dest"
    and "required_mask (qp_type qp) (st s (qp_num qp)) (qp_state attr) = Some msk"
  shows "\<exists>s'. modify_ok modify qp attr msk s = (True, s')
     \<and> st s' = (st s)(qp_num qp := qp_state attr)
     \<and> dest s' = (if IBV_QP_DEST_QPN \<in> msk then (dest s)(qp_num qp := dest_qp_num attr) else dest s)"
  using verbs_modifyD(1) [OF assms(1,2) refl] by (auto simp: modify_ok_def)

lemma modify_ok_fails:
  assumes "verbs_modify modify st dest"
    and "required_mask (qp_type qp) (st s (qp_num qp)) (qp_state attr) = Some req" "\<not> req \<subseteq> msk"
  shows "modify_ok modify qp attr msk s = (False, s)"
  using verbs_modifyD(2) [OF assms] by (auto simp: modify_ok_def)

lemma qp_type_init_attr [simp]: "qp_state (init_attr qp c) = IBV_QPS_INIT"
  by (simp add: init_attr_def Let_def split: ibv_qp_type.splits)

lemma modifyQPtoInit_ok:
  assumes "verbs_modify modify st dest" "qp_type qp \<in> {IBV_QPT_RC, IBV_QPT_UC}"
    "st s (qp_num qp) = IBV_QPS_RESET"
  shows "\<exists>s'. modifyQPtoInit modify qp c s = (True, s')
     \<and> st s' = (st s)(qp_num qp := IBV_QPS_INIT) \<and> dest s' = dest s"
  using modify_ok_succeeds [OF assms(1), of qp s "init_attr qp c"
      "{IBV_QP_STATE, IBV_QP_PKEY_INDEX, IBV_QP_PORT, IBV_QP_ACCESS_FLAGS}"] assms(2,3)
  by (auto simp: modifyQPtoInit_def required_mask_def)

lemma modifyQPtoRTR_ok:
  assumes "verbs_modify modify st dest" "qp_type qp \<in> {IBV_QPT_RC, IBV_QPT_UC}"
    "st s (qp_num qp) = IBV_QPS_INIT"
  shows "\<exists>s'. modifyQPtoRTR modify qp n l g c s = (True, s')
     \<and> st s' = (st s)(qp_num qp := IBV_QPS_RTR) \<and> dest s' = (dest s)(qp_num qp := n)"
proof (cases "qp_type qp = IBV_QPT_RC")
  case True
  then show ?thesis
    using modify_ok_succeeds [OF assms(1), of qp s "zero_qp_attr\<lparr>qp_state := IBV_QPS_RTR,
        path_mtu := IBV_MTU_4096, dest_qp_num := n, rq_psn := PSN,
        ah_attr := fillAhAttr (ucast l) g c, max_dest_rd_atomic := 16, min_rnr_timer := 12\<rparr>"] assms
    by (simp add: modifyQPtoRTR_def required_mask_def Let_def insert_commute)
next
  case False
  then show ?thesis
    using modify_ok_succeeds [OF assms(1), of qp s "zero_qp_attr\<lparr>qp_state := IBV_QPS_RTR,
        path_mtu := IBV_MTU_4096, dest_qp_num := n, rq_psn := PSN,
        ah_attr := fillAhAttr (ucast l) g c\<rparr>"] assms
    by (simp add: modifyQPtoRTR_def required_mask_def Let_def)
qed

lemma modifyQPtoRTS_ok:
  assumes "verbs_modify modify st dest" "qp_type qp \<in> {IBV_QPT_RC, IBV_QPT_UC}"
    "st s (qp_num qp) = IBV_QPS_RTR"
  shows "\<exists>s'. modifyQPtoRTS modify qp s = (True, s')
     \<and> st s' = (st s)(qp_num qp := IBV_QPS_RTS) \<and> dest s' = dest s"
proof (cases "qp_type qp = IBV_QPT_RC")
  case True
  then show ?thesis
    using modify_ok_succeeds [OF assms(1), of qp s "zero_qp_attr\<lparr>qp_state := IBV_QPS_RTS,
        sq_psn := PSN, timeout := 14, retry_cnt := 7, rnr_retry := 7, max_rd_atomic := 16\<rparr>"] assms
    by (simp add: modifyQPtoRTS_def required_mask_def Let_def insert_commute)
next
  case False
  then show ?thesis
    using modify_ok_succeeds [OF assms(1), of qp s
        "zero_qp_attr\<lparr>qp_state := IBV_QPS_RTS, sq_psn := PSN\<rparr>"] assms
    by (simp add: modifyQPtoRTS_def required_mask_def Let_def)
qed

lemma connect_qp_ok:
  assumes v: "verbs_modify modify st dest" and t: "qp_type qp \<in> {IBV_QPT_RC, IBV_QPT_UC}"
    and "st s (qp_num qp) = IBV_QPS_RESET"
  shows "st (connect_qp modify qp c n l g s) = (st s)(qp_num qp := IBV_QPS_RTS)
     \<and> dest (connect_qp modify qp c n l g s) = (dest s)(qp_num qp := n)"
proof -
  obtain s1 where s1: "modifyQPtoInit modify qp c s = (True, s1)"
    "st s1 = (st s)(qp_num qp := IBV_QPS_INIT)" "dest s1 = dest s"
    using modifyQPtoInit_ok [OF assms] by blast
  then obtain s2 where s2: "modifyQPtoRTR modify qp n l g c s1 = (True, s2)"
    "st s2 = (st s)(qp_num qp := IBV_QPS_RTR)" "dest s2 = (dest s)(qp_num qp := n)"
    using modifyQPtoRTR_ok [OF v t, of s1 n l g c] by auto
  then obtain s3 where "modifyQPtoRTS modify qp s2 = (True, s3)"
    "st s3 = (st s)(qp_num qp := IBV_QPS_RTS)" "dest s3 = (dest s)(qp_num qp := n)"
    using modifyQPtoRTS_ok [OF v t, of s2] by auto
  with s1 s2 show ?thesis by (simp add: connect_qp_def)
qed

text \<open>A device that keeps the state and the peer of every queue pair, for concrete runs.\<close>

definition demo_modify :: "(u32 \<Rightarrow> ibv_qp_state \<times> u32) modify_fn" where
  "demo_modify qp attr msk s =
     (case required_mask (qp_type qp) (fst (s (qp_num qp))) (qp_state attr) of
        None \<Rightarrow> (22, s)
      | Some req \<Rightarrow>
          if req \<subseteq> msk then
            (0, s(qp_num qp := (qp_state attr,
                  if IBV_QP_DEST_QPN \<in> msk then dest_qp_num attr else snd (s (qp_num qp)))))
          else (22, s))"

lemma demo_modify_verbs: "verbs_modify demo_modify (\<lambda>s n. fst (s n)) (\<lambda>s n. snd (s n))"
  by (auto simp: verbs_modify_def demo_modify_def intro!: ext)

section \<open>Properties\<close>

text \<open>
  Activation of a UD queue pair. From reset, \<open>modifyUDtoRTS\<close> on a UD (or raw packet) queue
  pair returns true with that queue pair ready to send and all others untouched; on an RC or
  UC queue pair its first call lacks required attributes, so it returns false and changes
  nothing.
\<close>

theorem modifyUDtoRTS_by_type:
  assumes v: "verbs_modify modify st dest" and reset: "st s (qp_num qp) = IBV_QPS_RESET"
  shows "if qp_type qp \<in> {IBV_QPT_UD, IBV_QPT_RAW_PACKET}
         then \<exists>s'. modifyUDtoRTS modify qp c s = (True, s')
            \<and> st s' = (st s)(qp_num qp := IBV_QPS_RTS) \<and> dest s' = dest s
         else modifyUDtoRTS modify qp c s = (False, s)"
proof (cases "qp_type qp \<in> {IBV_QPT_UD, IBV_QPT_RAW_PACKET}")
  case True
  let ?ud = "qp_type qp = IBV_QPT_UD"
  let ?a1 = "zero_qp_attr\<lparr>qp_state := IBV_QPS_INIT, pkey_index := 0, port_num := port c, qkey := UD_PKEY\<rparr>"
  let ?m1 = "if ?ud then {IBV_QP_STATE, IBV_QP_PKEY_INDEX, IBV_QP_PORT, IBV_QP_QKEY}
             else {IBV_QP_STATE, IBV_QP_PORT}"
  let ?a2 = "zero_qp_attr\<lparr>qp_state := IBV_QPS_RTR\<rparr>"
  let ?a3 = "zero_qp_attr\<lparr>qp_state := IBV_QPS_RTS, sq_psn := PSN\<rparr>"
  let ?m3 = "if ?ud then {IBV_QP_STATE, IBV_QP_SQ_PSN} else {IBV_QP_STATE}"
  obtain s1 where s1: "modify_ok modify qp ?a1 ?m1 s = (True, s1)"
    "st s1 = (st s)(qp_num qp := IBV_QPS_INIT)" "dest s1 = dest s"
    using modify_ok_succeeds [OF v, of qp s ?a1 ?m1] reset True
    by (auto simp: required_mask_def split: if_splits)
  obtain s2 where s2: "modify_ok modify qp ?a2 {IBV_QP_STATE} s1 = (True, s2)"
    "st s2 = (st s)(qp_num qp := IBV_QPS_RTR)" "dest s2 = dest s"
    using modify_ok_succeeds [OF v, of qp s1 ?a2 "{IBV_QP_STATE}"] s1 True
    by (auto simp: required_mask_def)
  obtain s3 where "modify_ok modify qp ?a3 ?m3 s2 = (True, s3)"
    "st s3 = (st s)(qp_num qp := IBV_QPS_RTS)" "dest s3 = dest s"
    using modify_ok_succeeds [OF v, of qp s2 ?a3 ?m3] s2 True
    by (auto simp: required_mask_def split: if_splits)
  with s1(1) s2(1) True show ?thesis by (simp add: modifyUDtoRTS_def Let_def)
next
  case False
  then have "modify_ok modify qp (zero_qp_attr\<lparr>qp_state := IBV_QPS_INIT, pkey_index := 0,
      port_num := port c, qkey := UD_PKEY\<rparr>) {IBV_QP_STATE, IBV_QP_PORT} s = (False, s)"
    using modify_ok_fails [OF v, of qp s "zero_qp_attr\<lparr>qp_state := IBV_QPS_INIT, pkey_index := 0,
      port_num := port c, qkey := UD_PKEY\<rparr>"] reset
    by (cases "qp_type qp") (auto simp: required_mask_def)
  with False show ?thesis by (auto simp: modifyUDtoRTS_def)
qed

definition demo_ctx :: RdmaContext where
  "demo_ctx = \<lparr>devIndex = 0, port = 1, gidIndex = 3, ctx_handle = 1, pd_handle = 2, lid = 7,
               gid = replicate 16 0\<rparr>"

theorem modifyUDtoRTS_by_type_witness:
  "(\<exists>s'. modifyUDtoRTS demo_modify \<lparr>qp_num = 5, qp_type = IBV_QPT_UD\<rparr> demo_ctx
       (\<lambda>_. (IBV_QPS_RESET, 0)) = (True, s') \<and> fst (s' 5) = IBV_QPS_RTS)
   \<and> fst (modifyUDtoRTS demo_modify \<lparr>qp_num = 5, qp_type = IBV_QPT_RC\<rparr> demo_ctx
       (\<lambda>_. (IBV_QPS_RESET, 0))) = False"
proof -
  let ?s = "\<lambda>_ :: u32. (IBV_QPS_RESET, 0 :: u32)"
  note run = modifyUDtoRTS_by_type [OF demo_modify_verbs, of ?s _ demo_ctx]
  obtain s' where s': "modifyUDtoRTS demo_modify \<lparr>qp_num = 5, qp_type = IBV_QPT_UD\<rparr> demo_ctx ?s = (True, s')"
    and st: "(\<lambda>n. fst (s' n)) = (\<lambda>n. fst (?s n))(5 := IBV_QPS_RTS)"
    using run [of "\<lparr>qp_num = 5, qp_type = IBV_QPT_UD\<rparr>"] by auto
  show ?thesis
    using s' fun_cong [OF st, of 5] run [of "\<lparr>qp_num = 5, qp_type = IBV_QPT_RC\<rparr>"] by auto
qed

text \<open>
  Connection of a queue pair. For an RC or UC queue pair in reset, \<open>modifyQPtoInit\<close>,
  \<open>modifyQPtoRTR\<close> and \<open>modifyQPtoRTS\<close> in this order all return true; the state grows with
  each of them up to ready to send, the peer is the one given to \<open>modifyQPtoRTR\<close>, and no
  other queue pair changes. On a UD queue pair \<open>modifyQPtoInit\<close> returns false and changes
  nothing (its attributes lack the queue key).
\<close>

theorem connection_chain_by_type:
  assumes v: "verbs_modify modify st dest" and reset: "st s (qp_num qp) = IBV_QPS_RESET"
  shows "(qp_type qp \<in> {IBV_QPT_RC, IBV_QPT_UC} \<longrightarrow>
      (\<exists>s1 s2 s3. modifyQPtoInit modify qp c s = (True, s1)
         \<and> modifyQPtoRTR modify qp n l g c s1 = (True, s2) \<and> modifyQPtoRTS modify qp s2 = (True, s3)
         \<and> st s (qp_num qp) < st s1 (qp_num qp) \<and> st s1 (qp_num qp) < st s2 (qp_num qp)
         \<and> st s2 (qp_num qp) < st s3 (qp_num qp) \<and> st s3 = (st s)(qp_num qp := IBV_QPS_RTS)
         \<and> dest s3 = (dest s)(qp_num qp := n)))
    \<and> (qp_type qp = IBV_QPT_UD \<longrightarrow> modifyQPtoInit modify qp c s = (False, s))"
proof (intro conjI impI)
  assume t: "qp_type qp \<in> {IBV_QPT_RC, IBV_QPT_UC}"
  obtain s1 where s1: "modifyQPtoInit modify qp c s = (True, s1)"
    "st s1 = (st s)(qp_num qp := IBV_QPS_INIT)" "dest s1 = dest s"
    using modifyQPtoInit_ok [OF v t reset] by blast
  then obtain s2 where s2: "modifyQPtoRTR modify qp n l g c s1 = (True, s2)"
    "st s2 = (st s)(qp_num qp := IBV_QPS_RTR)" "dest s2 = (dest s)(qp_num qp := n)"
    using modifyQPtoRTR_ok [OF v t, of s1 n l g c] by auto
  then obtain s3 where "modifyQPtoRTS modify qp s2 = (True, s3)"
    "st s3 = (st s)(qp_num qp := IBV_QPS_RTS)" "dest s3 = (dest s)(qp_num qp := n)"
    using modifyQPtoRTS_ok [OF v t, of s2] by auto
  with s1 s2 reset show "\<exists>s1 s2 s3. modifyQPtoInit modify qp c s = (True, s1)
         \<and> modifyQPtoRTR modify qp n l g c s1 = (True, s2) \<and> modifyQPtoRTS modify qp s2 = (True, s3)
         \<and> st s (qp_num qp) < st s1 (qp_num qp) \<and> st s1 (qp_num qp) < st s2 (qp_num qp)
         \<and> st s2 (qp_num qp) < st s3 (qp_num qp) \<and> st s3 = (st s)(qp_num qp := IBV_QPS_RTS)
         \<and> dest s3 = (dest s)(qp_num qp := n)"
    by (auto simp: less_ibv_qp_state_def)
next
  assume "qp_type qp = IBV_QPT_UD"
  then show "modifyQPtoInit modify qp c s = (False, s)"
    using modify_ok_fails [OF v, of qp s "init_attr qp c"] reset
    by (simp add: modifyQPtoInit_def required_mask_def)
qed

theorem connection_chain_by_type_witness:
  "\<exists>s1 s2 s3. modifyQPtoInit demo_modify \<lparr>qp_num = 5, qp_type = IBV_QPT_RC\<rparr> demo_ctx
        (\<lambda>_. (IBV_QPS_RESET, 0)) = (True, s1)
     \<and> modifyQPtoRTR demo_modify \<lparr>qp_num = 5, qp_type = IBV_QPT_RC\<rparr> 77 1 [] demo_ctx s1 = (True, s2)
     \<and> modifyQPtoRTS demo_modify \<lparr>qp_num = 5, qp_type = IBV_QPT_RC\<rparr> s2 = (True, s3)
     \<and> s3 5 = (IBV_QPS_RTS, 77)"
proof -
  let ?qp = "\<lparr>qp_num = 5, qp_type = IBV_QPT_RC\<rparr>" and ?s = "\<lambda>_ :: u32. (IBV_QPS_RESET, 0 :: u32)"
  obtain s1 s2 s3 where run: "modifyQPtoInit demo_modify ?qp demo_ctx ?s = (True, s1)"
      "modifyQPtoRTR demo_modify ?qp 77 1 [] demo_ctx s1 = (True, s2)"
      "modifyQPtoRTS demo_modify ?qp s2 = (True, s3)"
    and st: "(\<lambda>n. fst (s3 n)) = (\<lambda>n. fst (?s n))(5 := IBV_QPS_RTS)"
    and dest: "(\<lambda>n. snd (s3 n)) = (\<lambda>n. snd (?s n))(5 := 77)"
    using connection_chain_by_type [OF demo_modify_verbs, of ?s ?qp demo_ctx 77 1 "[]"] by auto
  have "s3 5 = (IBV_QPS_RTS, 77)"
    using fun_cong [OF st, of 5] fun_cong [OF dest, of 5] by (simp add: prod_eq_iff)
  with run show ?thesis by blast
qed

section \<open>Querying the state\<close>

text \<open>
  \<open>src/rdma/Utility.cpp\<close>. \<open>query\<close> is \<open>ibv_query_qp\<close>: the state that it leaves in the attributes.
\<close>

fun qp_state_name :: "ibv_qp_state \<Rightarrow> string" where
  "qp_state_name IBV_QPS_RESET = ''IBV_QPS_RESET''"
| "qp_state_name IBV_QPS_INIT = ''IBV_QPS_INIT''"
| "qp_state_name IBV_QPS_RTR = ''IBV_QPS_RTR''"
| "qp_state_name IBV_QPS_RTS = ''IBV_QPS_RTS''"
| "qp_state_name IBV_QPS_SQD = ''IBV_QPS_SQD''"
| "qp_state_name IBV_QPS_SQE = ''IBV_QPS_SQE''"
| "qp_state_name IBV_QPS_ERR = ''IBV_QPS_ERR''"
| "qp_state_name IBV_QPS_UNKNOWN = ''IBV_QPS_UNKNOWN''"

definition rdmaQueryQueuePair ::
  "('qp \<Rightarrow> attr_mask set \<Rightarrow> 's \<Rightarrow> ibv_qp_state \<times> 's) \<Rightarrow> (string \<Rightarrow> 's \<Rightarrow> 's) \<Rightarrow> 'qp \<Rightarrow> 's \<Rightarrow> 's" where
  "rdmaQueryQueuePair query print qp s =
     (case query qp {IBV_QP_STATE} s of (st, s) \<Rightarrow> print (''QP state: '' @ qp_state_name st @ [CHR 0x0A]) s)"

text \<open>The printed line tells the state: two different states print different lines.\<close>

lemma qp_state_name_inj: "qp_state_name a = qp_state_name b \<longleftrightarrow> a = b"
  by (cases a; cases b) simp_all

lemma query_tells_state:
  "rdmaQueryQueuePair query (\<lambda>l s. l) qp s = rdmaQueryQueuePair query (\<lambda>l s. l) qp s'
     \<longleftrightarrow> fst (query qp {IBV_QP_STATE} s) = fst (query qp {IBV_QP_STATE} s')"
  by (simp add: rdmaQueryQueuePair_def case_prod_unfold qp_state_name_inj)

end
