(* ===== verification/Mlx5_Driver.thy ===== *)
theory Mlx5_Driver
  imports Config
begin

text \<open>
  \<open>src/rdma/Driver.cpp\<close>: the two functions that Rowan takes over from the mlx5 user-space
  driver. The work queue of a shared receive queue is an array of entries of \<open>2 ^ wqe_shift\<close>
  bytes; the free entries form a singly linked list through the big-endian field
  \<open>next_wqe_index\<close> (bytes 2 and 3 of an entry), and \<open>mlx5_free_srq_wqe\<close> appends to it.
\<close>

section \<open>Network byte order\<close>

definition htons :: "u16 \<Rightarrow> u16" where
  "htons x = push_bit 8 x OR drop_bit 8 x"

lemma htons_htons [simp]: "htons (htons x) = x"
  by (rule bit_word_eqI) (auto simp: htons_def bit_simps dest: bit_imp_le_length)

lemma htons_inj [simp]: "htons x = htons y \<longleftrightarrow> x = y"
  by (metis htons_htons)

lemma le_bytes_htons: "le_bytes 2 (htons x) = [ucast (drop_bit 8 x), ucast x]"
  by (rule nth_equalityI)
    (auto simp: le_bytes_def htons_def nth_Cons' upt_rec less_Suc_eq
      intro!: bit_word_eqI simp: bit_simps dest: bit_imp_le_length)

section \<open>The shared receive queue of the driver\<close>

text \<open>The fields of \<open>struct mlx5_srq\<close> that the two functions use.\<close>

record mlx5_srq =
  srq_buf :: "u8 list"
  wqe_shift :: nat
  srq_tail :: nat

definition LEGACY_XRC_SRQ_HANDLE :: u32 where "LEGACY_XRC_SRQ_HANDLE = 0xffffffff"

text \<open>
  \<open>get_mlx5_srq\<close> on pointers: \<open>handle_of\<close> and \<open>legacy_srq\<close> read the fields of the verbs
  object, \<open>vsrq_offset\<close> is the place of \<open>vsrq\<close> in \<open>struct mlx5_srq\<close>.
\<close>

definition to_msrq :: "u64 \<Rightarrow> u64 \<Rightarrow> u64" where
  "to_msrq vsrq_offset ibsrq = ibsrq - vsrq_offset"

definition get_mlx5_srq :: "(u64 \<Rightarrow> u32) \<Rightarrow> (u64 \<Rightarrow> u64) \<Rightarrow> u64 \<Rightarrow> u64 \<Rightarrow> u64" where
  "get_mlx5_srq handle_of legacy_srq vsrq_offset ibsrq =
     (let ibsrq = (if handle_of ibsrq = LEGACY_XRC_SRQ_HANDLE then legacy_srq ibsrq else ibsrq)
      in to_msrq vsrq_offset ibsrq)"

text \<open>The offset of entry \<open>n\<close> in the buffer.\<close>

definition get_wqe :: "mlx5_srq \<Rightarrow> nat \<Rightarrow> nat" where
  "get_wqe srq n = push_bit (wqe_shift srq) n"

text \<open>The write of the link is a memory access, so it is \<open>None\<close> outside the buffer.\<close>

definition mlx5_free_srq_wqe :: "mlx5_srq \<Rightarrow> u16 \<Rightarrow> mlx5_srq option" where
  "mlx5_free_srq_wqe srq ind =
     map_option (\<lambda>b. srq\<lparr>srq_buf := b, srq_tail := unat ind\<rparr>)
       (write_at (srq_buf srq) (get_wqe srq (srq_tail srq) + 2) (le_bytes 2 (htons ind)))"

text \<open>The link of an entry, as the device reads it.\<close>

definition next_wqe :: "mlx5_srq \<Rightarrow> nat \<Rightarrow> u16 option" where
  "next_wqe srq n = map_option (\<lambda>bs. htons (le_word bs)) (read_at (srq_buf srq) (get_wqe srq n + 2) 2)"

text \<open>A queue of \<open>n\<close> entries, each large enough for its header.\<close>

definition srq_shape :: "mlx5_srq \<Rightarrow> nat \<Rightarrow> bool" where
  "srq_shape srq n \<longleftrightarrow> 2 \<le> wqe_shift srq \<and> length (srq_buf srq) = n * 2 ^ wqe_shift srq \<and> srq_tail srq < n"

lemma get_wqe_room:
  assumes "srq_shape srq n" "i < n"
  shows "get_wqe srq i + 4 \<le> length (srq_buf srq)"
proof -
  have "(4 :: nat) = 2 ^ 2" by simp
  also have "(2 :: nat) ^ 2 \<le> 2 ^ wqe_shift srq"
    using assms(1) unfolding srq_shape_def by (intro power_increasing) simp_all
  finally have "get_wqe srq i + 4 \<le> Suc i * 2 ^ wqe_shift srq"
    by (simp add: get_wqe_def push_bit_eq_mult)
  also have "\<dots> \<le> n * 2 ^ wqe_shift srq"
    using assms(2) by (intro mult_le_mono1) simp
  finally show ?thesis using assms(1) by (simp add: srq_shape_def)
qed

lemma get_wqe_apart:
  assumes "srq_shape srq n" "i < j"
  shows "get_wqe srq i + 4 \<le> get_wqe srq j"
proof -
  have "(4 :: nat) = 2 ^ 2" by simp
  also have "(2 :: nat) ^ 2 \<le> 2 ^ wqe_shift srq"
    using assms(1) unfolding srq_shape_def by (intro power_increasing) simp_all
  finally have "get_wqe srq i + 4 \<le> Suc i * 2 ^ wqe_shift srq"
    by (simp add: get_wqe_def push_bit_eq_mult)
  also have "\<dots> \<le> j * 2 ^ wqe_shift srq"
    using assms(2) by (intro mult_le_mono1) simp
  finally show ?thesis by (simp add: get_wqe_def push_bit_eq_mult)
qed

text \<open>One append: it is in bounds, sets the link of the old tail and changes no other link.\<close>

lemma free_srq_wqe:
  assumes shape: "srq_shape srq n" and ind: "unat ind < n"
  shows "\<exists>srq'. mlx5_free_srq_wqe srq ind = Some srq' \<and> srq_shape srq' n \<and> srq_tail srq' = unat ind
     \<and> wqe_shift srq' = wqe_shift srq
     \<and> next_wqe srq' (srq_tail srq) = Some ind
     \<and> (\<forall>i < n. i \<noteq> srq_tail srq \<longrightarrow> next_wqe srq' i = next_wqe srq i)"
proof -
  let ?t = "srq_tail srq" and ?bs = "le_bytes 2 (htons ind)"
  have t: "?t < n" using shape by (simp add: srq_shape_def)
  have "get_wqe srq ?t + 2 + length ?bs \<le> length (srq_buf srq)"
    using get_wqe_room [OF shape t] by simp
  then obtain b where b: "write_at (srq_buf srq) (get_wqe srq ?t + 2) ?bs = Some b"
    by (auto simp: write_at_def)
  let ?srq = "srq\<lparr>srq_buf := b, srq_tail := unat ind\<rparr>"
  have w: "get_wqe ?srq = get_wqe srq" by (simp add: get_wqe_def fun_eq_iff)
  have "next_wqe ?srq ?t = Some ind"
    using read_write_same [OF b] le_word_le_bytes [of 2 "htons ind"] by (simp add: next_wqe_def w)
  moreover have "next_wqe ?srq i = next_wqe srq i" if "i < n" "i \<noteq> ?t" for i
  proof (cases "i < ?t")
    case True
    then show ?thesis
      using read_write_before [OF b, of "get_wqe srq i + 2" 2] get_wqe_apart [OF shape True]
      by (simp add: next_wqe_def w)
  next
    case False
    with that have "?t < i" by simp
    from get_wqe_apart [OF shape this] show ?thesis
      using read_write_after [OF b, of "get_wqe srq i + 2" 2] by (simp add: next_wqe_def w)
  qed
  moreover have "srq_shape ?srq n"
    using shape ind write_at_length [OF b] by (simp add: srq_shape_def)
  ultimately show ?thesis using b by (simp add: mlx5_free_srq_wqe_def)
qed

section \<open>The free list\<close>

text \<open>A run of appends, and the first \<open>k\<close> entries of the list behind entry \<open>i\<close>.\<close>

fun free_all :: "mlx5_srq \<Rightarrow> u16 list \<Rightarrow> mlx5_srq option" where
  "free_all srq [] = Some srq"
| "free_all srq (i # is) = Option.bind (mlx5_free_srq_wqe srq i) (\<lambda>srq'. free_all srq' is)"

fun follow :: "mlx5_srq \<Rightarrow> nat \<Rightarrow> nat \<Rightarrow> u16 list option" where
  "follow srq 0 i = Some []"
| "follow srq (Suc k) i =
     Option.bind (next_wqe srq i) (\<lambda>j. map_option (\<lambda>js. j # js) (follow srq k (unat j)))"

lemma free_all_frame:
  assumes "srq_shape srq n" "\<forall>i \<in> set is. unat i < n" "distinct (srq_tail srq # map unat is)"
  shows "\<exists>srq'. free_all srq is = Some srq' \<and> srq_shape srq' n
     \<and> srq_tail srq' = last (srq_tail srq # map unat is)
     \<and> (\<forall>i < n. i \<notin> set (butlast (srq_tail srq # map unat is)) \<longrightarrow> next_wqe srq' i = next_wqe srq i)
     \<and> follow srq' (length is) (srq_tail srq) = Some is"
  using assms
proof (induction "is" arbitrary: srq)
  case Nil
  then show ?case by simp
next
  case (Cons i "is")
  let ?t = "srq_tail srq"
  obtain s1 where s1: "mlx5_free_srq_wqe srq i = Some s1" "srq_shape s1 n" "srq_tail s1 = unat i"
    "next_wqe s1 ?t = Some i" "\<forall>j < n. j \<noteq> ?t \<longrightarrow> next_wqe s1 j = next_wqe srq j"
    using free_srq_wqe [OF Cons.prems(1), of i] Cons.prems(2) by auto
  obtain s2 where s2: "free_all s1 is = Some s2" "srq_shape s2 n" "srq_tail s2 = last (unat i # map unat is)"
    "\<forall>j < n. j \<notin> set (butlast (unat i # map unat is)) \<longrightarrow> next_wqe s2 j = next_wqe s1 j"
    "follow s2 (length is) (unat i) = Some is"
    using Cons.IH [of s1] Cons.prems s1(2,3) by auto
  have t: "?t < n" using Cons.prems(1) by (simp add: srq_shape_def)
  have "?t \<notin> set (butlast (unat i # map unat is))"
    using Cons.prems(3) by (auto dest: in_set_butlastD split: if_splits)
  then have "next_wqe s2 ?t = Some i" using s2(4) s1(4) t by simp
  then show ?case using s1 s2 by auto
qed

text \<open>
  C32. Freed entries form the free list in the order in which they were freed. On a queue of
  \<open>n\<close> entries, freeing distinct entries (none of them the tail) stays inside the buffer,
  makes the last one the tail, and following the links from the old tail visits exactly the
  freed entries in order; the link of every entry that is not the old tail or an inner
  freed entry is unchanged.
\<close>

theorem freed_entries_form_the_list:
  assumes "srq_shape srq n" and "\<forall>i \<in> set is. unat i < n"
    and "distinct (srq_tail srq # map unat is)"
  shows "\<exists>srq'. free_all srq is = Some srq' \<and> srq_shape srq' n
     \<and> follow srq' (length is) (srq_tail srq) = Some is
     \<and> srq_tail srq' = last (srq_tail srq # map unat is)
     \<and> (\<forall>i < n. i \<notin> set (butlast (srq_tail srq # map unat is)) \<longrightarrow> next_wqe srq' i = next_wqe srq i)"
  using free_all_frame [OF assms] by blast

theorem freed_entries_witness:
  "\<exists>srq'. free_all \<lparr>srq_buf = replicate 128 0, wqe_shift = 4, srq_tail = 7\<rparr> [0, 1, 5] = Some srq'
     \<and> follow srq' 3 7 = Some [0, 1, 5]"
  using freed_entries_form_the_list [of "\<lparr>srq_buf = replicate 128 0, wqe_shift = 4, srq_tail = 7\<rparr>" 8 "[0, 1, 5]"]
  by (auto simp: srq_shape_def numeral_3_eq_3)

end
