(* ===== verification/Rdma_Resource.thy ===== *)
theory Rdma_Resource
  imports Rdma_QP Mlx5_Driver
begin

text \<open>
  \<open>src/rdma/Resource.cpp\<close>: opening a device (\<open>createContext\<close>) with its clean-up on every
  error exit, closing it, and the creation of memory regions, queue pairs and shared receive
  queues. The verbs calls are parameters, collected in the record \<open>verbs\<close>; a call that can
  return a null pointer gives an option.
\<close>

record 's verbs =
  get_device_list :: "'s \<Rightarrow> (u64 \<times> string list) option \<times> 's"
  free_device_list :: "u64 \<Rightarrow> 's \<Rightarrow> 's"
  open_device :: "string \<Rightarrow> 's \<Rightarrow> u64 option \<times> 's"
  close_device :: "u64 \<Rightarrow> 's \<Rightarrow> int \<times> 's"
  query_port :: "u64 \<Rightarrow> u8 \<Rightarrow> 's \<Rightarrow> int \<times> u16"
  query_gid :: "u64 \<Rightarrow> u8 \<Rightarrow> int \<Rightarrow> 's \<Rightarrow> int \<times> u8 list"
  alloc_pd :: "u64 \<Rightarrow> 's \<Rightarrow> u64 option \<times> 's"
  dealloc_pd :: "u64 \<Rightarrow> 's \<Rightarrow> int \<times> 's"

section \<open>Opening and closing a device\<close>

definition RdmaContext_mk :: RdmaContext where
  "RdmaContext_mk = \<lparr>devIndex = 0, port = 0, gidIndex = 0, ctx_handle = 0, pd_handle = 0, lid = 0, gid = replicate 16 0\<rparr>"

text \<open>\<open>CreateResourcesExit\<close>: release what has been acquired, the last first.\<close>

definition cleanup :: "'s verbs \<Rightarrow> u64 option \<Rightarrow> u64 option \<Rightarrow> u64 option \<Rightarrow> 's \<Rightarrow> 's" where
  "cleanup v pd ctx deviceList s =
     (let s = (case pd of Some p \<Rightarrow> snd (dealloc_pd v p s) | None \<Rightarrow> s);
          s = (case ctx of Some c \<Rightarrow> snd (close_device v c s) | None \<Rightarrow> s)
      in case deviceList of Some d \<Rightarrow> free_device_list v d s | None \<Rightarrow> s)"

text \<open>The scan of the device names: the first match, or the number of devices.\<close>

definition find_device :: "string \<Rightarrow> string list \<Rightarrow> nat" where
  "find_device rnic names = length (takeWhile (\<lambda>n. n \<noteq> rnic) names)"

text \<open>
  \<open>createContext\<close> after the device was opened and the list freed; \<open>ibv_query_gid\<close> writes to
  the context also when it fails.
\<close>

definition createContext_opened ::
  "'s verbs \<Rightarrow> RdmaContext \<Rightarrow> u8 \<Rightarrow> int \<Rightarrow> nat \<Rightarrow> u64 \<Rightarrow> 's \<Rightarrow> bool \<times> RdmaContext \<times> 's" where
  "createContext_opened v context prt gidIdx dev_idx ctx s =
     (case query_port v ctx prt s of (rc, port_lid) \<Rightarrow>
        if rc \<noteq> 0 then (False, context, cleanup v None (Some ctx) None s)
        else case alloc_pd v ctx s of
          (None, s) \<Rightarrow> (False, context, cleanup v None (Some ctx) None s)
        | (Some pd, s) \<Rightarrow>
          (case query_gid v ctx prt gidIdx s of (rc, g) \<Rightarrow>
             let context = context\<lparr>gid := g\<rparr>
             in if rc \<noteq> 0 then (False, context, cleanup v (Some pd) (Some ctx) None s)
                else (True, context\<lparr>devIndex := word_of_nat dev_idx, gidIndex := gidIdx, port := prt,
                        ctx_handle := ctx, pd_handle := pd, lid := port_lid\<rparr>, s)))"

definition createContext ::
  "'s verbs \<Rightarrow> RdmaContext \<Rightarrow> string \<Rightarrow> u8 \<Rightarrow> int \<Rightarrow> 's \<Rightarrow> bool \<times> RdmaContext \<times> 's" where
  "createContext v context rnic prt gidIdx s =
     (case get_device_list v s of
        (None, s) \<Rightarrow> (False, context, cleanup v None None None s)
      | (Some (dl, names), s) \<Rightarrow>
          if length names = 0 then (False, context, cleanup v None None (Some dl) s)
          else
            let dev_idx = find_device rnic names
            in if length names \<le> dev_idx then (False, context, cleanup v None None (Some dl) s)
               else case open_device v (names ! dev_idx) s of
                 (None, s) \<Rightarrow> (False, context, cleanup v None None (Some dl) s)
               | (Some ctx, s) \<Rightarrow>
                   createContext_opened v context prt gidIdx dev_idx ctx (free_device_list v dl s))"

text \<open>\<open>destoryContext\<close>; a null handle is 0.\<close>

definition destoryContext :: "'s verbs \<Rightarrow> RdmaContext \<Rightarrow> 's \<Rightarrow> bool \<times> 's" where
  "destoryContext v context s =
     (let (ok1, s) = (if pd_handle context \<noteq> 0
                      then (case dealloc_pd v (pd_handle context) s of (rc, s) \<Rightarrow> (rc = 0, s))
                      else (True, s));
          (ok2, s) = (if ctx_handle context \<noteq> 0
                      then (case close_device v (ctx_handle context) s of (rc, s) \<Rightarrow> (rc = 0, s))
                      else (True, s))
      in (ok1 \<and> ok2, s))"

section \<open>What the code relies on\<close>

text \<open>
  The device state shows what is held. An acquisition yields a new resource with a nonnull
  handle, a release returns one.
\<close>

datatype resource = DeviceList u64 | Device u64 | ProtectionDomain u64

definition acquires :: "('s \<Rightarrow> resource set) \<Rightarrow> (u64 \<Rightarrow> resource) \<Rightarrow> u64 option \<times> 's \<Rightarrow> 's \<Rightarrow> bool" where
  "acquires held kind r s \<longleftrightarrow> (case r of
      (None, s') \<Rightarrow> held s' = held s
    | (Some h, s') \<Rightarrow> h \<noteq> 0 \<and> kind h \<notin> held s \<and> held s' = insert (kind h) (held s))"

definition verbs_laws :: "'s verbs \<Rightarrow> ('s \<Rightarrow> resource set) \<Rightarrow> bool" where
  "verbs_laws v held \<longleftrightarrow>
     (\<forall>s. acquires held DeviceList (map_option fst (fst (get_device_list v s)), snd (get_device_list v s)) s)
   \<and> (\<forall>n s. acquires held Device (open_device v n s) s)
   \<and> (\<forall>c s. acquires held ProtectionDomain (alloc_pd v c s) s)
   \<and> (\<forall>d s. held (free_device_list v d s) = held s - {DeviceList d})
   \<and> (\<forall>c s. held (snd (close_device v c s)) = held s - {Device c})
   \<and> (\<forall>p s. held (snd (dealloc_pd v p s)) = held s - {ProtectionDomain p})"

lemma verbs_lawsD:
  assumes "verbs_laws v held"
  shows "get_device_list v s = (None, s') \<Longrightarrow> held s' = held s"
    and "get_device_list v s = (Some (d, ns), s') \<Longrightarrow> DeviceList d \<notin> held s \<and> held s' = insert (DeviceList d) (held s)"
    and "open_device v n s = (None, s') \<Longrightarrow> held s' = held s"
    and "open_device v n s = (Some c, s') \<Longrightarrow> c \<noteq> 0 \<and> Device c \<notin> held s \<and> held s' = insert (Device c) (held s)"
    and "alloc_pd v c s = (None, s') \<Longrightarrow> held s' = held s"
    and "alloc_pd v c s = (Some p, s') \<Longrightarrow> p \<noteq> 0 \<and> ProtectionDomain p \<notin> held s \<and> held s' = insert (ProtectionDomain p) (held s)"
proof -
  note laws = assms [unfolded verbs_laws_def]
  have dl: "acquires held DeviceList (map_option fst (fst (get_device_list v s)), snd (get_device_list v s)) s"
    by (rule laws [THEN conjunct1, THEN spec])
  have od: "acquires held Device (open_device v n s) s"
    by (rule laws [THEN conjunct2, THEN conjunct1, THEN spec, THEN spec])
  have pd: "acquires held ProtectionDomain (alloc_pd v c s) s"
    by (rule laws [THEN conjunct2, THEN conjunct2, THEN conjunct1, THEN spec, THEN spec])
  show "get_device_list v s = (None, s') \<Longrightarrow> held s' = held s"
    "get_device_list v s = (Some (d, ns), s') \<Longrightarrow> DeviceList d \<notin> held s \<and> held s' = insert (DeviceList d) (held s)"
    using dl by (auto simp: acquires_def)
  show "open_device v n s = (None, s') \<Longrightarrow> held s' = held s"
    "open_device v n s = (Some c, s') \<Longrightarrow> c \<noteq> 0 \<and> Device c \<notin> held s \<and> held s' = insert (Device c) (held s)" for c
    using od by (auto simp: acquires_def)
  show "alloc_pd v c s = (None, s') \<Longrightarrow> held s' = held s"
    "alloc_pd v c s = (Some p, s') \<Longrightarrow> p \<noteq> 0 \<and> ProtectionDomain p \<notin> held s \<and> held s' = insert (ProtectionDomain p) (held s)"
    using pd by (auto simp: acquires_def)
qed

lemma verbs_releases:
  assumes "verbs_laws v held"
  shows "held (free_device_list v d s) = held s - {DeviceList d}"
    and "held (snd (close_device v c s)) = held s - {Device c}"
    and "held (snd (dealloc_pd v p s)) = held s - {ProtectionDomain p}"
  using assms unfolding verbs_laws_def by (elim conjE allE, simp)+

lemma cleanup_held:
  assumes "verbs_laws v held"
  shows "held (cleanup v pd ctx dl s)
    = held s - (ProtectionDomain ` set_option pd \<union> Device ` set_option ctx \<union> DeviceList ` set_option dl)"
  by (cases pd; cases ctx; cases dl) (auto simp: cleanup_def Let_def verbs_releases [OF assms])

section \<open>Properties of the device life cycle\<close>

lemma createContext_opened_held:
  assumes laws: "verbs_laws v held" and c: "ctx \<noteq> 0" "Device ctx \<notin> H" "held s = insert (Device ctx) H"
    and run: "createContext_opened v context prt gidIdx i ctx s = (ok, context', s')"
  shows "if ok then held s' = H \<union> {Device (ctx_handle context'), ProtectionDomain (pd_handle context')}
           \<and> ctx_handle context' \<noteq> 0 \<and> pd_handle context' \<noteq> 0
           \<and> Device (ctx_handle context') \<notin> H \<and> ProtectionDomain (pd_handle context') \<notin> H
           \<and> port context' = prt \<and> gidIndex context' = gidIdx \<and> devIndex context' = word_of_nat i
         else held s' = H \<and> ctx_handle context' = ctx_handle context \<and> pd_handle context' = pd_handle context"
proof -
  obtain rc l where q: "query_port v ctx prt s = (rc, l)" by fastforce
  obtain pd s1 where p: "alloc_pd v ctx s = (pd, s1)" by fastforce
  note un = createContext_opened_def q prod.case p Let_def
  show ?thesis
  proof (cases "rc = 0")
    case False
    then have "(ok, context', s') = (False, context, cleanup v None (Some ctx) None s)"
      using run unfolding un by simp
    then show ?thesis using c by (auto simp: cleanup_held [OF laws])
  next
    case rc: True
    show ?thesis
    proof (cases pd)
      case None
      then have "(ok, context', s') = (False, context, cleanup v None (Some ctx) None s1)"
        using run rc unfolding un by simp
      then show ?thesis using c verbs_lawsD(5) [OF laws p [unfolded None]] by (auto simp: cleanup_held [OF laws])
    next
      case (Some h)
      note H = verbs_lawsD(6) [OF laws p [unfolded Some]]
      obtain rc2 g where g: "query_gid v ctx prt gidIdx s1 = (rc2, g)" by fastforce
      have r: "(ok, context', s') = (if rc2 \<noteq> 0 then (False, context\<lparr>gid := g\<rparr>, cleanup v (Some h) (Some ctx) None s1)
          else (True, context\<lparr>gid := g, devIndex := word_of_nat i, gidIndex := gidIdx, port := prt,
                        ctx_handle := ctx, pd_handle := h, lid := l\<rparr>, s1))"
        using run rc Some g unfolding un by simp
      show ?thesis
        using r H c by (cases "rc2 = 0") (auto simp: cleanup_held [OF laws])
    qed
  qed
qed

lemma destoryContext_held:
  assumes "verbs_laws v held" "pd_handle context \<noteq> 0" "ctx_handle context \<noteq> 0"
  shows "held (snd (destoryContext v context s))
    = held s - {ProtectionDomain (pd_handle context)} - {Device (ctx_handle context)}"
  using verbs_releases(2,3) [OF assms(1)] assms(2,3)
  by (simp add: destoryContext_def Let_def case_prod_unfold)

text \<open>
  C27. \<open>createContext\<close> leaks nothing. When it returns true, exactly a device and a protection
  domain are newly held, the context refers to them, the device is the first one with the name
  asked for, and \<open>destoryContext\<close> gives back both; when it returns false, on any of its error
  exits, everything acquired has been released and the handles of the context are unchanged.
\<close>

theorem createContext_no_leak:
  assumes laws: "verbs_laws v held"
    and run: "createContext v context rnic prt gidIdx s = (ok, context', s')"
  shows "if ok then held s' = held s \<union> {Device (ctx_handle context'), ProtectionDomain (pd_handle context')}
           \<and> Device (ctx_handle context') \<notin> held s \<and> ProtectionDomain (pd_handle context') \<notin> held s
           \<and> ctx_handle context' \<noteq> 0 \<and> pd_handle context' \<noteq> 0 \<and> port context' = prt
           \<and> (\<exists>dl names i. fst (get_device_list v s) = Some (dl, names) \<and> i < length names \<and> names ! i = rnic
                \<and> (\<forall>j < i. names ! j \<noteq> rnic) \<and> devIndex context' = word_of_nat i)
           \<and> held (snd (destoryContext v context' s')) = held s
         else held s' = held s \<and> ctx_handle context' = ctx_handle context \<and> pd_handle context' = pd_handle context"
proof (cases "get_device_list v s")
  case (Pair r s1)
  note D = verbs_lawsD [OF laws]
  show ?thesis
  proof (cases r)
    case None
    then have "(ok, context', s') = (False, context, cleanup v None None None s1)"
      using run Pair by (simp add: createContext_def)
    then show ?thesis using Pair None D(1) [of s s1] by (simp add: cleanup_held [OF laws])
  next
    case (Some q)
    then obtain dl names where q: "r = Some (dl, names)" by (cases q) auto
    let ?i = "find_device rnic names"
    have dl: "DeviceList dl \<notin> held s" "held s1 = insert (DeviceList dl) (held s)"
      using D(2) [of s dl names s1] Pair q by simp_all
    show ?thesis
    proof (cases "length names \<le> ?i")
      case True
      then have "(ok, context', s') = (False, context, cleanup v None None (Some dl) s1)"
        using run Pair q by (simp add: createContext_def Let_def split: if_splits)
      then show ?thesis using dl by (simp add: cleanup_held [OF laws])
    next
      case False
      then have i: "?i < length names" by simp
      have match: "names ! ?i = rnic"
        using nth_length_takeWhile [of "\<lambda>n. n \<noteq> rnic" names] i by (simp add: find_device_def)
      have first: "\<forall>j < ?i. names ! j \<noteq> rnic"
      proof (intro allI impI)
        fix j assume j: "j < ?i"
        then have "takeWhile (\<lambda>n. n \<noteq> rnic) names ! j \<in> set (takeWhile (\<lambda>n. n \<noteq> rnic) names)"
          by (intro nth_mem) (simp add: find_device_def)
        then show "names ! j \<noteq> rnic"
          using j takeWhile_nth [of j "\<lambda>n. n \<noteq> rnic" names] by (auto simp: find_device_def dest: set_takeWhileD)
      qed
      have ne: "length names \<noteq> 0" using i by auto
      obtain c s2 where o: "open_device v (names ! ?i) s1 = (c, s2)" by (cases "open_device v (names ! ?i) s1")
      show ?thesis
      proof (cases c)
        case None
        then have "(ok, context', s') = (False, context, cleanup v None None (Some dl) s2)"
          using run Pair q o ne False by (simp add: createContext_def Let_def)
        then show ?thesis using dl D(3) [of "names ! ?i" s1 s2] o None by (auto simp: cleanup_held [OF laws])
      next
        case (Some h)
        note H = D(4) [OF o [unfolded Some]]
        have run': "createContext_opened v context prt gidIdx ?i h (free_device_list v dl s2) = (ok, context', s')"
          using run Pair q o ne False Some by (simp add: createContext_def Let_def)
        have "held (free_device_list v dl s2) = insert (Device h) (held s)"
          using H dl laws by (auto simp: verbs_laws_def)
        moreover have "Device h \<notin> held s" using H dl by auto
        ultimately have R: "if ok then held s' = held s \<union> {Device (ctx_handle context'), ProtectionDomain (pd_handle context')}
           \<and> ctx_handle context' \<noteq> 0 \<and> pd_handle context' \<noteq> 0
           \<and> Device (ctx_handle context') \<notin> held s \<and> ProtectionDomain (pd_handle context') \<notin> held s
           \<and> port context' = prt \<and> gidIndex context' = gidIdx \<and> devIndex context' = word_of_nat ?i
         else held s' = held s \<and> ctx_handle context' = ctx_handle context \<and> pd_handle context' = pd_handle context"
          using H by (intro createContext_opened_held [OF laws _ _ _ run']) simp_all
        show ?thesis
        proof (cases ok)
          case True
          note R = R [unfolded if_P [OF True]]
          have "held (snd (destoryContext v context' s')) = held s"
            using destoryContext_held [OF laws, of context' s'] R by auto
          moreover have "fst (get_device_list v s) = Some (dl, names)" by (simp add: Pair q)
          ultimately show ?thesis using R i match first unfolding if_P [OF True]
            by (intro conjI exI [of _ dl] exI [of _ names] exI [of _ ?i]) simp_all
        next
          case False
          then show ?thesis using R by simp
        qed
      qed
    qed
  qed
qed

definition demo_verbs :: "resource set verbs" where
  "demo_verbs = \<lparr>get_device_list = (\<lambda>s. if DeviceList 1 \<in> s then (None, s) else (Some (1, [''mlx5_1'', ''mlx5_0'']), insert (DeviceList 1) s)),
     free_device_list = (\<lambda>d s. s - {DeviceList d}),
     open_device = (\<lambda>n s. if Device 2 \<in> s then (None, s) else (Some 2, insert (Device 2) s)),
     close_device = (\<lambda>c s. (0, s - {Device c})),
     query_port = (\<lambda>c p s. (0, 17)), query_gid = (\<lambda>c p i s. (0, replicate 16 1)),
     alloc_pd = (\<lambda>c s. if ProtectionDomain 3 \<in> s then (None, s) else (Some 3, insert (ProtectionDomain 3) s)),
     dealloc_pd = (\<lambda>p s. (0, s - {ProtectionDomain p}))\<rparr>"

lemma demo_verbs_laws: "verbs_laws demo_verbs id"
  by (simp add: verbs_laws_def demo_verbs_def acquires_def)

theorem createContext_no_leak_witness:
  "\<exists>c s'. createContext demo_verbs RdmaContext_mk ''mlx5_0'' 1 3 {} = (True, c, s') \<and> devIndex c = 1
     \<and> s' = {Device 2, ProtectionDomain 3} \<and> snd (destoryContext demo_verbs c s') = {}"
proof -
  have "\<exists>c s'. createContext demo_verbs RdmaContext_mk ''mlx5_0'' 1 3 {} = (True, c, s') \<and> devIndex c = 1
     \<and> s' = {Device 2, ProtectionDomain 3}"
    by (auto simp: createContext_def createContext_opened_def find_device_def demo_verbs_def)
  then obtain c s' where r: "createContext demo_verbs RdmaContext_mk ''mlx5_0'' 1 3 {} = (True, c, s')"
    "devIndex c = 1" "s' = {Device 2, ProtectionDomain 3}" by blast
  with createContext_no_leak [OF demo_verbs_laws r(1)] show ?thesis by auto
qed

section \<open>Memory regions, queue pairs and shared receive queues\<close>

text \<open>\<open>reg pd addr len access\<close> is \<open>ibv_reg_mr\<close>; a failed registration is reported and returned as null.\<close>

definition mr_access :: "access_flag set" where
  "mr_access = {IBV_ACCESS_LOCAL_WRITE, IBV_ACCESS_REMOTE_READ, IBV_ACCESS_REMOTE_WRITE, IBV_ACCESS_REMOTE_ATOMIC}"

definition createMemoryRegion ::
  "(u64 \<Rightarrow> u64 \<Rightarrow> u64 \<Rightarrow> access_flag set \<Rightarrow> 's \<Rightarrow> 'mr option \<times> 's) \<Rightarrow> u64 \<Rightarrow> u64 \<Rightarrow> RdmaContext \<Rightarrow> 's
     \<Rightarrow> 'mr option \<times> 's" where
  "createMemoryRegion reg mm mmSize context s = reg (pd_handle context) mm mmSize mr_access s"

datatype comp_mask_bit =
  IBV_EXP_QP_INIT_ATTR_CREATE_FLAGS | IBV_EXP_QP_INIT_ATTR_PD | IBV_EXP_QP_INIT_ATTR_ATOMICS_ARG

record qp_init_attr =
  init_qp_type :: ibv_qp_type
  sq_sig_all :: bool
  init_send_cq :: u64
  init_recv_cq :: u64
  init_srq :: u64
  init_pd :: u64
  init_comp_mask :: "comp_mask_bit set"
  max_atomic_arg :: u32
  max_send_wr :: u32
  max_recv_wr :: u32
  max_send_sge :: u32
  max_recv_sge :: u32
  max_inline_data :: u32

text \<open>
  The branch of \<open>createQueuePair\<close> that is compiled (\<open>OFED_VERSION_4\<close> is always defined).
  \<open>create_qp\<close> is \<open>ibv_exp_create_qp\<close>; the result holds what \<open>*qp\<close> is set to.
\<close>

definition qp_init_attr_of ::
  "ibv_qp_type \<Rightarrow> u64 \<Rightarrow> u64 \<Rightarrow> RdmaContext \<Rightarrow> u32 \<Rightarrow> u64 \<Rightarrow> u32 \<Rightarrow> qp_init_attr" where
  "qp_init_attr_of mode send_cq recv_cq context qpsMaxDepth srq maxInlineData =
     \<lparr>init_qp_type = mode, sq_sig_all = False, init_send_cq = send_cq, init_recv_cq = recv_cq,
      init_srq = srq, init_pd = pd_handle context,
      init_comp_mask = (if mode = IBV_QPT_RC
        then {IBV_EXP_QP_INIT_ATTR_CREATE_FLAGS, IBV_EXP_QP_INIT_ATTR_PD, IBV_EXP_QP_INIT_ATTR_ATOMICS_ARG}
        else {IBV_EXP_QP_INIT_ATTR_PD}),
      max_atomic_arg = (if mode = IBV_QPT_RC then maxInlineData else 0),
      max_send_wr = qpsMaxDepth, max_recv_wr = qpsMaxDepth, max_send_sge = 2, max_recv_sge = 1,
      max_inline_data = maxInlineData\<rparr>"

type_synonym 's create_qp_fn = "u64 \<Rightarrow> qp_init_attr \<Rightarrow> 's \<Rightarrow> ibv_qp option \<times> 's"

definition createQueuePair ::
  "'s create_qp_fn \<Rightarrow> ibv_qp_type \<Rightarrow> u64 \<Rightarrow> u64 \<Rightarrow> RdmaContext \<Rightarrow> u32 \<Rightarrow> u64 \<Rightarrow> u32 \<Rightarrow> 's
     \<Rightarrow> bool \<times> ibv_qp option \<times> 's" where
  "createQueuePair create_qp mode send_cq recv_cq context qpsMaxDepth srq maxInlineData s =
     (case create_qp (ctx_handle context)
             (qp_init_attr_of mode send_cq recv_cq context qpsMaxDepth srq maxInlineData) s of
        (None, s') \<Rightarrow> (False, None, s')
      | (Some qp, s') \<Rightarrow> (True, Some qp, s'))"

text \<open>The overload with one completion queue for both directions.\<close>

definition createQueuePair1 ::
  "'s create_qp_fn \<Rightarrow> ibv_qp_type \<Rightarrow> u64 \<Rightarrow> RdmaContext \<Rightarrow> u32 \<Rightarrow> u64 \<Rightarrow> u32 \<Rightarrow> 's
     \<Rightarrow> bool \<times> ibv_qp option \<times> 's" where
  "createQueuePair1 create_qp mode cq context qpsMaxDepth srq maxInlineData s =
     createQueuePair create_qp mode cq cq context qpsMaxDepth srq maxInlineData s"

record srq_init_attr =
  srq_max_wr :: u32
  srq_max_sge :: u32

definition createSRQ :: "(u64 \<Rightarrow> srq_init_attr \<Rightarrow> 's \<Rightarrow> u64 option \<times> 's) \<Rightarrow> RdmaContext \<Rightarrow> u64 \<Rightarrow> 's \<Rightarrow> u64 option \<times> 's" where
  "createSRQ create_srq context queue_size s =
     create_srq (pd_handle context) \<lparr>srq_max_wr = ucast queue_size, srq_max_sge = 2\<rparr> s"

section \<open>The multi-packet shared receive queue\<close>

definition kRecvCQDepth :: nat where "kRecvCQDepth = 128"

text \<open>The two fields of a completion entry that the initial loop writes.\<close>

record mlx5_cqe =
  wqe_id :: u16
  wqe_counter :: u16

definition init_cqe :: "u64 \<Rightarrow> nat \<Rightarrow> mlx5_cqe \<Rightarrow> mlx5_cqe" where
  "init_cqe kStridesPerWQE i e =
     e\<lparr>wqe_id := htons (-1), wqe_counter := htons (ucast (kStridesPerWQE - word_of_nat (kRecvCQDepth - i)))\<rparr>"

text \<open>The loop writes entry \<open>i\<close> for every \<open>i\<close> below 128; a shorter array is overrun.\<close>

function init_cqes :: "u64 \<Rightarrow> nat \<Rightarrow> mlx5_cqe list \<Rightarrow> mlx5_cqe list option" where
  "init_cqes strides i arr =
     (if i < kRecvCQDepth
      then if i < length arr then init_cqes strides (i + 1) (arr[i := init_cqe strides i (arr ! i)]) else None
      else Some arr)"
  by pat_completeness auto
termination by (relation "measure (\<lambda>(strides, i, arr). kRecvCQDepth - i)") auto

declare init_cqes.simps [simp del]

record mp_srq_attr =
  mp_max_wr :: u32
  mp_max_sge :: u32
  mp_pd :: u64
  mp_log_num_of_strides :: u32
  mp_log_stride_size :: u32
  mp_max_num_tags :: u32
  mp_max_ops :: u32
  mp_cq :: u64

text \<open>
  \<open>create_cq\<close>, \<open>modify_cq\<close> and \<open>create_srq\<close> are the experimental verbs; \<open>cqes cq s\<close> is the
  entry array of a completion queue (\<open>None\<close> if its buffer is null) and \<open>set_cqes\<close> replaces
  it. The outer \<open>None\<close> is a dereferenced null pointer or an overrun.
\<close>

definition overrun_cq ::
  "(u64 \<Rightarrow> 's \<Rightarrow> int \<times> 's) \<Rightarrow> (u64 \<Rightarrow> 's \<Rightarrow> mlx5_cqe list option) \<Rightarrow> (u64 \<Rightarrow> mlx5_cqe list \<Rightarrow> 's \<Rightarrow> 's)
     \<Rightarrow> u32 \<Rightarrow> u64 option \<Rightarrow> 's \<Rightarrow> 's option" where
  "overrun_cq modify_cq cqes set_cqes log_stride_size cq s =
     Option.bind cq (\<lambda>c.
       let s = snd (modify_cq c s)
       in Option.bind (cqes c s) (\<lambda>arr.
            map_option (\<lambda>arr'. set_cqes c arr' s)
              (init_cqes (push_bit (unat log_stride_size) 1) 0 arr)))"

definition create_mp_srq ::
  "(u64 \<Rightarrow> nat \<Rightarrow> 's \<Rightarrow> u64 option \<times> 's) \<Rightarrow> (u64 \<Rightarrow> 's \<Rightarrow> int \<times> 's) \<Rightarrow> (u64 \<Rightarrow> 's \<Rightarrow> mlx5_cqe list option)
     \<Rightarrow> (u64 \<Rightarrow> mlx5_cqe list \<Rightarrow> 's \<Rightarrow> 's) \<Rightarrow> (u64 \<Rightarrow> mp_srq_attr \<Rightarrow> 's \<Rightarrow> u64 option \<times> 's)
     \<Rightarrow> RdmaContext \<Rightarrow> u32 \<Rightarrow> u32 \<Rightarrow> u32 \<Rightarrow> bool \<Rightarrow> 's \<Rightarrow> (u64 option \<times> u64 option \<times> 's) option" where
  "create_mp_srq create_cq modify_cq cqes set_cqes create_srq context max_wr log_num log_size cq_overrun s =
     (case create_cq (ctx_handle context) (kRecvCQDepth div 2) s of (cq, s) \<Rightarrow>
        Option.bind (if cq_overrun then overrun_cq modify_cq cqes set_cqes log_size cq s else Some s)
          (\<lambda>s. case create_srq (ctx_handle context)
                  \<lparr>mp_max_wr = max_wr, mp_max_sge = 1, mp_pd = pd_handle context,
                   mp_log_num_of_strides = log_num, mp_log_stride_size = log_size,
                   mp_max_num_tags = 1, mp_max_ops = 1,
                   mp_cq = (case cq of None \<Rightarrow> 0 | Some c \<Rightarrow> c)\<rparr> s of
                 (srq, s) \<Rightarrow> Some (srq, cq, s)))"

lemma init_cqes_run:
  assumes "kRecvCQDepth \<le> length arr" "i \<le> kRecvCQDepth"
  shows "\<exists>arr'. init_cqes strides i arr = Some arr' \<and> length arr' = length arr
     \<and> (\<forall>j < length arr. arr' ! j = (if i \<le> j \<and> j < kRecvCQDepth then init_cqe strides j (arr ! j) else arr ! j))"
  using assms
proof (induction "kRecvCQDepth - i" arbitrary: i arr)
  case 0
  then have "i = kRecvCQDepth" by simp
  then show ?case by (subst init_cqes.simps) auto
next
  case (Suc m)
  then have i: "i < kRecvCQDepth" "i < length arr" by simp_all
  let ?arr = "arr[i := init_cqe strides i (arr ! i)]"
  have "m = kRecvCQDepth - (i + 1)" "kRecvCQDepth \<le> length ?arr" "i + 1 \<le> kRecvCQDepth"
    using Suc.hyps(2) Suc.prems i by simp_all
  from Suc.hyps(1) [OF this] obtain arr' where a: "init_cqes strides (i + 1) ?arr = Some arr'" "length arr' = length arr"
    "\<forall>j < length arr. arr' ! j = (if i + 1 \<le> j \<and> j < kRecvCQDepth then init_cqe strides j (?arr ! j) else ?arr ! j)"
    by auto
  have "init_cqes strides i arr = Some arr'"
    using a(1) i by (subst init_cqes.simps) simp
  moreover have "arr' ! j = (if i \<le> j \<and> j < kRecvCQDepth then init_cqe strides j (arr ! j) else arr ! j)"
    if "j < length arr" for j
    using a(3) that i by (cases "j = i") auto
  ultimately show ?case using a(2) by blast
qed

lemma ucast_sub_u16: "(ucast (a - b :: 64 word) :: 16 word) = ucast a - ucast b"
proof -
  have "(ucast (a - b) :: 16 word) = word_of_int (uint (a - b))" by (rule ucast_eq)
  also have "uint (a - b) = take_bit 64 (uint a - uint b)"
    unfolding take_bit_eq_mod uint_word_ariths by simp
  also have "(word_of_int (take_bit 64 (uint a - uint b)) :: 16 word) = word_of_int (uint a - uint b)"
    by transfer (simp add: take_bit_take_bit min_def)
  also have "\<dots> = ucast a - ucast b" by (simp only: ucast_eq wi_hom_sub)
  finally show ?thesis .
qed
lemma counter_word:
  assumes "i < 128"
  shows "(ucast (64 - word_of_nat (128 - i) :: 64 word) :: 16 word) = word_of_nat i - 64"
proof -
  have "unat (word_of_nat (128 - i) :: 64 word) = 128 - i" by (simp add: unat_of_nat)
  then have "(ucast (word_of_nat (128 - i) :: 64 word) :: 16 word) = word_of_nat (128 - i)"
    by (simp add: unsigned_ucast_eq word_unat_eq_iff unat_of_nat take_bit_nat_eq_self_iff)
  then show ?thesis using assms by (simp add: ucast_sub_u16 of_nat_diff)
qed
lemma counter_wraps:
  assumes "i < 128"
  shows "1024 \<le> unat (word_of_nat i - 64 :: 16 word) \<longleftrightarrow> i < 64"
  using assms by (auto simp add: unat_sub_if' unat_of_nat)

text \<open>
  The initial completion entries of \<open>create_mp_srq\<close>. When the completion queue has 128
  entries the call reaches the creation of the queue, and every entry is marked unused. With
  the parameters of the Rowan server (strides of \<open>2 ^ 6\<close> bytes, \<open>2 ^ 10\<close> of them), the first
  64 counters have wrapped and are not below the 1024 strides of a request: the code takes the
  stride size where its variable is called strides per request.
\<close>

theorem create_mp_srq_counters:
  assumes cq: "create_cq (ctx_handle context) 64 s = (Some c, s0)"
    and arr: "cqes c (snd (modify_cq c s0)) = Some arr" "length arr = 128"
  shows "\<exists>arr' attr. create_mp_srq create_cq modify_cq cqes set_cqes create_srq context 64 10 6 True s
       = (case create_srq (ctx_handle context) attr (set_cqes c arr' (snd (modify_cq c s0))) of
            (srq, s') \<Rightarrow> Some (srq, Some c, s'))
     \<and> mp_cq attr = c \<and> mp_log_num_of_strides attr = 10 \<and> mp_log_stride_size attr = 6
     \<and> length arr' = 128
     \<and> (\<forall>i < 128. wqe_id (arr' ! i) = 0xffff \<and> (1024 \<le> unat (htons (wqe_counter (arr' ! i))) \<longleftrightarrow> i < 64))"
proof -
  obtain arr' where arr': "init_cqes 64 0 arr = Some arr'" "length arr' = 128"
    "\<forall>j < 128. arr' ! j = init_cqe 64 j (arr ! j)"
    using init_cqes_run [of arr 0 64] arr(2) by (auto simp: kRecvCQDepth_def)
  have counters: "\<forall>i < 128. 1024 \<le> unat (ucast (64 - word_of_nat (128 - i) :: u64) :: u16) \<longleftrightarrow> i < 64"
    using counter_word counter_wraps by simp
  let ?attr = "\<lparr>mp_max_wr = 64, mp_max_sge = 1, mp_pd = pd_handle context, mp_log_num_of_strides = 10,
      mp_log_stride_size = 6, mp_max_num_tags = 1, mp_max_ops = 1, mp_cq = c\<rparr>"
  have "overrun_cq modify_cq cqes set_cqes 6 (Some c) s0 = Some (set_cqes c arr' (snd (modify_cq c s0)))"
    using arr(1) arr'(1) by (simp add: overrun_cq_def Let_def push_bit_eq_mult)
  then have "create_mp_srq create_cq modify_cq cqes set_cqes create_srq context 64 10 6 True s
       = (case create_srq (ctx_handle context) ?attr (set_cqes c arr' (snd (modify_cq c s0))) of
            (srq, s') \<Rightarrow> Some (srq, Some c, s'))"
    using cq by (simp add: create_mp_srq_def kRecvCQDepth_def)
  moreover have "wqe_id (arr' ! i) = 0xffff \<and> (1024 \<le> unat (htons (wqe_counter (arr' ! i))) \<longleftrightarrow> i < 64)"
    if "i < 128" for i
  proof -
    have "htons (-1) = 0xffff" by code_simp
    then show ?thesis
      using arr'(3) that counters by (simp add: init_cqe_def kRecvCQDepth_def)
  qed
  ultimately show ?thesis using arr'(2) by (intro exI [of _ arr'] exI [of _ ?attr]) simp
qed

theorem create_mp_srq_counters_witness:
  "\<exists>arr'. create_mp_srq (\<lambda>c n s. (Some 5, s)) (\<lambda>c s. (0, s)) (\<lambda>c s. Some s) (\<lambda>c arr s. arr) (\<lambda>c a s. (Some 9, s))
      RdmaContext_mk 64 10 6 True (replicate 128 \<lparr>wqe_id = 0, wqe_counter = 0\<rparr>) = Some (Some 9, Some 5, arr')
    \<and> wqe_id (arr' ! 127) = 0xffff"
proof -
  let ?cqes = "replicate 128 \<lparr>wqe_id = 0, wqe_counter = 0\<rparr>"
  from create_mp_srq_counters [of "\<lambda>c n s. (Some 5, s)" RdmaContext_mk ?cqes 5 ?cqes "\<lambda>c s. Some s" "\<lambda>c s. (0, s)" ?cqes
      "\<lambda>c arr s. arr" "\<lambda>c a s. (Some 9, s)"]
  show ?thesis by auto
qed

section \<open>The device as the connections see it\<close>

record ibv_mr =
  mr_lkey :: u32
  mr_rkey :: u32

text \<open>
  The calls into the verbs library, and the allocation of pages (\<open>mmap\<close>), with which nodes
  are set up.
\<close>

record 's rdma_device =
  dev_verbs :: "'s verbs"
  dev_create_cq :: "u64 \<Rightarrow> nat \<Rightarrow> 's \<Rightarrow> u64 option \<times> 's"
  dev_create_qp :: "'s create_qp_fn"
  dev_reg_mr :: "u64 \<Rightarrow> u64 \<Rightarrow> u64 \<Rightarrow> access_flag set \<Rightarrow> 's \<Rightarrow> ibv_mr option \<times> 's"
  dev_modify_qp :: "'s modify_fn"
  dev_page_alloc :: "u64 \<Rightarrow> 's \<Rightarrow> u64 \<times> 's"
  dev_create_ah :: "u64 \<Rightarrow> ibv_ah_attr \<Rightarrow> 's \<Rightarrow> u64 option \<times> 's"

text \<open>A null pointer that a caller passes on as a number.\<close>

definition ptr :: "u64 option \<Rightarrow> u64" where
  "ptr p = (case p of None \<Rightarrow> 0 | Some a \<Rightarrow> a)"

end
