(* ===== verification/RC_Mapping.thy ===== *)
theory RC_Mapping
  imports Config
begin

text \<open>
  \<open>include/dsm/RCMapping.h\<close>: which directory (RC context of a server) serves which client
  thread. The constructor fills the table \<open>thread_to_dir\<close> and its inverse \<open>dir_to_thread\<close>;
  the locale \<open>qp_directory\<close> is what the connection code relies on.
\<close>

record RCMapping =
  thread_to_dir :: "u16 list list"
  dir_to_thread :: "(u16 \<times> u16) list list"

text \<open>\<open>node_id * kMaxNetThread + thread_id\<close> stays far below the range of \<open>int\<close>.\<close>

definition calacuate_target_dir :: "u16 \<Rightarrow> u16 \<Rightarrow> u16" where
  "calacuate_target_dir node thread =
     word_of_nat ((unat node * kMaxNetThread + unat thread) mod NR_DIRECTORY)"

definition rc_init :: "nat \<Rightarrow> RCMapping" where
  "rc_init m = \<lparr>thread_to_dir = replicate m (replicate kMaxNetThread 0),
                dir_to_thread = replicate NR_DIRECTORY []\<rparr>"

definition rc_step :: "nat \<times> nat \<Rightarrow> RCMapping \<Rightarrow> RCMapping" where
  "rc_step p m = (case p of (i, k) \<Rightarrow>
     let d = calacuate_target_dir (word_of_nat i) (word_of_nat k)
     in \<lparr>thread_to_dir = (thread_to_dir m)[i := (thread_to_dir m ! i)[k := d]],
         dir_to_thread = (dir_to_thread m)[unat d :=
            (dir_to_thread m ! unat d) @ [(word_of_nat i, word_of_nat k)]]\<rparr>)"

text \<open>The two nested loops visit the pairs row by row.\<close>

definition mk_RCMapping :: "u16 \<Rightarrow> RCMapping" where
  "mk_RCMapping mc =
     fold rc_step (List.product [0..<unat mc] [0..<kMaxNetThread])
       (rc_init (unat mc))"

definition get_target_dir_id :: "RCMapping \<Rightarrow> u16 \<Rightarrow> u16 \<Rightarrow> u16 option" where
  "get_target_dir_id m node thread =
     (if unat node < length (thread_to_dir m)
         \<and> unat thread < length (thread_to_dir m ! unat node)
      then Some (thread_to_dir m ! unat node ! unat thread) else None)"

definition get_client_thread_list :: "RCMapping \<Rightarrow> u16 \<Rightarrow> (u16 \<times> u16) list option" where
  "get_client_thread_list m dir =
     (if unat dir < NR_DIRECTORY then Some (dir_to_thread m ! unat dir) else None)"

section \<open>What the tables hold\<close>

lemma NR_DIRECTORY_pos: "0 < NR_DIRECTORY" and NR_DIRECTORY_u16: "NR_DIRECTORY \<le> 2 ^ 16"
  by (simp_all add: NR_DIRECTORY_def)

lemma calacuate_target_dir_lt: "unat (calacuate_target_dir n t) < NR_DIRECTORY"
proof -
  have "(unat n * kMaxNetThread + unat t) mod NR_DIRECTORY < NR_DIRECTORY"
    using NR_DIRECTORY_pos by simp
  then show ?thesis
    using NR_DIRECTORY_u16 by (simp add: calacuate_target_dir_def unat_of_nat)
qed

definition rc_dir :: "nat \<times> nat \<Rightarrow> u16" where
  "rc_dir p = calacuate_target_dir (word_of_nat (fst p)) (word_of_nat (snd p))"

definition rc_pair :: "nat \<times> nat \<Rightarrow> u16 \<times> u16" where
  "rc_pair p = (word_of_nat (fst p), word_of_nat (snd p))"

definition rc_shape :: "nat \<Rightarrow> RCMapping \<Rightarrow> bool" where
  "rc_shape m r \<longleftrightarrow> length (thread_to_dir r) = m
     \<and> (\<forall>row \<in> set (thread_to_dir r). length row = kMaxNetThread)
     \<and> length (dir_to_thread r) = NR_DIRECTORY"

lemma rc_shape_init: "rc_shape m (rc_init m)"
  by (simp add: rc_shape_def rc_init_def)

lemma rc_shape_step:
  assumes "rc_shape m r" "fst p < m"
  shows "rc_shape m (rc_step p r)"
proof -
  have "length (thread_to_dir r ! fst p) = kMaxNetThread"
    using assms by (simp add: rc_shape_def)
  then show ?thesis
    using assms set_update_subset_insert [of "thread_to_dir r" "fst p"]
    by (fastforce simp: rc_shape_def rc_step_def Let_def split: prod.splits)
qed

lemma rc_step_row:
  assumes "rc_shape m r" "fst p < m" "snd p < kMaxNetThread" "i < m" "k < kMaxNetThread"
  shows "thread_to_dir (rc_step p r) ! i ! k
         = (if p = (i, k) then rc_dir p else thread_to_dir r ! i ! k)"
proof -
  have "length (thread_to_dir r ! i) = kMaxNetThread" "length (thread_to_dir r) = m"
    using assms by (simp_all add: rc_shape_def)
  then show ?thesis
    using assms by (cases p) (auto simp: rc_step_def rc_dir_def Let_def nth_list_update)
qed

lemma rc_step_list:
  assumes "rc_shape m r" "d < NR_DIRECTORY"
  shows "dir_to_thread (rc_step p r) ! d
         = dir_to_thread r ! d @ (if unat (rc_dir p) = d then [rc_pair p] else [])"
  using assms calacuate_target_dir_lt
  by (cases p) (auto simp: rc_step_def rc_dir_def rc_pair_def rc_shape_def Let_def nth_list_update)

lemma rc_fold:
  assumes "rc_shape m r" "\<forall>p \<in> set ps. fst p < m \<and> snd p < kMaxNetThread"
  shows "rc_shape m (fold rc_step ps r)
    \<and> (\<forall>i k. i < m \<longrightarrow> k < kMaxNetThread \<longrightarrow> thread_to_dir (fold rc_step ps r) ! i ! k
         = (if (i, k) \<in> set ps then rc_dir (i, k) else thread_to_dir r ! i ! k))
    \<and> (\<forall>d. d < NR_DIRECTORY \<longrightarrow> dir_to_thread (fold rc_step ps r) ! d
         = dir_to_thread r ! d @ map rc_pair (filter (\<lambda>p. unat (rc_dir p) = d) ps))"
  using assms
proof (induction ps arbitrary: r)
  case Nil
  then show ?case by simp
next
  case (Cons p ps)
  have sh: "rc_shape m (rc_step p r)" using Cons.prems by (intro rc_shape_step) simp_all
  have p: "fst p < m" "snd p < kMaxNetThread" using Cons.prems(2) by simp_all
  from Cons.IH [OF sh] Cons.prems(2) show ?case
    using rc_step_row [OF Cons.prems(1) p] rc_step_list [OF Cons.prems(1), of _ p] by auto
qed

lemma mk_RCMapping_shape: "rc_shape (unat mc) (mk_RCMapping mc)"
  and mk_RCMapping_row: "i < unat mc \<Longrightarrow> k < kMaxNetThread \<Longrightarrow>
     thread_to_dir (mk_RCMapping mc) ! i ! k = rc_dir (i, k)"
  and mk_RCMapping_list: "d < NR_DIRECTORY \<Longrightarrow> dir_to_thread (mk_RCMapping mc) ! d
     = map rc_pair (filter (\<lambda>p. unat (rc_dir p) = d) (List.product [0..<unat mc] [0..<kMaxNetThread]))"
  using rc_fold [OF rc_shape_init, of "List.product [0..<unat mc] [0..<kMaxNetThread]" "unat mc"]
  by (auto simp: mk_RCMapping_def rc_init_def)

section \<open>The contract of the connection code\<close>

text \<open>
  \<open>target n t\<close> is the directory of thread \<open>t\<close> of node \<open>n\<close>, \<open>clients d\<close> the threads a
  directory serves: two views of one relation.
\<close>

locale qp_directory =
  fixes machines threads dirs :: nat
    and target :: "nat \<Rightarrow> nat \<Rightarrow> nat" and clients :: "nat \<Rightarrow> (nat \<times> nat) list"
  assumes target_lt: "n < machines \<Longrightarrow> t < threads \<Longrightarrow> target n t < dirs"
    and clients_iff: "d < dirs \<Longrightarrow>
      (n, t) \<in> set (clients d) \<longleftrightarrow> n < machines \<and> t < threads \<and> target n t = d"
    and clients_distinct: "d < dirs \<Longrightarrow> distinct (clients d)"
begin

lemma served_by_exactly_one:
  assumes "n < machines" "t < threads"
  shows "\<exists>!d. d < dirs \<and> (n, t) \<in> set (clients d)"
  using assms target_lt clients_iff by metis

lemma clients_disjoint:
  "d < dirs \<Longrightarrow> e < dirs \<Longrightarrow> d \<noteq> e \<Longrightarrow> set (clients d) \<inter> set (clients e) = {}"
  using clients_iff by (metis disjoint_iff surj_pair)

lemma clients_count: "(\<Sum>d < dirs. length (clients d)) = machines * threads"
proof -
  have "(\<Union>d < dirs. set (clients d)) = {..<machines} \<times> {..<threads}"
  proof (rule set_eqI)
    fix p :: "nat \<times> nat"
    obtain n t where p: "p = (n, t)" by (cases p)
    show "p \<in> (\<Union>d < dirs. set (clients d)) \<longleftrightarrow> p \<in> {..<machines} \<times> {..<threads}"
      using target_lt [of n t] by (auto simp: p clients_iff)
  qed
  moreover have "card (\<Union>d < dirs. set (clients d)) = (\<Sum>d < dirs. card (set (clients d)))"
    by (rule card_UN_disjoint) (use clients_disjoint in auto)
  moreover have "(\<Sum>d < dirs. card (set (clients d))) = (\<Sum>d < dirs. length (clients d))"
    by (rule sum.cong) (simp_all add: distinct_card clients_distinct)
  ultimately show ?thesis by (simp add: card_cartesian_product)
qed

end

text \<open>The mapping as the connection code reads it, over natural numbers.\<close>

definition rc_target :: "u16 \<Rightarrow> nat \<Rightarrow> nat \<Rightarrow> nat" where
  "rc_target mc n t = unat (thread_to_dir (mk_RCMapping mc) ! n ! t)"

definition rc_clients :: "u16 \<Rightarrow> nat \<Rightarrow> (nat \<times> nat) list" where
  "rc_clients mc d = map (\<lambda>(n, t). (unat n, unat t)) (dir_to_thread (mk_RCMapping mc) ! d)"

lemma unat_word_of_nat_u16: "n < unat (mc :: u16) \<Longrightarrow> unat (word_of_nat n :: u16) = n"
  using unsigned_less [of mc, where 'a = nat] by (simp add: unat_of_nat)

lemma rc_clients_eq:
  assumes "d < NR_DIRECTORY"
  shows "rc_clients mc d
    = filter (\<lambda>p. unat (rc_dir p) = d) (List.product [0..<unat mc] [0..<kMaxNetThread])"
proof -
  have "unat (word_of_nat t :: u16) = t" if "t < kMaxNetThread" for t
    using that by (simp add: unat_of_nat kMaxNetThread_def)
  then have unmap: "map (\<lambda>(n, t). (unat n, unat t)) (map rc_pair ps) = ps"
    if "set ps \<subseteq> {..<unat mc} \<times> {..<kMaxNetThread}" for ps
    using that unat_word_of_nat_u16 [of _ mc]
    by (induction ps) (auto simp: rc_pair_def)
  show ?thesis
    unfolding rc_clients_def mk_RCMapping_list [OF assms] by (rule unmap) auto
qed

interpretation rcm: qp_directory "unat mc" kMaxNetThread NR_DIRECTORY "rc_target mc" "rc_clients mc"
  for mc :: u16
proof unfold_locales
  fix n t assume "n < unat mc" "t < kMaxNetThread"
  then show "rc_target mc n t < NR_DIRECTORY"
    by (simp add: rc_target_def mk_RCMapping_row rc_dir_def calacuate_target_dir_lt)
next
  fix d n t assume "d < NR_DIRECTORY"
  then show "(n, t) \<in> set (rc_clients mc d)
      \<longleftrightarrow> n < unat mc \<and> t < kMaxNetThread \<and> rc_target mc n t = d"
    by (auto simp: rc_clients_eq rc_target_def mk_RCMapping_row)
next
  fix d assume "d < NR_DIRECTORY"
  then show "distinct (rc_clients mc d)"
    by (simp add: rc_clients_eq distinct_product)
qed

section \<open>Properties\<close>

text \<open>
  C37. The two tables of \<open>RCMapping\<close> are inverse to each other: for a thread \<open>t\<close> of a node
  \<open>n\<close> of the cluster the lookup is defined, gives the directory that the formula gives, and
  that directory is the only one whose client list holds the pair. Together the client lists
  hold every thread of every node once.
\<close>

theorem rc_mapping_consistent:
  assumes "unat n < unat mc" and "unat t < kMaxNetThread"
  shows "\<exists>d. get_target_dir_id (mk_RCMapping mc) n t = Some d \<and> d = calacuate_target_dir n t
     \<and> unat d < NR_DIRECTORY
     \<and> (\<forall>e < NR_DIRECTORY. (unat n, unat t) \<in> set (rc_clients mc e) \<longleftrightarrow> e = unat d)
     \<and> (\<Sum>e < NR_DIRECTORY. length (rc_clients mc e)) = unat mc * kMaxNetThread"
proof -
  have "length (thread_to_dir (mk_RCMapping mc)) = unat mc"
    "length (thread_to_dir (mk_RCMapping mc) ! unat n) = kMaxNetThread"
    using mk_RCMapping_shape [of mc] assms by (simp_all add: rc_shape_def)
  then have "get_target_dir_id (mk_RCMapping mc) n t = Some (calacuate_target_dir n t)"
    using assms by (simp add: get_target_dir_id_def mk_RCMapping_row rc_dir_def)
  moreover have "rc_target mc (unat n) (unat t) = unat (calacuate_target_dir n t)"
    using assms by (simp add: rc_target_def mk_RCMapping_row rc_dir_def)
  ultimately show ?thesis
    using rcm.clients_iff [where mc = mc] rcm.clients_count [of mc] assms calacuate_target_dir_lt [of n t]
    by auto
qed

theorem rc_mapping_consistent_witness:
  "\<exists>d. get_target_dir_id (mk_RCMapping 3) 2 35 = Some d
     \<and> (\<forall>e < NR_DIRECTORY. (2, 35) \<in> set (rc_clients 3 e) \<longleftrightarrow> e = unat d)"
  using rc_mapping_consistent [of 2 3 35] by (auto simp: kMaxNetThread_def)

end
