(* ===== verification/Message_Connection.thy ===== *)
theory Message_Connection
  imports Rpc_Message Rdma_Poll Rdma_Resource
begin

text \<open>
  \<open>AbstractMessageConnection\<close> and \<open>RawMessageConnection\<close> (\<open>src/dsm\<close>): a UD queue pair with a
  pool of \<open>messageNR\<close> receive buffers, reposted in four batches, and a pool of \<open>messageNR\<close>
  send buffers handed out round robin. Memory allocation and registration, the receive queue
  (\<open>post_recv\<close>), the send queue (\<open>post\<close>) and the completion queue (\<open>poll\<close>) are parameters.
\<close>

definition kBatchCount :: nat where "kBatchCount = 4"
definition SIGNAL_BATCH :: u64 where "SIGNAL_BATCH = 31"

record MsgConn =
  conn_qp :: u32
  messageNR :: u16
  messagePool :: u64
  messageLkey :: u32
  curMessage :: u16
  sendPool :: u64
  curSend :: u16
  recvs :: "ibv_recv_wr list list"
  subNR :: u32
  sendCounter :: u64
  sendPadding :: u16
  recvPadding :: u16

text \<open>
  The constructor: the assertion, the completion queue and the queue pair for sending (brought
  to RTS at once), and one registered block that holds the receive pool and, behind it, the
  send pool. \<open>None\<close> is a failed assertion or the use of a null queue pair or memory region.
  \<open>subNR\<close> and \<open>recvs\<close> are not initialised (zero and empty here), \<open>messageNR\<close> is a 16-bit copy
  of a 32-bit argument, and the sizes are computed in 32 bits.
\<close>

definition msg_pool_bytes :: "u32 \<Rightarrow> u64" where
  "msg_pool_bytes nr = ucast (2 * nr * word_of_nat MESSAGE_SIZE)"

definition mk_MsgConn ::
  "'s rdma_device \<Rightarrow> ibv_qp_type \<Rightarrow> u16 \<Rightarrow> u16 \<Rightarrow> RdmaContext \<Rightarrow> u64 \<Rightarrow> u32 \<Rightarrow> 's
     \<Rightarrow> (MsgConn \<times> 's) option" where
  "mk_MsgConn dev ty send_pad recv_pad context cq nr s =
     (if nr mod word_of_nat kBatchCount \<noteq> 0 then None
      else
        let (send_cq, s) = dev_create_cq dev (ctx_handle context) 128 s;
            (_, qp, s) = createQueuePair (dev_create_qp dev) ty (ptr send_cq) cq context nr 0
                           (word_of_nat kMaxInlineData) s
        in Option.bind qp (\<lambda>qp.
             let (_, s) = modifyUDtoRTS (dev_modify_qp dev) qp context s;
                 (pool, s) = dev_page_alloc dev (msg_pool_bytes nr) s;
                 (mr, s) = createMemoryRegion (dev_reg_mr dev) pool (msg_pool_bytes nr) context s
             in map_option (\<lambda>mr.
                  (\<lparr>conn_qp = qp_num qp, messageNR = ucast nr, messagePool = pool,
                    messageLkey = mr_lkey mr, curMessage = 0,
                    sendPool = pool + ucast (nr * word_of_nat MESSAGE_SIZE), curSend = 0,
                    recvs = [], subNR = 0, sendCounter = 0, sendPadding = send_pad,
                    recvPadding = recv_pad\<rparr>, s)) mr))"

text \<open>\<open>RawMessageConnection\<close>: no padding before a sent message, the 40 bytes of the GRH before a received one.\<close>

definition mk_RawMessageConnection ::
  "'s rdma_device \<Rightarrow> RdmaContext \<Rightarrow> u64 \<Rightarrow> u32 \<Rightarrow> 's \<Rightarrow> (MsgConn \<times> 's) option" where
  "mk_RawMessageConnection dev context cq nr s = mk_MsgConn dev IBV_QPT_UD 0 40 context cq nr s"

section \<open>Receiving\<close>

text \<open>Batch \<open>k\<close> of receive requests: one request per buffer, chained in order.\<close>

definition recv_batch :: "MsgConn \<Rightarrow> nat \<Rightarrow> nat \<Rightarrow> ibv_recv_wr list" where
  "recv_batch c sub k =
     map (\<lambda>i. \<lparr>rwr_id = 1234,
               rsg_list = [\<lparr>sge_addr = slot_addr (messagePool c) MESSAGE_SIZE (k * sub + i),
                            sge_length = word_of_nat MESSAGE_SIZE, sge_lkey = messageLkey c\<rparr>],
               rnum_sge = 1\<rparr>) [0..<sub]"

type_synonym 's post_recv_fn = "ibv_recv_wr list \<Rightarrow> 's \<Rightarrow> int \<times> 's"

text \<open>A failed post prints an error and goes on.\<close>

definition post_batch :: "'s post_recv_fn \<Rightarrow> ibv_recv_wr list \<Rightarrow> 's \<Rightarrow> 's" where
  "post_batch post_recv b s = snd (post_recv b s)"

definition initRecv :: "'s post_recv_fn \<Rightarrow> MsgConn \<Rightarrow> 's \<Rightarrow> MsgConn \<times> 's" where
  "initRecv post_recv c s =
     (let sub = unat (messageNR c) div kBatchCount;
          c = c\<lparr>subNR := word_of_nat sub, recvs := map (recv_batch c sub) [0..<kBatchCount]\<rparr>
      in (c, fold (post_batch post_recv) (recvs c) s))"

definition getMessageAddr :: "MsgConn \<Rightarrow> u64" where
  "getMessageAddr c =
     slot_addr (messagePool c) MESSAGE_SIZE (unat (curMessage c)) + ucast (recvPadding c)"

text \<open>\<open>ADD_ROUND\<close>.\<close>

definition add_round :: "u16 \<Rightarrow> u16 \<Rightarrow> u16" where
  "add_round x n = word_of_nat ((unat x + 1) mod unat n)"

text \<open>
  The batch that is reposted when \<open>curMessage\<close> reaches a batch boundary, in the 32-bit
  unsigned arithmetic of the source (for batch 0 the subtraction wraps).
\<close>

definition repost_index :: "u16 \<Rightarrow> u32 \<Rightarrow> nat" where
  "repost_index cur sub = unat ((ucast cur div sub - 1 + word_of_nat kBatchCount) mod word_of_nat kBatchCount :: u32)"

definition getMessage :: "'s post_recv_fn \<Rightarrow> MsgConn \<Rightarrow> 's \<Rightarrow> u64 \<times> MsgConn \<times> 's" where
  "getMessage post_recv c s =
     (let m = getMessageAddr c;
          c = c\<lparr>curMessage := add_round (curMessage c) (messageNR c)\<rparr>
      in if unat (curMessage c) mod unat (subNR c) = 0
         then (m, c, post_batch post_recv (recvs c ! repost_index (curMessage c) (subNR c)) s)
         else (m, c, s))"

section \<open>Sending\<close>

definition getSendPool :: "MsgConn \<Rightarrow> u64 \<times> MsgConn" where
  "getSendPool c =
     (slot_addr (sendPool c) MESSAGE_SIZE (unat (curSend c)) + ucast (sendPadding c),
      c\<lparr>curSend := add_round (curSend c) (messageNR c)\<rparr>)"

type_synonym 's post_send_fn = "u32 \<Rightarrow> ibv_send_wr list \<Rightarrow> 's \<Rightarrow> int \<times> 's"

text \<open>
  Every 32nd send is signaled; before posting the next signaled send its predecessor's
  completion is awaited. What the polling returned is not looked at. \<open>None\<close> is a polling
  loop that does not end. \<open>wc\<close> is the uninitialised local completion.
\<close>

definition await_signal :: "'s poll_fn \<Rightarrow> ibv_wc \<Rightarrow> MsgConn \<Rightarrow> 's \<Rightarrow> 's option" where
  "await_signal poll wc c s =
     (if sendCounter c AND SIGNAL_BATCH = 0 \<and> 0 < sendCounter c
      then map_option (\<lambda>(_, _, s'). s') (pollWithCQ poll 1 wc s) else Some s)"

definition sendRawMessage ::
  "'s post_send_fn \<Rightarrow> 's poll_fn \<Rightarrow> ibv_wc \<Rightarrow> MsgConn \<Rightarrow> u64 \<Rightarrow> RpcMessage \<Rightarrow> u32 \<Rightarrow> u64 \<Rightarrow> 's
     \<Rightarrow> (MsgConn \<times> 's) option" where
  "sendRawMessage post poll wc c addr m remoteQPN ah s =
     map_option (\<lambda>s1.
        (c\<lparr>sendCounter := sendCounter c + 1\<rparr>,
         snd (rdmaSend_ud post (conn_qp c) (addr - ucast (sendPadding c))
                (word_of_nat (rpc_size m) + ucast (sendPadding c)) (messageLkey c) ah remoteQPN
                (sendCounter c AND SIGNAL_BATCH = 0) s1)))
       (await_signal poll wc c s)"

text \<open>
  \<open>sendRawMessageWithData\<close> adds the length of the slice to \<open>msg_size\<close> (16 bits) and sends two
  entries; it returns the message with its new size.
\<close>

definition sendRawMessageWithData ::
  "'s post_send_fn \<Rightarrow> 's poll_fn \<Rightarrow> ibv_wc \<Rightarrow> MsgConn \<Rightarrow> u64 \<Rightarrow> RpcMessage \<Rightarrow> u64 \<Rightarrow> nat \<Rightarrow> u32 \<Rightarrow> u32
     \<Rightarrow> u64 \<Rightarrow> 's \<Rightarrow> (RpcMessage \<times> MsgConn \<times> 's) option" where
  "sendRawMessageWithData post poll wc c addr m data_addr data_len data_lkey remoteQPN ah s =
     map_option (\<lambda>s1.
        (m\<lparr>msg_size := msg_size m + word_of_nat data_len\<rparr>,
         c\<lparr>sendCounter := sendCounter c + 1\<rparr>,
         snd (rdmaSend2Sge post (conn_qp c) (addr - ucast (sendPadding c))
                (ucast (msg_size m) + ucast (sendPadding c)) data_addr (word_of_nat data_len)
                (messageLkey c) data_lkey ah remoteQPN
                (sendCounter c AND SIGNAL_BATCH = 0) s1)))
       (await_signal poll wc c s)"

section \<open>The receive side with its device\<close>

text \<open>
  What the code relies on in the receive queue: the device state shows the buffers posted and
  not yet filled (\<open>rq\<close>) and the buffers filled and not yet taken (\<open>filled\<close>), and posting
  appends the buffers of the requests in order.
\<close>

definition recv_queue_laws ::
  "'s post_recv_fn \<Rightarrow> ('s \<Rightarrow> u64 list) \<Rightarrow> ('s \<Rightarrow> u64 list) \<Rightarrow> bool" where
  "recv_queue_laws post_recv rq filled \<longleftrightarrow>
     (\<forall>wrs s. rq (snd (post_recv wrs s)) = rq s @ map (\<lambda>w. sge_addr (hd (rsg_list w))) wrs
            \<and> filled (snd (post_recv wrs s)) = filled s)"

text \<open>
  The device fills the buffer at the head of the receive queue; the application waits for a
  completion and takes the next message, as \<open>ud_rpc_wait\<close> does.
\<close>

inductive recv_step ::
  "'s post_recv_fn \<Rightarrow> ('s \<Rightarrow> u64 list) \<Rightarrow> ('s \<Rightarrow> u64 list) \<Rightarrow> MsgConn \<times> 's \<Rightarrow> MsgConn \<times> 's \<Rightarrow> bool"
  for post_recv rq filled where
  deliver: "rq s = b # bs \<Longrightarrow> rq s' = bs \<Longrightarrow> filled s' = filled s @ [b] \<Longrightarrow>
     recv_step post_recv rq filled (c, s) (c, s')"
| fetch: "filled s = b # fs \<Longrightarrow> rq s1 = rq s \<Longrightarrow> filled s1 = fs \<Longrightarrow>
     getMessage post_recv c s1 = (m, c', s') \<Longrightarrow>
     recv_step post_recv rq filled (c, s) (c', s')"

text \<open>A usable pool: a positive multiple of four buffers that fits in the address space.\<close>

definition pool_ok :: "MsgConn \<Rightarrow> bool" where
  "pool_ok c \<longleftrightarrow> 0 < unat (messageNR c) \<and> kBatchCount dvd unat (messageNR c)
     \<and> unat (messagePool c) + unat (messageNR c) * MESSAGE_SIZE \<le> 2 ^ 64"

definition recv_start ::
  "'s post_recv_fn \<Rightarrow> ('s \<Rightarrow> u64 list) \<Rightarrow> ('s \<Rightarrow> u64 list) \<Rightarrow> MsgConn \<times> 's \<Rightarrow> bool" where
  "recv_start post_recv rq filled x \<longleftrightarrow>
     (\<exists>c s. pool_ok c \<and> curMessage c = 0 \<and> rq s = [] \<and> filled s = [] \<and> x = initRecv post_recv c s)"

text \<open>The \<open>i\<close>-th buffer in the order of use, counted from the start without wrapping.\<close>

definition recv_slot :: "MsgConn \<Rightarrow> nat \<Rightarrow> u64" where
  "recv_slot c i = slot_addr (messagePool c) MESSAGE_SIZE (i mod unat (messageNR c))"

definition recv_sub :: "MsgConn \<Rightarrow> nat" where
  "recv_sub c = unat (messageNR c) div kBatchCount"

text \<open>How many buffers were posted after \<open>g\<close> messages were taken.\<close>

definition posted_upto :: "MsgConn \<Rightarrow> nat \<Rightarrow> nat" where
  "posted_upto c g = unat (messageNR c) + recv_sub c * (g div recv_sub c)"

definition recv_ready :: "MsgConn \<Rightarrow> bool" where
  "recv_ready c \<longleftrightarrow> pool_ok c \<and> subNR c = word_of_nat (recv_sub c)
     \<and> recvs c = map (recv_batch c (recv_sub c)) [0..<kBatchCount]"

text \<open>
  The invariant, with \<open>g\<close> messages taken and \<open>d\<close> buffers filled so far: the buffers
  \<open>g..<d\<close> wait to be taken and the buffers \<open>d..<posted_upto g\<close> wait to be filled.
\<close>

definition recv_at :: "('s \<Rightarrow> u64 list) \<Rightarrow> ('s \<Rightarrow> u64 list) \<Rightarrow> MsgConn \<times> 's \<Rightarrow> nat \<Rightarrow> nat \<Rightarrow> bool" where
  "recv_at rq filled x g d \<longleftrightarrow> (case x of (c, s) \<Rightarrow>
     recv_ready c \<and> unat (curMessage c) = g mod unat (messageNR c)
     \<and> g \<le> d \<and> d \<le> posted_upto c g
     \<and> rq s = map (recv_slot c) [d..<posted_upto c g] \<and> filled s = map (recv_slot c) [g..<d])"

definition recv_inv :: "('s \<Rightarrow> u64 list) \<Rightarrow> ('s \<Rightarrow> u64 list) \<Rightarrow> MsgConn \<times> 's \<Rightarrow> bool" where
  "recv_inv rq filled x \<longleftrightarrow> (\<exists>g d. recv_at rq filled x g d)"

lemma pool_ok_sub:
  assumes "pool_ok c"
  shows "unat (messageNR c) = kBatchCount * recv_sub c" and "0 < recv_sub c"
    and "recv_sub c < 2 ^ 16"
proof -
  show nr: "unat (messageNR c) = kBatchCount * recv_sub c"
    using assms by (simp add: pool_ok_def recv_sub_def)
  then show "0 < recv_sub c" using assms by (auto simp: pool_ok_def)
  show "recv_sub c < 2 ^ 16"
    using nr unsigned_less [of "messageNR c", where 'a = nat] by (simp add: kBatchCount_def)
qed

lemma block_mod:
  fixes a i sub k :: nat
  assumes "i < sub"
  shows "(sub * a + i) mod (k * sub) = sub * (a mod k) + i"
  using assms by (simp add: mult.commute [of k] mod_mult2_eq)

lemma repost_index_eq:
  assumes "0 < sub" "sub < 2 ^ 16" "unat cur = sub * r" "r < 4"
  shows "repost_index cur (word_of_nat sub) = (r + 3) mod 4"
proof -
  have "unat cur < 2 ^ 32" using unsigned_less [of cur, where 'a = nat] by simp
  then have "unat (ucast cur :: u32) = sub * r"
    using assms(3) by (simp add: unsigned_ucast_eq take_bit_nat_eq_self_iff)
  moreover have "unat (word_of_nat sub :: u32) = sub" using assms(2) by (simp add: unat_of_nat)
  ultimately have "unat (ucast cur div word_of_nat sub :: u32) = r"
    using assms(1) by (simp add: unat_div)
  then have "(ucast cur div word_of_nat sub :: u32) = word_of_nat r"
    by (metis of_nat_unat ucast_id)
  moreover have "r = 0 \<or> r = 1 \<or> r = 2 \<or> r = 3" using assms(4) by linarith
  ultimately show ?thesis by (auto simp: repost_index_def kBatchCount_def)
qed

lemma unat_add_round: "0 < unat n \<Longrightarrow> unat (add_round x n) = (unat x + 1) mod unat n"
proof -
  assume "0 < unat n"
  then have "(unat x + 1) mod unat n < unat n" by simp
  also have "unat n < 2 ^ 16" using unsigned_less [of n, where 'a = nat] by simp
  finally show ?thesis by (simp add: add_round_def unat_of_nat)
qed

lemma recv_batch_addrs:
  "map (\<lambda>w. sge_addr (hd (rsg_list w))) (recv_batch c sub k)
     = map (\<lambda>i. slot_addr (messagePool c) MESSAGE_SIZE (k * sub + i)) [0..<sub]"
  by (simp add: recv_batch_def)

text \<open>Batch \<open>a mod 4\<close> is the \<open>a\<close>-th stretch of buffers.\<close>

lemma recv_batch_slots:
  assumes "pool_ok c"
  shows "map (\<lambda>w. sge_addr (hd (rsg_list w))) (recv_batch c (recv_sub c) (a mod 4))
     = map (recv_slot c) [recv_sub c * a ..< recv_sub c * a + recv_sub c]"
proof -
  note p = pool_ok_sub [OF assms]
  have "map (recv_slot c) [recv_sub c * a ..< recv_sub c * a + recv_sub c]
      = map (\<lambda>i. recv_slot c (recv_sub c * a + i)) [0..<recv_sub c]"
    by (simp add: map_add_upt [symmetric] add.commute comp_def)
  also have "\<dots> = map (\<lambda>i. slot_addr (messagePool c) MESSAGE_SIZE (a mod 4 * recv_sub c + i)) [0..<recv_sub c]"
  proof (intro map_cong refl)
    fix i assume "i \<in> set [0..<recv_sub c]"
    then have "(recv_sub c * a + i) mod (4 * recv_sub c) = recv_sub c * (a mod 4) + i"
      by (intro block_mod) simp
    then show "recv_slot c (recv_sub c * a + i)
        = slot_addr (messagePool c) MESSAGE_SIZE (a mod 4 * recv_sub c + i)"
      unfolding recv_slot_def p(1) kBatchCount_def by (simp only: mult.commute)
  qed
  finally show ?thesis by (simp add: recv_batch_addrs)
qed

lemma fold_post_batch:
  assumes "recv_queue_laws post_recv rq filled"
  shows "rq (fold (post_batch post_recv) bs s)
           = rq s @ concat (map (map (\<lambda>w. sge_addr (hd (rsg_list w)))) bs)
       \<and> filled (fold (post_batch post_recv) bs s) = filled s"
  using assms
  by (induction bs arbitrary: s) (simp_all add: post_batch_def recv_queue_laws_def)

lemma concat_blocks:
  "concat (map (\<lambda>k. map f [n * k ..< n * k + n]) [0..<m]) = map f [0 ..< n * m]"
proof (induction m)
  case (Suc m)
  have "[0 ..< n * Suc m] = [0 ..< n * m] @ [n * m ..< n * m + n]"
    using upt_add_eq_append [of 0 "n * m" n] by (simp add: add.commute)
  with Suc show ?case by simp
qed simp

lemma initRecv_at:
  assumes laws: "recv_queue_laws post_recv rq filled" and ok: "pool_ok c"
    and "curMessage c = 0" "rq s = []" "filled s = []"
  shows "recv_at rq filled (initRecv post_recv c s) 0 0"
proof -
  define c1 where "c1 = c\<lparr>subNR := word_of_nat (recv_sub c),
      recvs := map (recv_batch c (recv_sub c)) [0..<kBatchCount]\<rparr>"
  have batch: "recv_batch c1 k = recv_batch c k" for k
    by (simp add: c1_def recv_batch_def fun_eq_iff)
  have sub: "recv_sub c1 = recv_sub c" and ok1: "pool_ok c1"
    using ok by (simp_all add: c1_def recv_sub_def pool_ok_def)
  have ready: "recv_ready c1"
    using ok1 sub by (simp add: recv_ready_def batch) (simp add: c1_def)
  note p = pool_ok_sub [OF ok1]
  have init: "initRecv post_recv c s = (c1, fold (post_batch post_recv) (recvs c1) s)"
    by (simp add: initRecv_def Let_def c1_def recv_sub_def batch)
  have "concat (map (map (\<lambda>w. sge_addr (hd (rsg_list w)))) (recvs c1))
      = concat (map (\<lambda>k. map (recv_slot c1) [recv_sub c1 * k ..< recv_sub c1 * k + recv_sub c1]) [0..<4])"
  proof -
    have "map (\<lambda>w. sge_addr (hd (rsg_list w))) (recv_batch c1 (recv_sub c1) k)
        = map (recv_slot c1) [recv_sub c1 * k ..< recv_sub c1 * k + recv_sub c1]" if "k < 4" for k
      using recv_batch_slots [OF ok1, of k] that by simp
    then show ?thesis
      using ready by (simp add: recv_ready_def kBatchCount_def upt_rec)
  qed
  also have "\<dots> = map (recv_slot c1) [0..<posted_upto c1 0]"
    unfolding concat_blocks using p by (simp add: posted_upto_def kBatchCount_def mult.commute)
  finally have "rq (snd (initRecv post_recv c s)) = map (recv_slot c1) [0..<posted_upto c1 0]"
    using fold_post_batch [OF laws, of "recvs c1" s] assms(4) by (simp add: init)
  moreover have "filled (snd (initRecv post_recv c s)) = []"
    using fold_post_batch [OF laws, of "recvs c1" s] assms(5) by (simp add: init)
  moreover have "curMessage c1 = 0" using assms(3) by (simp add: c1_def)
  ultimately show ?thesis
    using ready by (simp add: recv_at_def init)
qed

lemma deliver_at:
  assumes at: "recv_at rq filled (c, s) g d" and b: "rq s = b # bs" "rq s' = bs"
    "filled s' = filled s @ [b]"
  shows "recv_at rq filled (c, s') g (Suc d)" and "b = recv_slot c d"
proof -
  from at have r: "rq s = map (recv_slot c) [d..<posted_upto c g]"
    and "g \<le> d" "d \<le> posted_upto c g" by (auto simp: recv_at_def)
  with b(1) have "d < posted_upto c g" by (cases "d = posted_upto c g") auto
  then have "[d..<posted_upto c g] = d # [Suc d..<posted_upto c g]" by (rule upt_conv_Cons)
  with r b(1) have "b = recv_slot c d" "bs = map (recv_slot c) [Suc d..<posted_upto c g]" by auto
  then show "recv_at rq filled (c, s') g (Suc d)" "b = recv_slot c d"
    using at b \<open>d < posted_upto c g\<close> by (auto simp: recv_at_def)
qed

text \<open>Taking a message: at a batch boundary the next stretch of buffers is posted.\<close>

lemma div_Suc_boundary:
  fixes g n :: nat
  shows "Suc g mod n = 0 \<Longrightarrow> Suc g div n = Suc (g div n) \<and> Suc g = n * Suc (g div n)"
    and "Suc g mod n \<noteq> 0 \<Longrightarrow> Suc g div n = g div n"
proof -
  assume z: "Suc g mod n = 0"
  then have "Suc g div n = Suc (g div n)" by (simp add: div_Suc)
  moreover have "Suc g = n * (Suc g div n)"
    using mult_div_mod_eq [of n "Suc g"] z by simp
  ultimately show "Suc g div n = Suc (g div n) \<and> Suc g = n * Suc (g div n)" by simp
qed (simp add: div_Suc)

lemma recv_batch_cur [simp]: "recv_batch (c\<lparr>curMessage := x\<rparr>) = recv_batch c"
  by (simp add: recv_batch_def fun_eq_iff)

lemma getMessage_at:
  assumes laws: "recv_queue_laws post_recv rq filled"
    and at: "recv_at rq filled (c, s) g d" and f: "filled s = b # fs"
    and s1: "rq s1 = rq s" "filled s1 = fs"
    and get: "getMessage post_recv c s1 = (m, c', s')"
  shows "recv_at rq filled (c', s') (Suc g) d" and "b = recv_slot c g"
    and "m = b + ucast (recvPadding c)"
proof -
  let ?N = "unat (messageNR c)" and ?n = "recv_sub c" and ?c = "c\<lparr>curMessage := add_round (curMessage c) (messageNR c)\<rparr>"
  from at have ready: "recv_ready c" and cur: "unat (curMessage c) = g mod ?N"
    and gd: "g \<le> d" "d \<le> posted_upto c g"
    and r: "rq s = map (recv_slot c) [d..<posted_upto c g]"
    and fl: "filled s = map (recv_slot c) [g..<d]" by (auto simp: recv_at_def)
  have ok: "pool_ok c" using ready by (simp add: recv_ready_def)
  note p = pool_ok_sub [OF ok]
  have N: "0 < ?N" using p by (simp add: kBatchCount_def)
  from fl f have "g < d" by (cases "g = d") (use gd in auto)
  then have "[g..<d] = g # [Suc g..<d]" by (rule upt_conv_Cons)
  with fl f have b: "b = recv_slot c g" and fs: "fs = map (recv_slot c) [Suc g..<d]" by auto
  then show "b = recv_slot c g" by simp
  have m: "m = getMessageAddr c" using get by (auto simp: getMessage_def Let_def split: if_splits)
  then show "m = b + ucast (recvPadding c)"
    by (simp add: b getMessageAddr_def recv_slot_def cur)
  have cur': "unat (curMessage ?c) = Suc g mod ?N"
    using N by (simp add: unat_add_round cur mod_Suc_eq)
  have same: "recv_slot ?c = recv_slot c" "recv_sub ?c = ?n" "recv_ready ?c = recv_ready c"
    "posted_upto ?c k = posted_upto c k" for k
    by (simp_all add: recv_slot_def fun_eq_iff recv_sub_def recv_ready_def pool_ok_def
        recv_batch_def posted_upto_def)
  have sub: "unat (subNR c) = ?n"
    using ready p by (simp add: recv_ready_def unat_of_nat)
  have boundary: "unat (curMessage ?c) mod unat (subNR ?c) = Suc g mod ?n"
    unfolding cur' using sub p(1) by (simp add: mod_mod_cancel)
  show "recv_at rq filled (c', s') (Suc g) d"
  proof (cases "Suc g mod ?n = 0")
    case False
    then have "c' = ?c" "s' = s1"
      using get boundary by (auto simp: getMessage_def Let_def)
    moreover have "posted_upto c (Suc g) = posted_upto c g"
      using div_Suc_boundary(2) [OF False] by (simp add: posted_upto_def)
    ultimately show ?thesis
      using cur' ready gd \<open>g < d\<close> r s1 fs unfolding recv_at_def by (simp add: same)
  next
    case True
    let ?q = "Suc (g div ?n)"
    note q = div_Suc_boundary(1) [OF True]
    have "Suc g mod ?N = ?n * (?q mod 4)"
      using block_mod [of 0 ?n ?q 4] p q by (simp add: kBatchCount_def)
    then have "repost_index (curMessage ?c) (word_of_nat ?n) = (?q mod 4 + 3) mod 4"
      using p cur' by (intro repost_index_eq) simp_all
    also have "\<dots> = (?q + 3) mod 4" by presburger
    finally have idx: "repost_index (curMessage ?c) (subNR ?c) = (?q + 3) mod 4"
      using ready by (simp add: recv_ready_def)
    have c': "c' = ?c" and s': "s' = post_batch post_recv (recv_batch c ?n ((?q + 3) mod 4)) s1"
      using get boundary True idx ready
      by (auto simp: getMessage_def Let_def recv_ready_def kBatchCount_def)
    have P: "posted_upto c g = ?n * (?q + 3)" "posted_upto c (Suc g) = ?n * (?q + 3) + ?n"
      using p(1) q by (simp_all add: posted_upto_def kBatchCount_def algebra_simps)
    have "rq s' = rq s1 @ map (recv_slot c) [posted_upto c g..<posted_upto c (Suc g)]"
      using laws recv_batch_slots [OF ok, of "?q + 3"]
      by (simp add: s' post_batch_def recv_queue_laws_def P)
    moreover have "[d..<posted_upto c g] @ [posted_upto c g..<posted_upto c (Suc g)]
        = [d..<posted_upto c (Suc g)]"
      using upt_add_eq_append [of d "posted_upto c g" ?n] gd(2) P by simp
    ultimately have "rq s' = map (recv_slot c) [d..<posted_upto c (Suc g)]"
      using r s1(1) by (metis map_append)
    moreover have "filled s' = fs"
      using laws s1(2) by (simp add: s' post_batch_def recv_queue_laws_def)
    ultimately show ?thesis
      using cur' ready gd \<open>g < d\<close> fs P unfolding recv_at_def by (simp add: same c')
  qed
qed

text \<open>The laws of the receive queue are part of the start condition, so the invariant carries them.\<close>

interpretation recv_sys: invariant_system
  "\<lambda>x. recv_queue_laws post_recv rq filled \<and> recv_start post_recv rq filled x"
  "recv_step post_recv rq filled"
  "\<lambda>x. recv_queue_laws post_recv rq filled \<and> recv_inv rq filled x"
  for post_recv :: "'s post_recv_fn" and rq filled
proof unfold_locales
  fix x :: "MsgConn \<times> 's"
  assume "recv_queue_laws post_recv rq filled \<and> recv_start post_recv rq filled x"
  then show "recv_queue_laws post_recv rq filled \<and> recv_inv rq filled x"
    using initRecv_at [of post_recv rq filled] unfolding recv_start_def recv_inv_def by blast
next
  fix x y :: "MsgConn \<times> 's"
  assume "recv_step post_recv rq filled x y" "recv_queue_laws post_recv rq filled \<and> recv_inv rq filled x"
  then show "recv_queue_laws post_recv rq filled \<and> recv_inv rq filled y"
  proof (induction rule: recv_step.induct)
    case (deliver s b bs s' c)
    then obtain g d where "recv_at rq filled (c, s) g d" by (auto simp: recv_inv_def)
    from deliver_at(1) [OF this deliver(1-3)] show ?case using deliver by (auto simp: recv_inv_def)
  next
    case (fetch s b fs s1 c m c' s')
    then obtain g d where "recv_at rq filled (c, s) g d" by (auto simp: recv_inv_def)
    from getMessage_at(1) [OF _ this fetch(1-4)] show ?case using fetch by (auto simp: recv_inv_def)
  qed
qed

lemma recv_reachable_inv:
  assumes "recv_queue_laws post_recv rq filled"
    and "reachable (recv_start post_recv rq filled) (recv_step post_recv rq filled) x"
  shows "recv_inv rq filled x"
  using recv_sys.reachable_inv [of post_recv rq filled x] assms by simp

text \<open>The buffers in flight are a window of the ring, so they are pairwise disjoint.\<close>

interpretation rpc_ring: slot_ring MESSAGE_SIZE RPC_QUEUE_SIZE
  by unfold_locales (simp_all add: MESSAGE_SIZE_def RPC_QUEUE_SIZE_def)

lemma recv_slots_disjoint:
  assumes "pool_ok c" "i < j" "j < i + unat (messageNR c)"
  shows "disjoint_bufs MESSAGE_SIZE (recv_slot c i) (recv_slot c j)"
proof -
  have "slot_ring MESSAGE_SIZE (unat (messageNR c))"
    by unfold_locales (use assms(1) in \<open>simp_all add: pool_ok_def MESSAGE_SIZE_def\<close>)
  from slot_ring.window_disjoint [OF this _ assms(2,3), of "messagePool c"] assms(1)
  show ?thesis by (simp add: recv_slot_def pool_ok_def)
qed

lemma posted_upto_bounds:
  assumes "pool_ok c"
  shows "g + unat (messageNR c) < posted_upto c g + recv_sub c"
    and "posted_upto c g \<le> g + unat (messageNR c)"
proof -
  note p = pool_ok_sub [OF assms]
  have "g = recv_sub c * (g div recv_sub c) + g mod recv_sub c" by simp
  moreover have "g mod recv_sub c < recv_sub c" using p(2) by simp
  ultimately show "g + unat (messageNR c) < posted_upto c g + recv_sub c"
    "posted_upto c g \<le> g + unat (messageNR c)"
    unfolding posted_upto_def by linarith+
qed

section \<open>Properties of the receive side\<close>

text \<open>
  C6. Messages are received in order and none is overwritten before it is taken. In every
  reachable state of the connection and its device, \<open>getMessage\<close> returns (behind the padding)
  the buffer that was filled first among those not yet taken; that buffer is disjoint from
  every other filled buffer and from every buffer posted for filling; and between three
  quarters of the pool and the whole pool is always filled or posted.
\<close>

theorem receive_in_order_without_overwrite:
  assumes laws: "recv_queue_laws post_recv rq filled"
    and reach: "reachable (recv_start post_recv rq filled) (recv_step post_recv rq filled) (c, s)"
    and f: "filled s = b # fs" and s1: "rq s1 = rq s" "filled s1 = fs"
    and get: "getMessage post_recv c s1 = (m, c', s')"
  shows "m = b + ucast (recvPadding c)
     \<and> (\<forall>x \<in> set fs \<union> set (rq s). disjoint_bufs MESSAGE_SIZE b x)
     \<and> length (filled s) + length (rq s) \<le> unat (messageNR c)
     \<and> unat (messageNR c) < length (filled s) + length (rq s) + unat (messageNR c) div kBatchCount"
proof -
  from recv_reachable_inv [OF laws reach] obtain g d where at: "recv_at rq filled (c, s) g d"
    by (auto simp: recv_inv_def)
  note gm = getMessage_at [OF laws at f s1 get]
  from at have ok: "pool_ok c" and gd: "g \<le> d" "d \<le> posted_upto c g"
    and r: "rq s = map (recv_slot c) [d..<posted_upto c g]"
    and fl: "filled s = map (recv_slot c) [g..<d]" by (auto simp: recv_at_def recv_ready_def)
  note pb = posted_upto_bounds [OF ok, of g]
  have "g < d" using fl f gd by (cases "g = d") auto
  then have fs: "fs = map (recv_slot c) [Suc g..<d]"
    using fl f by (simp add: upt_conv_Cons)
  have "disjoint_bufs MESSAGE_SIZE b x" if "x \<in> set fs \<union> set (rq s)" for x
  proof -
    from that obtain j where "x = recv_slot c j" "g < j" "j < posted_upto c g"
      using fs r \<open>g < d\<close> gd by auto
    then show ?thesis using recv_slots_disjoint [OF ok, of g j] pb gm(2) by simp
  qed
  moreover have "length (filled s) + length (rq s) = posted_upto c g - g"
    using r fl gd by simp
  ultimately show ?thesis using gm(3) gd pb unfolding recv_sub_def [symmetric] by auto
qed

text \<open>
  When a taken message can be overwritten. The buffer of the message that \<open>getMessage\<close>
  returns is posted again by the same call exactly when the message is the last of its
  batch; it is then the very last buffer of the receive queue, so the device fills every
  other posted buffer before it.
\<close>

theorem taken_buffer_reposted_iff:
  assumes laws: "recv_queue_laws post_recv rq filled"
    and reach: "reachable (recv_start post_recv rq filled) (recv_step post_recv rq filled) (c, s)"
    and f: "filled s = b # fs" and s1: "rq s1 = rq s" "filled s1 = fs"
    and get: "getMessage post_recv c s1 = (m, c', s')"
  shows "(b \<in> set (rq s') \<longleftrightarrow> unat (curMessage c') mod unat (subNR c') = 0)
     \<and> (b \<in> set (rq s') \<longrightarrow> last (rq s') = b \<and> b \<notin> set (butlast (rq s')))"
proof -
  from recv_reachable_inv [OF laws reach] obtain g d where at: "recv_at rq filled (c, s) g d"
    by (auto simp: recv_inv_def)
  note gm = getMessage_at [OF laws at f s1 get]
  from at have ok: "pool_ok c" and "g \<le> d" and fl: "filled s = map (recv_slot c) [g..<d]"
    by (auto simp: recv_at_def recv_ready_def)
  have "g < d" using fl f \<open>g \<le> d\<close> by (cases "g = d") auto
  have c': "recv_slot c' = recv_slot c" "posted_upto c' = posted_upto c" "recv_sub c' = recv_sub c"
    "messageNR c' = messageNR c"
    using get by (auto simp: getMessage_def Let_def recv_slot_def posted_upto_def recv_sub_def
        fun_eq_iff split: if_splits)
  note p = pool_ok_sub [OF ok]
  from gm(1) have r: "rq s' = map (recv_slot c) [d..<posted_upto c (Suc g)]"
    and dP: "d \<le> posted_upto c (Suc g)"
    and sub: "unat (subNR c') = recv_sub c" and cur: "unat (curMessage c') = Suc g mod unat (messageNR c)"
    using p by (auto simp: recv_at_def recv_ready_def c' unat_of_nat)
  have bound: "unat (curMessage c') mod unat (subNR c') = Suc g mod recv_sub c"
    unfolding cur sub using p(1) by (simp add: mod_mod_cancel)
  have other: "recv_slot c j \<noteq> b" if "g < j" "j < g + unat (messageNR c)" for j
    using recv_slots_disjoint [OF ok that] gm(2) by (auto simp: disjoint_bufs_def MESSAGE_SIZE_def)
  show ?thesis
  proof (cases "Suc g mod recv_sub c = 0")
    case True
    then have P: "posted_upto c (Suc g) = Suc (g + unat (messageNR c))"
      using div_Suc_boundary(1) [OF True] by (simp add: posted_upto_def)
    have lt: "d \<le> g + unat (messageNR c)"
      using at posted_upto_bounds(2) [OF ok, of g] by (auto simp: recv_at_def)
    have b: "recv_slot c (g + unat (messageNR c)) = b"
      using gm(2) by (simp add: recv_slot_def)
    have "rq s' = map (recv_slot c) [d..<g + unat (messageNR c)] @ [b]"
      using lt by (simp add: r P b)
    moreover have "b \<notin> set (map (recv_slot c) [d..<g + unat (messageNR c)])"
    proof
      assume "b \<in> set (map (recv_slot c) [d..<g + unat (messageNR c)])"
      then obtain j where "b = recv_slot c j" "d \<le> j" "j < g + unat (messageNR c)" by auto
      with other [of j] \<open>g < d\<close> show False by simp
    qed
    ultimately show ?thesis using True bound by simp
  next
    case False
    then have "posted_upto c (Suc g) = posted_upto c g"
      using div_Suc_boundary(2) by (simp add: posted_upto_def)
    have "b \<notin> set (rq s')"
    proof
      assume "b \<in> set (rq s')"
      then obtain j where "b = recv_slot c j" "d \<le> j" "j < posted_upto c g"
        using r \<open>posted_upto c (Suc g) = posted_upto c g\<close> by auto
      with other [of j] \<open>g < d\<close> posted_upto_bounds(2) [OF ok, of g] show False by simp
    qed
    then show ?thesis using False bound by simp
  qed
qed

section \<open>A concrete run\<close>

definition demo_post_recv :: "(u64 list \<times> u64 list) post_recv_fn" where
  "demo_post_recv wrs s = (0, fst s @ map (\<lambda>w. sge_addr (hd (rsg_list w))) wrs, snd s)"

definition demo_conn :: MsgConn where
  "demo_conn = \<lparr>conn_qp = 5, messageNR = 8, messagePool = 0x10000, messageLkey = 9, curMessage = 0,
     sendPool = 0x18000, curSend = 0, recvs = [], subNR = 0, sendCounter = 0, sendPadding = 0,
     recvPadding = 40\<rparr>"

definition demo_recv :: "MsgConn \<times> u64 list \<times> u64 list" where
  "demo_recv = (fst (initRecv demo_post_recv demo_conn ([], [])),
     [0x12000, 0x13000, 0x14000, 0x15000, 0x16000, 0x17000], [0x10000, 0x11000])"

lemma demo_post_recv_laws: "recv_queue_laws demo_post_recv fst snd"
  by (simp add: recv_queue_laws_def demo_post_recv_def)

lemma demo_initRecv: "snd (initRecv demo_post_recv demo_conn ([], []))
    = ([0x10000, 0x11000, 0x12000, 0x13000, 0x14000, 0x15000, 0x16000, 0x17000], [])"
proof -
  let ?r = "initRecv demo_post_recv demo_conn ([], [])"
  have "recv_at fst snd ?r 0 0"
    by (rule initRecv_at [OF demo_post_recv_laws])
      (simp_all add: pool_ok_def demo_conn_def kBatchCount_def MESSAGE_SIZE_def)
  moreover have "messageNR (fst ?r) = 8" "messagePool (fst ?r) = 0x10000"
    by (simp_all add: initRecv_def Let_def demo_conn_def)
  ultimately show ?thesis
    by (cases ?r) (simp add: recv_at_def posted_upto_def recv_sub_def kBatchCount_def recv_slot_def
        slot_addr_def MESSAGE_SIZE_def upt_rec)
qed

lemma demo_recv_reachable:
  "reachable (recv_start demo_post_recv fst snd) (recv_step demo_post_recv fst snd) demo_recv"
proof -
  let ?R = "reachable (recv_start demo_post_recv fst snd) (recv_step demo_post_recv fst snd)"
  let ?c = "fst (initRecv demo_post_recv demo_conn ([], []))"
  have "recv_start demo_post_recv fst snd (initRecv demo_post_recv demo_conn ([], []))"
    unfolding recv_start_def
    by (intro exI [of _ demo_conn] exI [of _ "([], [])"])
      (simp add: pool_ok_def demo_conn_def kBatchCount_def MESSAGE_SIZE_def)
  then have "?R (?c, [0x10000, 0x11000, 0x12000, 0x13000, 0x14000, 0x15000, 0x16000, 0x17000], [])"
    by (metis demo_initRecv prod.collapse reach_start)
  then have "?R (?c, [0x11000, 0x12000, 0x13000, 0x14000, 0x15000, 0x16000, 0x17000], [0x10000])"
    by (rule reach_step) (rule deliver, simp_all)
  then show ?thesis
    unfolding demo_recv_def by (rule reach_step) (intro deliver, simp_all)
qed

theorem receive_in_order_witness:
  "case getMessage demo_post_recv (fst demo_recv) (fst (snd demo_recv), [0x11000]) of
     (m, c', s') \<Rightarrow> m = 0x10028 \<and> disjoint_bufs MESSAGE_SIZE 0x10000 0x11000
       \<and> disjoint_bufs MESSAGE_SIZE 0x10000 0x17000"
proof -
  obtain m c' s' where get: "getMessage demo_post_recv (fst demo_recv) (fst (snd demo_recv), [0x11000]) = (m, c', s')"
    by (metis prod_cases3)
  have "recvPadding (fst demo_recv) = 40"
    by (simp add: demo_recv_def initRecv_def Let_def demo_conn_def)
  with receive_in_order_without_overwrite [OF demo_post_recv_laws, where c = "fst demo_recv" and s = "snd demo_recv"
      and b = "0x10000" and fs = "[0x11000]" and ?s1.0 = "(fst (snd demo_recv), [0x11000])"] demo_recv_reachable get
  show ?thesis by (simp add: demo_recv_def)
qed

theorem taken_buffer_reposted_witness:
  "case getMessage demo_post_recv (fst demo_recv) (fst (snd demo_recv), [0x11000]) of
     (m, c', s') \<Rightarrow> 0x10000 \<in> set (fst s') \<longleftrightarrow> unat (curMessage c') mod unat (subNR c') = 0"
proof -
  obtain m c' s' where get: "getMessage demo_post_recv (fst demo_recv) (fst (snd demo_recv), [0x11000]) = (m, c', s')"
    by (metis prod_cases3)
  with taken_buffer_reposted_iff [OF demo_post_recv_laws, where c = "fst demo_recv" and s = "snd demo_recv"
      and b = "0x10000" and fs = "[0x11000]" and ?s1.0 = "(fst (snd demo_recv), [0x11000])"] demo_recv_reachable
  show ?thesis by (simp add: demo_recv_def)
qed

definition demo_device :: "'s rdma_device" where
  "demo_device = \<lparr>dev_verbs = \<lparr>get_device_list = (\<lambda>s. (None, s)), free_device_list = (\<lambda>d s. s),
        open_device = (\<lambda>n s. (None, s)), close_device = (\<lambda>c s. (0, s)), query_port = (\<lambda>c p s. (0, 1)),
        query_gid = (\<lambda>c p i s. (0, [])), alloc_pd = (\<lambda>c s. (None, s)), dealloc_pd = (\<lambda>p s. (0, s))\<rparr>,
     dev_create_cq = (\<lambda>c n s. (Some 1, s)), dev_create_qp = (\<lambda>c a s. (Some \<lparr>qp_num = 9, qp_type = init_qp_type a\<rparr>, s)),
     dev_reg_mr = (\<lambda>p a l f s. (Some \<lparr>mr_lkey = 4, mr_rkey = 5\<rparr>, s)), dev_modify_qp = (\<lambda>q a m s. (0, s)),
     dev_page_alloc = (\<lambda>n s. (0x200000, s)), dev_create_ah = (\<lambda>p a s. (Some 6, s))\<rparr>"

end
