(* ===== verification/Message_Send.thy ===== *)
theory Message_Send
  imports Message_Connection
begin

text \<open>
  The send side of \<open>AbstractMessageConnection\<close> and \<open>RawMessageConnection\<close> together with its
  send queue and completion queue: buffers handed out by \<open>getSendPool\<close> while earlier sends are
  still in flight.
\<close>

section \<open>The send queue\<close>

definition signaled :: "ibv_send_wr \<Rightarrow> bool" where
  "signaled w \<longleftrightarrow> IBV_SEND_SIGNALED \<in> send_flags w"

text \<open>
  What the code relies on in an error-free device. \<open>sq\<close> lists every request ever posted,
  \<open>retired\<close> counts those the device is done with (in posting order), \<open>taken\<close> the completions
  handed out. Posting appends; polling only retires requests, hands out at most one
  completion, and never more completions than there are retired signaled requests.
\<close>

definition completions_due :: "('s \<Rightarrow> ibv_send_wr list) \<Rightarrow> ('s \<Rightarrow> nat) \<Rightarrow> 's \<Rightarrow> nat" where
  "completions_due sq retired s = length (filter signaled (take (retired s) (sq s)))"

definition sq_ok :: "('s \<Rightarrow> ibv_send_wr list) \<Rightarrow> ('s \<Rightarrow> nat) \<Rightarrow> ('s \<Rightarrow> nat) \<Rightarrow> 's \<Rightarrow> bool" where
  "sq_ok sq retired taken s \<longleftrightarrow>
     retired s \<le> length (sq s) \<and> taken s \<le> completions_due sq retired s"

definition send_post_laws ::
  "'s post_send_fn \<Rightarrow> ('s \<Rightarrow> ibv_send_wr list) \<Rightarrow> ('s \<Rightarrow> nat) \<Rightarrow> ('s \<Rightarrow> nat) \<Rightarrow> bool" where
  "send_post_laws post sq retired taken \<longleftrightarrow>
     (\<forall>q w s. sq (snd (post q [w] s)) = sq s @ [w] \<and> retired (snd (post q [w] s)) = retired s
            \<and> taken (snd (post q [w] s)) = taken s)"

definition send_poll_laws ::
  "'s poll_fn \<Rightarrow> ('s \<Rightarrow> ibv_send_wr list) \<Rightarrow> ('s \<Rightarrow> nat) \<Rightarrow> ('s \<Rightarrow> nat) \<Rightarrow> bool" where
  "send_poll_laws poll sq retired taken \<longleftrightarrow>
     poll_ok poll \<and>
     (\<forall>s k w s'. poll s = (k, w, s') \<longrightarrow> sq s' = sq s) \<and>
     (\<forall>s k w s'. poll s = (k, w, s') \<longrightarrow> sq_ok sq retired taken s \<longrightarrow>
        retired s \<le> retired s' \<and> taken s' = taken s + (if w = None then 0 else 1)
        \<and> sq_ok sq retired taken s')"

text \<open>One send as the callers of the connection do it: take a buffer, fill it, send it.\<close>

inductive send_step ::
  "'s post_send_fn \<Rightarrow> 's poll_fn \<Rightarrow> MsgConn \<times> 's \<Rightarrow> MsgConn \<times> 's \<Rightarrow> bool" for post poll where
  send: "getSendPool c = (a, c1) \<Longrightarrow>
     sendRawMessage post poll wc c1 a m remoteQPN ah s = Some (c', s') \<Longrightarrow>
     send_step post poll (c, s) (c', s')"
| send_with_data: "getSendPool c = (a, c1) \<Longrightarrow>
     sendRawMessageWithData post poll wc c1 a m data len data_lkey remoteQPN ah s = Some (m', c', s') \<Longrightarrow>
     send_step post poll (c, s) (c', s')"

definition send_start ::
  "('s \<Rightarrow> ibv_send_wr list) \<Rightarrow> ('s \<Rightarrow> nat) \<Rightarrow> ('s \<Rightarrow> nat) \<Rightarrow> MsgConn \<times> 's \<Rightarrow> bool" where
  "send_start sq retired taken x \<longleftrightarrow> (case x of (c, s) \<Rightarrow>
     curSend c = 0 \<and> sendCounter c = 0 \<and> 0 < unat (messageNR c)
     \<and> unat (sendPool c) + unat (messageNR c) * MESSAGE_SIZE \<le> 2 ^ 64
     \<and> sq s = [] \<and> retired s = 0 \<and> taken s = 0)"

section \<open>The invariant\<close>

definition send_slot :: "MsgConn \<Rightarrow> nat \<Rightarrow> u64" where
  "send_slot c i = slot_addr (sendPool c) MESSAGE_SIZE (i mod unat (messageNR c))"

definition wr_addr :: "ibv_send_wr \<Rightarrow> u64" where
  "wr_addr w = sge_addr (hd (sg_list w))"

text \<open>
  After \<open>n\<close> sends: send \<open>i\<close> used slot \<open>i mod messageNR\<close> and was signaled exactly when \<open>i\<close> is a
  multiple of 32; one completion was awaited before each of the sends 32, 64, and so on.
\<close>

definition send_inv ::
  "('s \<Rightarrow> ibv_send_wr list) \<Rightarrow> ('s \<Rightarrow> nat) \<Rightarrow> ('s \<Rightarrow> nat) \<Rightarrow> MsgConn \<times> 's \<Rightarrow> bool" where
  "send_inv sq retired taken x \<longleftrightarrow> (case x of (c, s) \<Rightarrow>
     0 < unat (messageNR c) \<and> unat (sendPool c) + unat (messageNR c) * MESSAGE_SIZE \<le> 2 ^ 64
     \<and> (length (sq s) < 2 ^ 64 \<longrightarrow>
          sendCounter c = word_of_nat (length (sq s))
          \<and> unat (curSend c) = length (sq s) mod unat (messageNR c)
          \<and> (\<forall>i < length (sq s). wr_addr (sq s ! i) = send_slot c i
               \<and> (signaled (sq s ! i) \<longleftrightarrow> i mod 32 = 0))
          \<and> sq_ok sq retired taken s \<and> taken s = (length (sq s) - 1) div 32))"

lemma count_signaled:
  assumes "\<forall>i < length ws. signaled (ws ! i) \<longleftrightarrow> i mod 32 = 0"
  shows "length (filter signaled ws) = (length ws + 31) div 32"
  using assms
proof (induction ws rule: rev_induct)
  case (snoc w ws)
  have "\<forall>i < length ws. signaled (ws ! i) \<longleftrightarrow> i mod 32 = 0"
    using snoc.prems by (metis length_append_singleton less_SucI nth_append_left)
  with snoc.IH have IH: "length (filter signaled ws) = (length ws + 31) div 32" by blast
  have "signaled w \<longleftrightarrow> length ws mod 32 = 0" using snoc.prems by (auto dest: spec [of _ "length ws"])
  moreover have "(Suc L + 31) div 32 = (if L mod 32 = 0 then Suc ((L + 31) div 32) else (L + 31) div 32)"
    for L :: nat
  proof -
    have "Suc (L + 31) mod 32 = L mod 32" using mod_add_self2 [of L 32] by simp
    then show ?thesis using div_Suc [of "L + 31" 32] by simp
  qed
  moreover have "length (filter signaled (ws @ [w]))
      = (if signaled w then Suc (length (filter signaled ws)) else length (filter signaled ws))"
    by simp
  moreover have "length (ws @ [w]) = Suc (length ws)" by simp
  ultimately show ?case using IH by metis
qed simp

lemma poll_count:
  "send_poll_laws poll sq retired taken \<Longrightarrow> poll s = (k, w, s') \<Longrightarrow> k = (if w = None then 0 else 1)"
  unfolding send_poll_laws_def poll_ok_def by blast

lemma poll_run:
  assumes laws: "send_poll_laws poll sq retired taken" and ok: "sq_ok sq retired taken s"
  shows "case turns poll m (0, wc, s) of (cnt, wc', s') \<Rightarrow>
     sq s' = sq s \<and> retired s \<le> retired s' \<and> sq_ok sq retired taken s'
     \<and> taken s \<le> taken s' \<and> cnt = int (taken s' - taken s)
     \<and> fst (poll_turn poll (cnt, wc', s')) \<le> cnt + 1"
proof (induction m)
  case 0
  obtain k w s' where p: "poll s = (k, w, s')" by (metis prod_cases3)
  moreover have "k \<le> 1" using poll_count [OF laws p] by simp
  ultimately show ?case using ok by simp
next
  case (Suc m)
  obtain cnt wc' s' where t: "turns poll m (0, wc, s) = (cnt, wc', s')" by (metis prod_cases3)
  obtain k w s2 where p: "poll s' = (k, w, s2)" by (metis prod_cases3)
  obtain k3 w3 s3 where p3: "poll s2 = (k3, w3, s3)" by (metis prod_cases3)
  have st: "sq s2 = sq s' \<and> retired s' \<le> retired s2 \<and> taken s2 = taken s' + (if w = None then 0 else 1)
        \<and> sq_ok sq retired taken s2"
    using laws p Suc t unfolding send_poll_laws_def by fastforce
  show ?case using Suc t p p3 poll_count [OF laws p] poll_count [OF laws p3] st by auto
qed

text \<open>Awaiting one completion takes exactly one.\<close>

lemma pollWithCQ_takes_one:
  assumes laws: "send_poll_laws poll sq retired taken" and ok: "sq_ok sq retired taken s"
    and run: "pollWithCQ poll 1 wc s = Some (ex, wc', s')"
  shows "sq s' = sq s \<and> sq_ok sq retired taken s' \<and> taken s' = Suc (taken s)"
proof -
  from run obtain cnt where "poll_loop poll 1 (0, wc, s) = Some (cnt, wc', s')"
    by (auto simp: pollWithCQ_def)
  from poll_loop_SomeD [OF this] obtain m where m: "stops_after poll 1 (0, wc, s) m"
    "turns poll m (0, wc, s) = (cnt, wc', s')" by metis
  then obtain i where i: "m = Suc i" by (cases m) (auto simp: stops_after_def)
  obtain cnt0 wc0 s0 where t: "turns poll i (0, wc, s) = (cnt0, wc0, s0)" by (metis prod_cases3)
  have "cnt0 < 1"
  proof (cases "i = 0")
    case True
    then show ?thesis using t by simp
  next
    case False
    then have "fst (turns poll i (0, wc, s)) < 1" using m(1) unfolding stops_after_def i by simp
    then show ?thesis by (simp add: t)
  qed
  moreover have "cnt \<le> cnt0 + 1" using poll_run [OF laws ok, of i wc] m(2) unfolding i by (auto simp: t split: prod.splits)
  moreover have "1 \<le> cnt" using m by (simp add: stops_after_def)
  ultimately show ?thesis using poll_run [OF laws ok, of m wc] m(2) by auto
qed

lemma signal_batch_mod: "n < 2 ^ 64 \<Longrightarrow> (word_of_nat n :: u64) AND SIGNAL_BATCH = 0 \<longleftrightarrow> n mod 32 = 0"
proof -
  assume n: "n < 2 ^ 64"
  have "(word_of_nat n :: u64) AND SIGNAL_BATCH = take_bit 5 (word_of_nat n)"
    by (simp add: SIGNAL_BATCH_def take_bit_eq_mask mask_eq_exp_minus_1)
  moreover have "unat (take_bit 5 (word_of_nat n :: u64)) = n mod 32"
  proof -
    have "unat (take_bit 5 (word_of_nat n :: u64)) = take_bit 5 (unat (word_of_nat n :: u64))"
      by (rule unsigned_take_bit_eq)
    also have "\<dots> = n mod 2 ^ 5" using n by (simp only: unat_of_nat take_bit_eq_mod) simp
    finally show ?thesis by simp
  qed
  ultimately show ?thesis by (metis unat_0 unat_eq_zero)
qed

text \<open>Both kinds of send take the same step.\<close>

lemma send_step_cases:
  assumes "send_step post poll (c, s) (c', s')"
  obtains wc s1 w where "await_signal poll wc c s = Some s1"
    "s' = snd (post (conn_qp c) [w] s1)"
    "wr_addr w = slot_addr (sendPool c) MESSAGE_SIZE (unat (curSend c))"
    "signaled w \<longleftrightarrow> sendCounter c AND SIGNAL_BATCH = 0"
    "c' = c\<lparr>curSend := add_round (curSend c) (messageNR c), sendCounter := sendCounter c + 1\<rparr>"
proof -
  note snd_post = rdmaSend_ud_def rdmaSend2Sge_def post_wr_def
  note wrs = ud_send_wr_def ud_send2_wr_def fillSgeWr_send_def zero_send_wr_def mk_sge_def
    signaled_def wr_addr_def Let_def
  show ?thesis
    using assms
  proof cases
    case (send a c1 wc m remoteQPN ah)
    let ?w = "ud_send_wr (a - ucast (sendPadding c1)) (word_of_nat (rpc_size m) + ucast (sendPadding c1))
      (messageLkey c1) ah remoteQPN (sendCounter c1 AND SIGNAL_BATCH = 0)"
    from send obtain s1 where aw: "await_signal poll wc c1 s = Some s1"
      and p: "s' = snd (post (conn_qp c1) [?w] s1)" and c': "c' = c1\<lparr>sendCounter := sendCounter c1 + 1\<rparr>"
      by (auto simp: sendRawMessage_def snd_post case_prod_unfold)
    show ?thesis
      by (rule that [of wc s1 ?w])
        (use send(1) aw p c' in \<open>auto simp: getSendPool_def await_signal_def wrs\<close>)
  next
    case (send_with_data a c1 wc m data len data_lkey remoteQPN ah m')
    let ?w = "ud_send2_wr (a - ucast (sendPadding c1)) (ucast (msg_size m) + ucast (sendPadding c1)) data
      (word_of_nat len) (messageLkey c1) data_lkey ah remoteQPN (sendCounter c1 AND SIGNAL_BATCH = 0)"
    from send_with_data obtain s1 where aw: "await_signal poll wc c1 s = Some s1"
      and p: "s' = snd (post (conn_qp c1) [?w] s1)" and c': "c' = c1\<lparr>sendCounter := sendCounter c1 + 1\<rparr>"
      by (auto simp: sendRawMessageWithData_def snd_post case_prod_unfold)
    show ?thesis
      by (rule that [of wc s1 ?w])
        (use send_with_data(1) aw p c' in \<open>auto simp: getSendPool_def await_signal_def wrs\<close>)
  qed
qed

lemma await_sq:
  assumes "send_poll_laws poll sq retired taken" "await_signal poll wc c s = Some s1"
  shows "sq s1 = sq s"
proof -
  have "sq (snd (snd (turns poll m x))) = sq (snd (snd x))" for m x
  proof (induction m)
    case (Suc m)
    obtain cnt w u where t: "turns poll m x = (cnt, w, u)" by (metis prod_cases3)
    obtain k w' u' where "poll u = (k, w', u')" by (metis prod_cases3)
    with assms(1) t Suc show ?case unfolding send_poll_laws_def by auto
  qed simp
  then show ?thesis
    using assms(2) by (auto simp: await_signal_def pollWithCQ_def split: if_splits dest!: poll_loop_SomeD)
      (metis snd_conv)
qed

lemma await_taken:
  assumes poll: "send_poll_laws poll sq retired taken" and ok: "sq_ok sq retired taken s"
    and aw: "await_signal poll wc c s = Some s1"
    and n: "sendCounter c = word_of_nat n" "n < 2 ^ 64" "taken s = (n - 1) div 32"
  shows "sq_ok sq retired taken s1 \<and> taken s1 = n div 32"
proof (cases "n mod 32 = 0 \<and> 0 < n")
  case True
  have "0 < (word_of_nat n :: u64)"
    using True n(2) by (simp add: word_less_nat_alt unat_of_nat)
  then obtain ex wc' where "pollWithCQ poll 1 wc s = Some (ex, wc', s1)"
    using aw n(1) True signal_batch_mod [OF n(2)] by (auto simp: await_signal_def)
  from pollWithCQ_takes_one [OF poll ok this] show ?thesis
    using True n(3) div_Suc [of "n - 1" 32] by simp
next
  case False
  then have "s1 = s"
    using aw n(1) signal_batch_mod [OF n(2)] by (auto simp: await_signal_def split: if_splits)
  moreover have "(n - 1) div 32 = n div 32"
    using False div_Suc [of "n - 1" 32] by (cases n) auto
  ultimately show ?thesis using ok n(3) by simp
qed

lemma send_step_inv:
  assumes post: "send_post_laws post sq retired taken" and poll: "send_poll_laws poll sq retired taken"
    and step: "send_step post poll (c, s) (c', s')" and inv: "send_inv sq retired taken (c, s)"
  shows "send_inv sq retired taken (c', s')"
proof -
  from step obtain wc s1 w where aw: "await_signal poll wc c s = Some s1"
    and s': "s' = snd (post (conn_qp c) [w] s1)"
    and w: "wr_addr w = slot_addr (sendPool c) MESSAGE_SIZE (unat (curSend c))"
      "signaled w \<longleftrightarrow> sendCounter c AND SIGNAL_BATCH = 0"
    and c': "c' = c\<lparr>curSend := add_round (curSend c) (messageNR c), sendCounter := sendCounter c + 1\<rparr>"
    by (rule send_step_cases)
  let ?n = "length (sq s)" and ?N = "unat (messageNR c)"
  from inv have N: "0 < ?N" "unat (sendPool c) + ?N * MESSAGE_SIZE \<le> 2 ^ 64" by (auto simp: send_inv_def)
  have slot: "send_slot c' = send_slot c" by (simp add: c' send_slot_def fun_eq_iff)
  have P: "sq s' = sq s1 @ [w]" "retired s' = retired s1" "taken s' = taken s1"
    using post by (simp_all add: s' send_post_laws_def)
  show ?thesis
    unfolding send_inv_def prod.case
  proof (intro conjI impI)
    show "0 < unat (messageNR c')" "unat (sendPool c') + unat (messageNR c') * MESSAGE_SIZE \<le> 2 ^ 64"
      using N by (simp_all add: c')
    assume "length (sq s') < 2 ^ 64"
    moreover have sq1: "sq s1 = sq s"
      using aw await_sq [OF poll] by blast
    ultimately have n: "?n < 2 ^ 64" and len: "length (sq s') = Suc ?n" using P by simp_all
    from inv n have I: "sendCounter c = word_of_nat ?n" "unat (curSend c) = ?n mod ?N"
      "\<forall>i < ?n. wr_addr (sq s ! i) = send_slot c i \<and> (signaled (sq s ! i) \<longleftrightarrow> i mod 32 = 0)"
      "sq_ok sq retired taken s" "taken s = (?n - 1) div 32"
      by (simp_all add: send_inv_def)
    have ok1: "sq_ok sq retired taken s1" "taken s1 = ?n div 32"
      using await_taken [OF poll I(4) aw I(1) n I(5)] by simp_all
    show "sendCounter c' = word_of_nat (length (sq s'))" by (simp add: c' I(1) len)
    show "unat (curSend c') = length (sq s') mod unat (messageNR c')"
      using N(1) by (simp add: c' unat_add_round I(2) len mod_Suc_eq)
    show "taken s' = (length (sq s') - 1) div 32" using ok1(2) by (simp add: P len sq1)
    show "sq_ok sq retired taken s'"
      using ok1(1) by (simp add: sq_ok_def completions_due_def P)
    show "\<forall>i < length (sq s'). wr_addr (sq s' ! i) = send_slot c' i \<and> (signaled (sq s' ! i) \<longleftrightarrow> i mod 32 = 0)"
      using I(1-3) w signal_batch_mod [OF n]
      by (auto simp: P sq1 slot nth_append less_Suc_eq send_slot_def)
  qed
qed

interpretation send_sys: invariant_system
  "\<lambda>x. send_post_laws post sq retired taken \<and> send_poll_laws poll sq retired taken \<and> send_start sq retired taken x"
  "send_step post poll"
  "\<lambda>x. send_post_laws post sq retired taken \<and> send_poll_laws poll sq retired taken \<and> send_inv sq retired taken x"
  for post :: "'s post_send_fn" and poll sq retired taken
proof unfold_locales
  fix x :: "MsgConn \<times> 's"
  assume "send_post_laws post sq retired taken \<and> send_poll_laws poll sq retired taken \<and> send_start sq retired taken x"
  then show "send_post_laws post sq retired taken \<and> send_poll_laws poll sq retired taken \<and> send_inv sq retired taken x"
    by (auto simp: send_start_def send_inv_def sq_ok_def)
next
  fix x y :: "MsgConn \<times> 's"
  assume "send_step post poll x y"
    "send_post_laws post sq retired taken \<and> send_poll_laws poll sq retired taken \<and> send_inv sq retired taken x"
  then show "send_post_laws post sq retired taken \<and> send_poll_laws poll sq retired taken \<and> send_inv sq retired taken y"
    using send_step_inv [of post sq retired taken poll "fst x" "snd x" "fst y" "snd y"] by simp
qed

text \<open>Fewer than 64 requests are in flight, so the next send buffer is not among them.\<close>

lemma send_inv_flight:
  assumes "send_inv sq retired taken (c, s)" "length (sq s) < 2 ^ 64"
  shows "length (sq s) < retired s + 64" and "retired s \<le> length (sq s)"
    and "i < length (sq s) \<Longrightarrow> wr_addr (sq s ! i) = send_slot c i"
    and "unat (curSend c) = length (sq s) mod unat (messageNR c)"
proof -
  let ?n = "length (sq s)"
  from assms have wrs: "\<forall>i < ?n. wr_addr (sq s ! i) = send_slot c i \<and> (signaled (sq s ! i) \<longleftrightarrow> i mod 32 = 0)"
    and ok: "sq_ok sq retired taken s" and tk: "taken s = (?n - 1) div 32"
    and cur: "unat (curSend c) = ?n mod unat (messageNR c)"
    by (simp_all add: send_inv_def)
  show "retired s \<le> ?n" using ok by (simp add: sq_ok_def)
  then have "completions_due sq retired s = (retired s + 31) div 32"
    using count_signaled [of "take (retired s) (sq s)"] wrs by (simp add: completions_due_def)
  then have "(?n - 1) div 32 \<le> (retired s + 31) div 32" using ok tk by (simp add: sq_ok_def)
  then show "?n < retired s + 64" by (simp add: div_le_mono less_eq_div_iff_mult_less_eq)
  show "wr_addr (sq s ! i) = send_slot c i" if "i < ?n" using wrs that by blast
  show "unat (curSend c) = ?n mod unat (messageNR c)" by (rule cur)
qed

section \<open>Properties of the send side\<close>

text \<open>
  C7. A send buffer is free when it is handed out. With at least 64 buffers, in every state
  reached by sends (fewer than \<open>2 ^ 64\<close> of them) on an error-free device, the buffer that
  \<open>getSendPool\<close> returns overlaps no request the device is not done with; fewer than 64
  requests are in flight and at most one completion waits in the completion queue, so its
  128 entries are enough.
\<close>

theorem send_buffer_not_in_flight:
  assumes post: "send_post_laws post sq retired taken" and poll: "send_poll_laws poll sq retired taken"
    and reach: "reachable (send_start sq retired taken) (send_step post poll) (c, s)"
    and few: "length (sq s) < 2 ^ 64" and nr: "64 \<le> unat (messageNR c)"
  shows "(\<forall>i < length (sq s). retired s \<le> i \<longrightarrow>
            disjoint_bufs MESSAGE_SIZE (fst (getSendPool c) - ucast (sendPadding c)) (wr_addr (sq s ! i)))
     \<and> length (sq s) - retired s < 64
     \<and> length (filter signaled (sq s)) \<le> taken s + 1"
proof -
  let ?n = "length (sq s)" and ?N = "unat (messageNR c)"
  have "send_inv sq retired taken (c, s)"
    using send_sys.reachable_inv [of post sq retired taken poll "(c, s)"] post poll reach by simp
  note inv = this
  with few have pool: "unat (sendPool c) + ?N * MESSAGE_SIZE \<le> 2 ^ 64" and tk: "taken s = (?n - 1) div 32"
    and wrs: "\<forall>i < ?n. wr_addr (sq s ! i) = send_slot c i \<and> (signaled (sq s ! i) \<longleftrightarrow> i mod 32 = 0)"
    by (simp_all add: send_inv_def)
  note flight = send_inv_flight(1) [OF inv few] and cur = send_inv_flight(4) [OF inv few]
  have "length (filter signaled (sq s)) \<le> taken s + 1"
    using count_signaled [of "sq s"] wrs tk by (cases ?n) auto
  moreover have "disjoint_bufs MESSAGE_SIZE (fst (getSendPool c) - ucast (sendPadding c)) (wr_addr (sq s ! i))"
    if "i < ?n" "retired s \<le> i" for i
  proof -
    have "slot_ring MESSAGE_SIZE ?N"
      by unfold_locales (use nr in \<open>simp_all add: MESSAGE_SIZE_def\<close>)
    from slot_ring.window_disjoint [OF this pool, of i ?n] that flight nr
    have "disjoint_bufs MESSAGE_SIZE (send_slot c i) (send_slot c ?n)" by (simp add: send_slot_def)
    then show ?thesis using that wrs
      by (auto simp: getSendPool_def cur send_slot_def disjoint_bufs_def)
  qed
  ultimately show ?thesis using flight by auto
qed

text \<open>
  \<open>sendRawMessageWithData\<close> does not send the whole message: the gathered entries are
  six bytes (the header of \<open>RpcMessage\<close>) shorter than the size that the message announces,
  and the first one ends six bytes before the end of the payload.
\<close>

theorem send_with_data_omits_header:
  assumes await: "await_signal poll wc c s = Some s1"
    and fits: "unat (msg_size m) + len < 2 ^ 16" and pad: "sendPadding c = 0"
  shows "\<exists>m' c' w. sendRawMessageWithData post poll wc c a m data len lk qpn ah s
           = Some (m', c', snd (post (conn_qp c) [w] s1))
     \<and> sum_list (map (\<lambda>g. unat (sge_length g)) (sg_list w)) + 6 = rpc_size m'
     \<and> unat (sge_length (hd (sg_list w))) = unat (msg_size m)"
proof -
  let ?w = "ud_send2_wr a (ucast (msg_size m)) data (word_of_nat len) (messageLkey c) lk ah qpn
      (sendCounter c AND SIGNAL_BATCH = 0)"
  have small: "unat (msg_size m) < 2 ^ 16" "len < 2 ^ 16" using fits by simp_all
  then have "map (\<lambda>g. unat (sge_length g)) (sg_list ?w) = [unat (msg_size m), len]"
  proof -
    have "unat (ucast (word_of_nat len :: u64) :: u32) = len"
      using small(2) by (simp add: unsigned_ucast_eq unat_of_nat take_bit_nat_eq_self_iff)
    then show ?thesis by (simp add: ud_send2_wr_def mk_sge_def zero_send_wr_def Let_def)
  qed
  moreover have "unat (msg_size m + word_of_nat len) = unat (msg_size m) + len"
    using fits by (simp add: unat_word_ariths unat_of_nat)
  ultimately show ?thesis
    using await pad
    by (auto simp: sendRawMessageWithData_def rdmaSend2Sge_def post_wr_def case_prod_unfold
        rpc_size_def sizeof_RpcMessage_def intro!: exI [of _ ?w])
qed

section \<open>A concrete run of sends\<close>

text \<open>A device with the posted requests, the number retired and the completions taken; each poll retires one.\<close>

type_synonym demo_sq = "ibv_send_wr list \<times> nat \<times> nat"

definition demo_send_post :: "demo_sq post_send_fn" where
  "demo_send_post qp ws s = (0, fst s @ ws, snd s)"

definition demo_send_poll :: "demo_sq poll_fn" where
  "demo_send_poll s = (case s of (l, r, t) \<Rightarrow>
     let r' = (if r < length l then r + 1 else r)
     in if t < length (filter signaled (take r' l))
        then (1, Some (demo_wc 0 IBV_WC_SUCCESS), l, r', t + 1) else (0, None, l, r', t))"

definition demo_msg :: RpcMessage where
  "demo_msg = \<lparr>magic = 0, rtype = 1, node_id = 0, t_id = 0, msg_size = 4, msg = [1, 2, 3, 4]\<rparr>"

definition demo_send_conn :: MsgConn where
  "demo_send_conn = \<lparr>conn_qp = 5, messageNR = 128, messagePool = 0x10000, messageLkey = 9, curMessage = 0,
     sendPool = 0x90000, curSend = 0, recvs = [], subNR = 0, sendCounter = 0, sendPadding = 0,
     recvPadding = 40\<rparr>"

definition demo_sent :: "MsgConn \<times> demo_sq" where
  "demo_sent = the (sendRawMessage demo_send_post demo_send_poll (demo_wc 0 IBV_WC_SUCCESS)
     (snd (getSendPool demo_send_conn)) (fst (getSendPool demo_send_conn)) demo_msg 7 8 ([], 0, 0))"

lemma demo_post_laws: "send_post_laws demo_send_post fst (fst \<circ> snd) (snd \<circ> snd)"
  by (simp add: send_post_laws_def demo_send_post_def)

lemma demo_poll_laws: "send_poll_laws demo_send_poll fst (fst \<circ> snd) (snd \<circ> snd)"
  unfolding send_poll_laws_def poll_ok_def
proof (intro conjI allI impI)
  fix s k w s' assume p: "demo_send_poll s = (k, w, s')"
  obtain l r t where s: "s = (l, r, t)" by (metis prod_cases3)
  show "k = (if w = None then 0 else 1)" "fst s' = fst s"
    using p by (auto simp: demo_send_poll_def s Let_def split: if_splits)
  assume "sq_ok fst (fst \<circ> snd) (snd \<circ> snd) s"
  then have ok: "r \<le> length l" "t \<le> length (filter signaled (take r l))"
    by (simp_all add: s sq_ok_def completions_due_def)
  have "length (filter signaled (take r l)) \<le> length (filter signaled (take (Suc r) l))"
    by (cases "r < length l") (simp_all add: take_Suc_conv_app_nth)
  with ok p show "(fst \<circ> snd) s \<le> (fst \<circ> snd) s'" "(snd \<circ> snd) s' = (snd \<circ> snd) s + (if w = None then 0 else 1)"
    "sq_ok fst (fst \<circ> snd) (snd \<circ> snd) s'"
    by (auto simp: demo_send_poll_def s Let_def sq_ok_def completions_due_def split: if_splits)
qed

lemma demo_sent_eq:
  "sendRawMessage demo_send_post demo_send_poll (demo_wc 0 IBV_WC_SUCCESS)
     (snd (getSendPool demo_send_conn)) (fst (getSendPool demo_send_conn)) demo_msg 7 8 ([], 0, 0)
   = Some demo_sent"
  by (simp add: demo_sent_def sendRawMessage_def await_signal_def getSendPool_def demo_send_conn_def)

lemma demo_sent_reachable:
  "reachable (send_start fst (fst \<circ> snd) (snd \<circ> snd)) (send_step demo_send_post demo_send_poll) demo_sent"
proof -
  have "send_start fst (fst \<circ> snd) (snd \<circ> snd) (demo_send_conn, [], 0, 0)"
    by (simp add: send_start_def demo_send_conn_def MESSAGE_SIZE_def)
  moreover have "send_step demo_send_post demo_send_poll (demo_send_conn, [], 0, 0) (fst demo_sent, snd demo_sent)"
    by (rule send [where a = "fst (getSendPool demo_send_conn)" and ?c1.0 = "snd (getSendPool demo_send_conn)"
          and m = demo_msg and wc = "demo_wc 0 IBV_WC_SUCCESS" and remoteQPN = 7 and ah = 8])
      (simp_all add: demo_sent_eq)
  ultimately show ?thesis by (auto intro: reach_start reach_step)
qed

lemma demo_sent_state:
  "fst (snd demo_sent) = [ud_send_wr 0x90000 10 9 8 7 True]" "fst (snd (snd demo_sent)) = 0"
  "messageNR (fst demo_sent) = 128" "sendPadding (fst demo_sent) = 0"
  by (simp_all add: demo_sent_def sendRawMessage_def await_signal_def getSendPool_def
      demo_send_conn_def demo_send_post_def rdmaSend_ud_def post_wr_def slot_addr_def demo_msg_def
      rpc_size_def sizeof_RpcMessage_def)

theorem send_buffer_not_in_flight_witness:
  "disjoint_bufs MESSAGE_SIZE (fst (getSendPool (fst demo_sent))) (wr_addr (fst (snd demo_sent) ! 0))"
  using send_buffer_not_in_flight [OF demo_post_laws demo_poll_laws, of "fst demo_sent" "snd demo_sent"]
    demo_sent_reachable by (simp add: demo_sent_state)

theorem send_with_data_omits_header_witness:
  "\<exists>m' c' s'. sendRawMessageWithData demo_send_post demo_send_poll (demo_wc 0 IBV_WC_SUCCESS)
     demo_send_conn 0x90000 demo_msg 0x5000 100 3 7 8 ([], 0, 0) = Some (m', c', s') \<and> rpc_size m' = 110"
proof -
  have "await_signal demo_send_poll (demo_wc 0 IBV_WC_SUCCESS) demo_send_conn ([], 0, 0) = Some ([], 0, 0)"
    by (simp add: await_signal_def demo_send_conn_def)
  from send_with_data_omits_header [OF this, where m = demo_msg and len = 100 and post = demo_send_post
      and a = "0x90000" and data = "0x5000" and lk = 3 and qpn = 7 and ah = 8]
  obtain m' c' w where r: "sendRawMessageWithData demo_send_post demo_send_poll (demo_wc 0 IBV_WC_SUCCESS)
     demo_send_conn 0x90000 demo_msg 0x5000 100 3 7 8 ([], 0, 0)
      = Some (m', c', snd (demo_send_post (conn_qp demo_send_conn) [w] ([], 0, 0)))"
    by (auto simp: demo_msg_def demo_send_conn_def)
  then have "rpc_size m' = 110"
    by (auto simp: sendRawMessageWithData_def rpc_size_def sizeof_RpcMessage_def demo_msg_def)
  with r show ?thesis by blast
qed

section \<open>A constructed connection is ready\<close>

text \<open>
  A connection built by \<open>RawMessageConnection\<close> with the queue size of the repository meets
  what the receive and the send side start from: provided its block lies in the address space,
  both pools fit, the counters are zero, there are at least 64 buffers, and no receive buffer
  overlaps a send buffer.
\<close>

theorem raw_connection_ready:
  assumes mk: "mk_RawMessageConnection dev context cq (word_of_nat RPC_QUEUE_SIZE) s = Some (c, s')"
    and room: "unat (messagePool c) + unat (msg_pool_bytes (word_of_nat RPC_QUEUE_SIZE)) \<le> 2 ^ 64"
  shows "pool_ok c \<and> curMessage c = 0 \<and> curSend c = 0 \<and> sendCounter c = 0
     \<and> unat (messageNR c) = RPC_QUEUE_SIZE \<and> sendPadding c = 0 \<and> recvPadding c = 40
     \<and> unat (sendPool c) + unat (messageNR c) * MESSAGE_SIZE \<le> 2 ^ 64
     \<and> (\<forall>i j. disjoint_bufs MESSAGE_SIZE (recv_slot c i) (send_slot c j))"
proof -
  from mk have f: "messageNR c = 128" "curMessage c = 0" "curSend c = 0" "sendCounter c = 0"
    "sendPool c = messagePool c + 0x80000" "sendPadding c = 0" "recvPadding c = 40"
    by (auto simp: mk_RawMessageConnection_def mk_MsgConn_def RPC_QUEUE_SIZE_def MESSAGE_SIZE_def Let_def
        case_prod_unfold bind_eq_Some_conv split: if_splits)
  have room': "unat (messagePool c) + 0x100000 \<le> 2 ^ 64"
    using room by (simp add: msg_pool_bytes_def RPC_QUEUE_SIZE_def MESSAGE_SIZE_def)
  then have sp: "unat (sendPool c) = unat (messagePool c) + 0x80000"
    by (simp add: f unat_word_ariths)
  have "disjoint_bufs MESSAGE_SIZE (recv_slot c i) (send_slot c j)" for i j
  proof -
    have i: "i mod 128 < 128" "j mod 128 < (128 :: nat)" by simp_all
    have "unat (recv_slot c i) + MESSAGE_SIZE \<le> unat (messagePool c) + 128 * MESSAGE_SIZE"
      using rpc_ring.slot_in_region(2) [of "messagePool c" "i mod 128"] room' i
      by (simp add: recv_slot_def f RPC_QUEUE_SIZE_def MESSAGE_SIZE_def)
    moreover have "unat (sendPool c) \<le> unat (send_slot c j)"
      using rpc_ring.slot_in_region(1) [of "sendPool c" "j mod 128"] room' sp i
      by (simp add: send_slot_def f RPC_QUEUE_SIZE_def MESSAGE_SIZE_def)
    ultimately show ?thesis using sp by (simp add: disjoint_bufs_def MESSAGE_SIZE_def)
  qed
  then show ?thesis
    using f sp room' by (simp add: pool_ok_def kBatchCount_def RPC_QUEUE_SIZE_def MESSAGE_SIZE_def)
qed

theorem raw_connection_ready_witness:
  "\<exists>c s'. mk_RawMessageConnection demo_device demo_ctx 3 (word_of_nat RPC_QUEUE_SIZE) () = Some (c, s')
     \<and> pool_ok c \<and> disjoint_bufs MESSAGE_SIZE (recv_slot c 127) (send_slot c 0)"
proof -
  have "\<exists>c s'. mk_RawMessageConnection demo_device demo_ctx 3 (word_of_nat RPC_QUEUE_SIZE) () = Some (c, s')
      \<and> messagePool c = 0x200000"
    by (simp add: mk_RawMessageConnection_def mk_MsgConn_def demo_device_def createQueuePair_def
        createMemoryRegion_def RPC_QUEUE_SIZE_def kBatchCount_def Let_def case_prod_unfold)
  then obtain c s' where c: "mk_RawMessageConnection demo_device demo_ctx 3 (word_of_nat RPC_QUEUE_SIZE) () = Some (c, s')"
    "messagePool c = 0x200000" by blast
  have "unat (messagePool c) + unat (msg_pool_bytes (word_of_nat RPC_QUEUE_SIZE)) \<le> 2 ^ 64"
    by (simp add: c(2) msg_pool_bytes_def RPC_QUEUE_SIZE_def MESSAGE_SIZE_def)
  with raw_connection_ready [OF c(1)] c(1) show ?thesis by blast
qed

end
