(* ===== verification/Node_Connect.thy ===== *)
theory Node_Connect
  imports Message_Connection RC_Mapping
begin

text \<open>
  \<open>ThreadConnection\<close> and \<open>DirectoryConnection\<close> (\<open>src/dsm\<close>): the queue pairs of a node. Thread
  \<open>t\<close> of a node has, for every node \<open>k\<close> of the cluster, one queue pair towards its target
  directory; directory \<open>d\<close> has one queue pair for each thread of each node that it serves.
  Queue pairs that do not exist are null pointers (\<open>None\<close> in the tables).
\<close>

record RemoteConnection =
  dsmBase :: u64
  dsmRKey :: "u32 list"
  appMessageQPN :: "u32 list"
  appAh :: "u64 list"

record ThreadConnection =
  threadID :: u16
  target_dirID :: u16
  th_ctx :: RdmaContext
  th_cq :: u64
  th_ud_cq :: u64
  message :: MsgConn
  qp_data :: "ibv_qp option list list"
  th_cachePool :: u64
  cacheLKey :: u32

record DirectoryConnection =
  dirID :: u16
  dir_ctx :: RdmaContext
  dir_cq :: u64
  srq :: u64
  data2app :: "ibv_qp option list list"
  dsmMR :: ibv_mr
  dsmPool :: u64
  dsmSize :: u64
  dir_cachePool :: u64
  dir_cacheSize :: u64
  dir_cacheLKey :: u32

section \<open>Creating queue pairs\<close>

text \<open>A loop that creates one entry per index, in order.\<close>

fun create_each :: "('k \<Rightarrow> 's \<Rightarrow> 'a \<times> 's) \<Rightarrow> 'k list \<Rightarrow> 's \<Rightarrow> 'a list \<times> 's" where
  "create_each f [] s = ([], s)"
| "create_each f (k # ks) s =
     (let (a, s) = f k s; (as, s) = create_each f ks s in (a # as, s))"

text \<open>
  An RC queue pair with the default depth 1024 and inline size; whether the creation succeeded
  is not looked at, a failure leaves a null pointer.
\<close>

definition new_rc_qp :: "'s rdma_device \<Rightarrow> u64 \<Rightarrow> RdmaContext \<Rightarrow> u32 \<Rightarrow> u64 \<Rightarrow> 's \<Rightarrow> ibv_qp option \<times> 's" where
  "new_rc_qp dev cq context depth srq0 s =
     snd (createQueuePair1 (dev_create_qp dev) IBV_QPT_RC cq context depth srq0 (word_of_nat kMaxInlineData) s)"

definition thread_qps ::
  "'s rdma_device \<Rightarrow> u64 \<Rightarrow> RdmaContext \<Rightarrow> u16 \<Rightarrow> u32 \<Rightarrow> 's \<Rightarrow> ibv_qp option list list \<times> 's" where
  "thread_qps dev cq context target machineNR s =
     create_each (\<lambda>i. create_each (\<lambda>k s. if i = unat target then new_rc_qp dev cq context 1024 0 s else (None, s))
                        [0..<unat machineNR])
       [0..<NR_DIRECTORY] s"

text \<open>
  The constructor of a thread's connection. \<open>None\<close> is the use of a null memory region or queue
  pair, or a lookup outside the mapping.
\<close>

definition mk_ThreadConnection ::
  "'s rdma_device \<Rightarrow> u16 \<Rightarrow> u16 \<Rightarrow> u64 \<Rightarrow> u64 \<Rightarrow> u32 \<Rightarrow> string \<Rightarrow> RCMapping \<Rightarrow> 's
     \<Rightarrow> (ThreadConnection \<times> 's) option" where
  "mk_ThreadConnection dev node thread cachePool cacheSize machineNR nic rc_mapping s =
     (let (_, context, s) = createContext (dev_verbs dev) RdmaContext_mk nic 1 3 s;
          (cq, s) = dev_create_cq dev (ctx_handle context) RPC_QUEUE_SIZE s;
          (ud_cq, s) = dev_create_cq dev (ctx_handle context) RPC_QUEUE_SIZE s
      in Option.bind (mk_RawMessageConnection dev context (ptr ud_cq) (word_of_nat RPC_QUEUE_SIZE) s) (\<lambda>(m, s).
           let (mr, s) = createMemoryRegion (dev_reg_mr dev) cachePool cacheSize context s
           in Option.bind mr (\<lambda>mr.
                map_option (\<lambda>target.
                  let (qps, s) = thread_qps dev (ptr cq) context target machineNR s
                  in (\<lparr>threadID = thread, target_dirID = target, th_ctx = context, th_cq = ptr cq,
                       th_ud_cq = ptr ud_cq, message = m, qp_data = qps, th_cachePool = cachePool,
                       cacheLKey = mr_lkey mr\<rparr>, s))
                  (get_target_dir_id rc_mapping node thread))))"

text \<open>The directory fills the table of null pointers for the threads of its list.\<close>

fun client_qps ::
  "'s rdma_device \<Rightarrow> u64 \<Rightarrow> RdmaContext \<Rightarrow> u64 \<Rightarrow> (u16 \<times> u16) list \<Rightarrow> ibv_qp option list list \<Rightarrow> 's
     \<Rightarrow> ibv_qp option list list \<times> 's" where
  "client_qps dev cq context srq0 [] tab s = (tab, s)"
| "client_qps dev cq context srq0 ((node, thread) # cs) tab s =
     (let (qp, s) = new_rc_qp dev cq context (word_of_nat RPC_QUEUE_SIZE) srq0 s
      in client_qps dev cq context srq0 cs
           (tab[unat thread := (tab ! unat thread)[unat node := qp]]) s)"

definition mk_DirectoryConnection ::
  "'s rdma_device \<Rightarrow> ('s \<Rightarrow> RdmaContext \<Rightarrow> (u64 option \<times> 's) option) \<Rightarrow> u16 \<Rightarrow> u64 \<Rightarrow> u64 \<Rightarrow> u32 \<Rightarrow> u64 \<Rightarrow> u64
     \<Rightarrow> string \<Rightarrow> RCMapping \<Rightarrow> 's \<Rightarrow> (DirectoryConnection \<times> 's) option" where
  "mk_DirectoryConnection dev mp_srq dir pool sz machineNR cachePool cacheSize nic rc_mapping s =
     (let (_, context, s) = createContext (dev_verbs dev) RdmaContext_mk nic 1 3 s;
          (cq, s) = dev_create_cq dev (ctx_handle context) RPC_QUEUE_SIZE s;
          (dmr, s) = createMemoryRegion (dev_reg_mr dev) pool sz context s
      in Option.bind dmr (\<lambda>dmr.
           let (cmr, s) = createMemoryRegion (dev_reg_mr dev) cachePool cacheSize context s
           in Option.bind cmr (\<lambda>cmr.
                Option.bind (mp_srq s context) (\<lambda>(q, s).
                  map_option (\<lambda>cs.
                    let (tab, s) = client_qps dev (ptr cq) context (ptr q) cs
                                     (replicate kMaxNetThread (replicate (unat machineNR) None)) s
                    in (\<lparr>dirID = dir, dir_ctx = context, dir_cq = ptr cq, srq = ptr q, data2app = tab,
                         dsmMR = dmr, dsmPool = pool, dsmSize = sz, dir_cachePool = cachePool,
                         dir_cacheSize = cacheSize, dir_cacheLKey = mr_lkey cmr\<rparr>, s))
                    (get_client_thread_list rc_mapping dir)))))"

text \<open>\<open>get_qp\<close> of the directory.\<close>

definition get_qp :: "DirectoryConnection \<Rightarrow> u16 \<Rightarrow> u16 \<Rightarrow> ibv_qp option" where
  "get_qp dc node thread = data2app dc ! unat thread ! unat node"

section \<open>Which queue pairs a node has\<close>

text \<open>
  What is relied on in the device: creating an RC queue pair succeeds, with a number that is
  not 0.
\<close>

definition rc_created :: "ibv_qp option \<Rightarrow> bool" where
  "rc_created q \<longleftrightarrow> (\<exists>qp. q = Some qp \<and> qp_type qp = IBV_QPT_RC \<and> qp_num qp \<noteq> 0)"

definition creates_rc :: "'s rdma_device \<Rightarrow> bool" where
  "creates_rc dev \<longleftrightarrow> (\<forall>c a s. init_qp_type a = IBV_QPT_RC \<longrightarrow> rc_created (fst (dev_create_qp dev c a s)))"

lemma new_rc_qp_created: "creates_rc dev \<Longrightarrow> rc_created (fst (new_rc_qp dev cq context depth q s))"
proof -
  assume c: "creates_rc dev"
  let ?a = "qp_init_attr_of IBV_QPT_RC cq cq context depth q (word_of_nat kMaxInlineData)"
  have "init_qp_type ?a = IBV_QPT_RC" by (simp add: qp_init_attr_of_def)
  with c have "rc_created (fst (dev_create_qp dev (ctx_handle context) ?a s))"
    unfolding creates_rc_def by blast
  then show ?thesis
    by (auto simp: new_rc_qp_def createQueuePair1_def createQueuePair_def rc_created_def
        split: prod.splits option.splits)
qed

lemma create_each_length: "length (fst (create_each f ks s)) = length ks"
  by (induction ks arbitrary: s) (auto simp: Let_def split: prod.splits, metis fst_conv)

lemma create_each_nth:
  assumes "\<And>k s. P k (fst (f k s))" and "i < length ks"
  shows "P (ks ! i) (fst (create_each f ks s) ! i)"
  using assms(2)
proof (induction ks arbitrary: s i)
  case (Cons k ks)
  obtain a s1 where a: "f k s = (a, s1)" by (cases "f k s")
  obtain as s2 where as: "create_each f ks s1 = (as, s2)" by (cases "create_each f ks s1")
  have "P k a" using assms(1) [of k s] a by simp
  then show ?case using Cons a as by (cases i) (auto simp: Let_def, metis fst_conv)
qed simp

lemma thread_qps_nth:
  assumes dev: "creates_rc dev" and i: "i < NR_DIRECTORY" and k: "k < unat machineNR"
    and tab_def: "tab = fst (thread_qps dev cq context target machineNR s)"
  shows "length tab = NR_DIRECTORY \<and> length (tab ! i) = unat machineNR
     \<and> (if i = unat target then rc_created (tab ! i ! k) else tab ! i ! k = None)"
proof -
  let ?f = "\<lambda>i k s. if i = unat target then new_rc_qp dev cq context 1024 0 s else (None, s)"
  let ?P = "\<lambda>i row. length row = unat machineNR
      \<and> (\<forall>k < unat machineNR. if i = unat target then rc_created (row ! k) else row ! k = None)"
  have row: "?P i (fst (create_each (?f i) [0..<unat machineNR] s))" for i s
  proof (intro conjI allI impI)
    fix k assume "k < unat machineNR"
    then show "if i = unat target then rc_created (fst (create_each (?f i) [0..<unat machineNR] s) ! k)
        else fst (create_each (?f i) [0..<unat machineNR] s) ! k = None"
      using create_each_nth [of "\<lambda>_ q. if i = unat target then rc_created q else q = None" "?f i" k "[0..<unat machineNR]" s]
        new_rc_qp_created [OF dev] by (cases "i = unat target") simp_all
  qed (simp add: create_each_length)
  have "?P ([0..<NR_DIRECTORY] ! i) (tab ! i)"
    unfolding tab_def thread_qps_def by (rule create_each_nth [of ?P, OF row]) (simp add: i)
  moreover have "length tab = NR_DIRECTORY" by (simp add: tab_def thread_qps_def create_each_length)
  ultimately show ?thesis using i k by auto
qed

lemma client_qps_nth:
  assumes dev: "creates_rc dev"
    and tab: "length tab = kMaxNetThread" "\<forall>row \<in> set tab. length row = m"
    and cs: "\<forall>(n, t) \<in> set cs. unat n < m \<and> unat t < kMaxNetThread"
    and t: "t < kMaxNetThread" and n: "n < m"
  shows "(if \<exists>(n', t') \<in> set cs. unat n' = n \<and> unat t' = t then rc_created (fst (client_qps dev cq context q cs tab s) ! t ! n)
          else fst (client_qps dev cq context q cs tab s) ! t ! n = tab ! t ! n)"
  using tab cs
proof (induction cs arbitrary: tab s)
  case (Cons c cs)
  obtain n1 t1 where c: "c = (n1, t1)" by (cases c)
  obtain qp s1 where qp: "new_rc_qp dev cq context (word_of_nat RPC_QUEUE_SIZE) q s = (qp, s1)"
    by (cases "new_rc_qp dev cq context (word_of_nat RPC_QUEUE_SIZE) q s")
  have rc: "rc_created qp" using new_rc_qp_created [OF dev, of cq "context" "word_of_nat RPC_QUEUE_SIZE" q s] qp by simp
  let ?tab = "tab[unat t1 := (tab ! unat t1)[unat n1 := qp]]"
  have b: "unat n1 < m" "unat t1 < kMaxNetThread" using Cons.prems c by auto
  then have len: "length (tab ! unat t1) = m" using Cons.prems by simp
  have "\<forall>row \<in> set ?tab. length row = m"
    using Cons.prems(2) len set_update_subset_insert [of tab "unat t1" "(tab ! unat t1)[unat n1 := qp]"] by fastforce
  from Cons.IH [of ?tab s1] this Cons.prems
  have IH: "if \<exists>(n', t') \<in> set cs. unat n' = n \<and> unat t' = t then rc_created (fst (client_qps dev cq context q cs ?tab s1) ! t ! n)
      else fst (client_qps dev cq context q cs ?tab s1) ! t ! n = ?tab ! t ! n" by simp
  have entry: "?tab ! t ! n = (if unat n1 = n \<and> unat t1 = t then qp else tab ! t ! n)"
    using b len Cons.prems(1) t n by (auto simp: nth_list_update)
  have run: "client_qps dev cq context q (c # cs) tab s = client_qps dev cq context q cs ?tab s1"
    by (simp add: c qp Let_def)
  show ?case
    using IH entry rc unfolding run by (auto simp: c split: if_splits)
qed simp

lemma rc_lists:
  assumes "unat d < NR_DIRECTORY" "unat n < unat mc" "unat t < kMaxNetThread"
  shows "\<exists>cs. get_client_thread_list (mk_RCMapping mc) d = Some cs
     \<and> (\<forall>(n', t') \<in> set cs. unat n' < unat mc \<and> unat t' < kMaxNetThread)
     \<and> ((\<exists>(n', t') \<in> set cs. unat n' = unat n \<and> unat t' = unat t) \<longleftrightarrow> rc_target mc (unat n) (unat t) = unat d)"
proof -
  let ?cs = "dir_to_thread (mk_RCMapping mc) ! unat d"
  have set: "set (rc_clients mc (unat d)) = (\<lambda>(n, t). (unat n, unat t)) ` set ?cs"
    by (simp add: rc_clients_def)
  have "unat n' < unat mc \<and> unat t' < kMaxNetThread" if "(n', t') \<in> set ?cs" for n' t'
    using rcm.clients_iff [OF assms(1), of "unat n'" "unat t'" mc] set that by force
  moreover have "(\<exists>(n', t') \<in> set ?cs. unat n' = unat n \<and> unat t' = unat t) \<longleftrightarrow> (unat n, unat t) \<in> set (rc_clients mc (unat d))"
    unfolding set by force
  ultimately show ?thesis
    using assms rcm.clients_iff [OF assms(1), of "unat n" "unat t" mc]
    by (auto simp: get_client_thread_list_def)
qed

lemma rc_lookup:
  assumes "unat n < unat mc" "unat t < kMaxNetThread"
  shows "\<exists>d. get_target_dir_id (mk_RCMapping mc) n t = Some d \<and> rc_target mc (unat n) (unat t) = unat d
     \<and> unat d < NR_DIRECTORY"
proof -
  have "length (thread_to_dir (mk_RCMapping mc)) = unat mc"
    "length (thread_to_dir (mk_RCMapping mc) ! unat n) = kMaxNetThread"
    using mk_RCMapping_shape [of mc] assms by (simp_all add: rc_shape_def)
  then show ?thesis
    using assms rcm.target_lt [of "unat n" mc "unat t"] by (simp add: get_target_dir_id_def rc_target_def)
qed

lemma mk_ThreadConnection_qps:
  assumes dev: "creates_rc dev" and mk: "mk_ThreadConnection dev node t pool sz m nic (mk_RCMapping mc) s = Some (tc, s')"
    and b: "unat node < unat mc" "unat t < kMaxNetThread" "unat m = unat mc" "d < NR_DIRECTORY" "k < unat mc"
  shows "if rc_target mc (unat node) (unat t) = d then rc_created (qp_data tc ! d ! k) else qp_data tc ! d ! k = None"
proof -
  obtain target where tg: "get_target_dir_id (mk_RCMapping mc) node t = Some target" "rc_target mc (unat node) (unat t) = unat target"
    using rc_lookup [OF b(1,2)] by blast
  from mk obtain cq ctx s1 where "qp_data tc = fst (thread_qps dev cq ctx target m s1)"
    by (auto simp: mk_ThreadConnection_def Let_def tg(1) case_prod_unfold bind_eq_Some_conv)
  with thread_qps_nth [OF dev b(4) _ this, of k] b tg show ?thesis by (auto split: if_splits)
qed

lemma mk_DirectoryConnection_qps:
  assumes dev: "creates_rc dev"
    and mk: "mk_DirectoryConnection dev mp d pool sz m cpool csz nic (mk_RCMapping mc) s = Some (dc, s')"
    and b: "unat node < unat mc" "unat t < kMaxNetThread" "unat m = unat mc" "unat d < NR_DIRECTORY"
  shows "if rc_target mc (unat node) (unat t) = unat d then rc_created (get_qp dc node t) else get_qp dc node t = None"
proof -
  obtain cs where cs: "get_client_thread_list (mk_RCMapping mc) d = Some cs"
    "\<forall>(n', t') \<in> set cs. unat n' < unat mc \<and> unat t' < kMaxNetThread"
    "(\<exists>(n', t') \<in> set cs. unat n' = unat node \<and> unat t' = unat t) \<longleftrightarrow> rc_target mc (unat node) (unat t) = unat d"
    using rc_lists [OF b(4,1,2)] by blast
  from mk obtain cq ctx q s1 where "data2app dc = fst (client_qps dev cq ctx q cs
      (replicate kMaxNetThread (replicate (unat m) None)) s1)"
    by (auto simp: mk_DirectoryConnection_def Let_def cs(1) case_prod_unfold bind_eq_Some_conv)
  with client_qps_nth [OF dev _ _ cs(2) b(2,1), of "replicate kMaxNetThread (replicate (unat m) None)" cq ctx q s1] b cs(3)
  show ?thesis by (auto simp: get_qp_def split: if_splits)
qed

text \<open>
  C28. The queue pairs of the cluster pair up. For a thread of one node and a directory of
  another (both built with the same mapping), the thread has a queue pair towards the
  directory's node exactly when the directory has one for the thread, namely when the mapping
  sends the thread there; both are RC queue pairs with nonzero numbers.
\<close>

theorem queue_pairs_pair_up:
  assumes "creates_rc devA" and "creates_rc devB"
    and "mk_ThreadConnection devA node t pool sz m nic (mk_RCMapping mc) s = Some (tc, s1)"
    and "mk_DirectoryConnection devB mp d pool2 sz2 m cpool csz nic2 (mk_RCMapping mc) u = Some (dc, u1)"
    and "unat node < unat mc" "unat peer < unat mc" "unat t < kMaxNetThread" "unat m = unat mc" "unat d < NR_DIRECTORY"
  shows "(rc_created (qp_data tc ! unat d ! unat peer) \<and> rc_created (get_qp dc node t) \<and> target_dirID tc = d)
     \<or> (qp_data tc ! unat d ! unat peer = None \<and> get_qp dc node t = None \<and> target_dirID tc \<noteq> d)"
proof -
  obtain target where tg: "get_target_dir_id (mk_RCMapping mc) node t = Some target"
    "rc_target mc (unat node) (unat t) = unat target"
    using rc_lookup [OF assms(5,7)] by blast
  have "target_dirID tc = target"
    using assms(3) by (auto simp: mk_ThreadConnection_def Let_def tg(1) case_prod_unfold bind_eq_Some_conv)
  moreover have "target = d \<longleftrightarrow> rc_target mc (unat node) (unat t) = unat d"
    by (simp add: tg(2) word_unat_eq_iff)
  ultimately show ?thesis
    using mk_ThreadConnection_qps [OF assms(1,3,5,7,8,9,6)] mk_DirectoryConnection_qps [OF assms(2,4,5,7,8,9)]
    by (cases "target = d") simp_all
qed

lemma demo_device_creates: "creates_rc demo_device"
  by (simp add: creates_rc_def rc_created_def demo_device_def)

definition demo_mp_srq :: "unit \<Rightarrow> RdmaContext \<Rightarrow> (u64 option \<times> unit) option" where
  "demo_mp_srq s c = Some (Some 8, s)"

lemma demo_connections:
  "\<exists>tc s1 dc s2. mk_ThreadConnection demo_device 1 35 0 64 2 ''mlx5_0'' (mk_RCMapping 2) () = Some (tc, s1)
     \<and> mk_DirectoryConnection demo_device demo_mp_srq 0 0 64 2 0 64 ''mlx5_0'' (mk_RCMapping 2) () = Some (dc, s2)"
proof -
  have raw: "\<exists>c. mk_RawMessageConnection demo_device ctx cq (word_of_nat RPC_QUEUE_SIZE) () = Some (c, ())" for ctx cq
    by (simp add: mk_RawMessageConnection_def mk_MsgConn_def demo_device_def createQueuePair_def
        createMemoryRegion_def RPC_QUEUE_SIZE_def kBatchCount_def Let_def case_prod_unfold)
  have mr: "createMemoryRegion (dev_reg_mr demo_device) a b c s = (Some \<lparr>mr_lkey = 4, mr_rkey = 5\<rparr>, s)" for a b c s
    by (simp add: createMemoryRegion_def demo_device_def)
  obtain d where d: "get_target_dir_id (mk_RCMapping 2) 1 35 = Some d"
    using rc_lookup [of 1 2 35] by (auto simp: kMaxNetThread_def)
  have l: "get_client_thread_list (mk_RCMapping 2) 0 = Some (dir_to_thread (mk_RCMapping 2) ! 0)"
    by (simp add: get_client_thread_list_def NR_DIRECTORY_def)
  have "\<exists>tc s1. mk_ThreadConnection demo_device 1 35 0 64 2 ''mlx5_0'' (mk_RCMapping 2) () = Some (tc, s1)"
    using raw by (auto simp: mk_ThreadConnection_def Let_def case_prod_unfold mr d bind_eq_Some_conv)
  moreover have "\<exists>dc s2. mk_DirectoryConnection demo_device demo_mp_srq 0 0 64 2 0 64 ''mlx5_0'' (mk_RCMapping 2) () = Some (dc, s2)"
    by (simp add: mk_DirectoryConnection_def Let_def case_prod_unfold mr l demo_mp_srq_def)
  ultimately show ?thesis by blast
qed

theorem queue_pairs_pair_up_witness:
  "\<exists>tc s1 dc s2. mk_ThreadConnection demo_device 1 35 0 64 2 ''mlx5_0'' (mk_RCMapping 2) () = Some (tc, s1)
     \<and> mk_DirectoryConnection demo_device demo_mp_srq 0 0 64 2 0 64 ''mlx5_0'' (mk_RCMapping 2) () = Some (dc, s2)
     \<and> (qp_data tc ! 0 ! 0 = None \<longleftrightarrow> get_qp dc 1 35 = None)"
proof -
  obtain tc s1 dc s2 where t: "mk_ThreadConnection demo_device 1 35 0 64 2 ''mlx5_0'' (mk_RCMapping 2) () = Some (tc, s1)"
    and d: "mk_DirectoryConnection demo_device demo_mp_srq 0 0 64 2 0 64 ''mlx5_0'' (mk_RCMapping 2) () = Some (dc, s2)"
    using demo_connections by blast
  from queue_pairs_pair_up [OF demo_device_creates demo_device_creates t d, of 0] t d show ?thesis
    by (auto simp: kMaxNetThread_def NR_DIRECTORY_def rc_created_def)
qed

end
