(* ===== verification/Keeper.thy ===== *)
theory Keeper
  imports Config
begin

text \<open>
  \<open>src/dsm/Keeper.cpp\<close>: the cluster directory in memcached. The operations of memcached are
  parameters on an arbitrary world (the store and whatever other nodes do to it between two
  calls); each may fail, and the keeper retries until it succeeds, so a call that never
  returns is the value \<open>None\<close> of a \<open>partial_function\<close>. Keys are strings, values are bytes.
\<close>

section \<open>Decimal text\<close>

text \<open>\<open>std::to_string\<close> of an unsigned number, and \<open>atoi\<close> and \<open>std::stoull\<close> on digits.\<close>

definition digit :: "nat \<Rightarrow> char" where "digit d = char_of (48 + d)"

fun to_string :: "nat \<Rightarrow> string" where
  "to_string n = (if n < 10 then [digit n] else to_string (n div 10) @ [digit (n mod 10)])"

declare to_string.simps [simp del]

definition is_digit :: "char \<Rightarrow> bool" where
  "is_digit c \<longleftrightarrow> 48 \<le> (of_char c :: nat) \<and> (of_char c :: nat) \<le> 57"

definition digits_value :: "string \<Rightarrow> nat" where
  "digits_value s = foldl (\<lambda>a c. 10 * a + (of_char c - 48)) 0 s"

definition parse_num :: "string \<Rightarrow> nat" where
  "parse_num s = digits_value (takeWhile is_digit s)"

lemma digit_facts:
  assumes "d < 10"
  shows "is_digit (digit d)" and "of_char (digit d) - 48 = d" and "digit d \<noteq> CHR ''-''"
proof -
  have c: "of_char (digit d) = 48 + d" using assms by (simp add: digit_def of_char_of)
  then show "is_digit (digit d)" "of_char (digit d) - 48 = d" using assms by (simp_all add: is_digit_def)
  show "digit d \<noteq> CHR ''-''"
  proof
    assume "digit d = CHR ''-''"
    then have "of_char (digit d) = (45 :: nat)" by simp
    with c show False by simp
  qed
qed

lemma to_string_digits: "c \<in> set (to_string n) \<Longrightarrow> is_digit c"
  by (induction n rule: to_string.induct) (subst (asm) (2) to_string.simps, auto simp: digit_facts split: if_splits)

lemma to_string_value: "digits_value (to_string n) = n"
  by (induction n rule: to_string.induct)
    (subst to_string.simps, auto simp: digits_value_def digit_facts)

lemma parse_to_string [simp]: "parse_num (to_string n) = n"
proof -
  have "takeWhile is_digit (to_string n) = to_string n"
    by (simp add: takeWhile_eq_all_conv to_string_digits)
  then show ?thesis unfolding parse_num_def by (simp only: to_string_value)
qed

lemma to_string_inj [simp]: "to_string m = to_string n \<longleftrightarrow> m = n"
  by (metis parse_to_string)

section \<open>\<open>trim\<close>\<close>

definition find_first_not_of :: "char \<Rightarrow> string \<Rightarrow> nat option" where
  "find_first_not_of c s =
     (let k = length (takeWhile (\<lambda>x. x = c) s) in if k < length s then Some k else None)"

definition find_last_not_of :: "char \<Rightarrow> string \<Rightarrow> nat option" where
  "find_last_not_of c s =
     (let k = length (takeWhile (\<lambda>x. x = c) (rev s))
      in if k < length s then Some (length s - 1 - k) else None)"

text \<open>
  \<open>erase(0, npos)\<close> removes everything; \<open>npos + 1\<close> is 0.
\<close>

definition trim :: "string \<Rightarrow> string" where
  "trim s =
     (if s = [] then s
      else
        let res = (case find_first_not_of CHR '' '' s of None \<Rightarrow> [] | Some k \<Rightarrow> drop k s)
        in take (case find_last_not_of CHR '' '' res of None \<Rightarrow> 0 | Some k \<Rightarrow> k + 1) res)"

section \<open>Retrying\<close>

partial_function (option) retry :: "('s \<Rightarrow> 'a option \<times> 's) \<Rightarrow> 's \<Rightarrow> ('a \<times> 's) option" where
  "retry op s =
     (case op s of (r, s') \<Rightarrow> (case r of Some x \<Rightarrow> Some (x, s') | None \<Rightarrow> retry op s'))"

text \<open>
  The state after \<open>m\<close> failed attempts, and the first success: \<open>retry\<close> returns what the first
  successful attempt returns, and does not return exactly when every attempt fails.
\<close>

fun failed :: "('s \<Rightarrow> 'a option \<times> 's) \<Rightarrow> nat \<Rightarrow> 's \<Rightarrow> 's option" where
  "failed op 0 s = Some s"
| "failed op (Suc m) s = (case op s of (None, s') \<Rightarrow> failed op m s' | (Some _, _) \<Rightarrow> None)"

lemma retry_after_failures:
  "failed op m s = Some u \<Longrightarrow> op u = (Some x, s') \<Longrightarrow> retry op s = Some (x, s')"
proof (induction m arbitrary: s)
  case 0
  then show ?case by (subst retry.simps) simp
next
  case (Suc m)
  then obtain s1 where "op s = (None, s1)" "failed op m s1 = Some u"
    by (auto split: prod.splits option.splits)
  with Suc show ?case by (subst retry.simps) simp
qed

lemma retry_SomeD:
  assumes "retry op s = Some (x, s')"
  shows "\<exists>m u. failed op m s = Some u \<and> op u = (Some x, s')"
proof -
  have "\<exists>m u. failed op m s = Some u \<and> op u = (Some (fst r), snd r)" if "retry op s = Some r" for r
  proof (rule retry.raw_induct
      [where P = "\<lambda>op s r. \<exists>m u. failed op m s = Some u \<and> op u = (Some (fst r), snd r)", OF _ that])
    fix f :: "('s \<Rightarrow> 'a option \<times> 's) \<Rightarrow> 's \<Rightarrow> ('a \<times> 's) option"
      and op :: "'s \<Rightarrow> 'a option \<times> 's" and s r
    assume IH: "\<And>op s r. f op s = Some r \<Longrightarrow> \<exists>m u. failed op m s = Some u \<and> op u = (Some (fst r), snd r)"
      and eq: "(case op s of (q, s') \<Rightarrow> (case q of Some x \<Rightarrow> Some (x, s') | None \<Rightarrow> f op s')) = Some r"
    obtain q s1 where q: "op s = (q, s1)" by (cases "op s")
    show "\<exists>m u. failed op m s = Some u \<and> op u = (Some (fst r), snd r)"
    proof (cases q)
      case None
      with eq q have "f op s1 = Some r" by simp
      from IH [OF this] obtain m u where "failed op m s1 = Some u" "op u = (Some (fst r), snd r)" by blast
      then show ?thesis using q None by (intro exI [of _ "Suc m"]) auto
    next
      case (Some y)
      then show ?thesis using eq q by (intro exI [of _ 0] exI [of _ s]) auto
    qed
  qed
  from this [OF assms] show ?thesis by simp
qed

section \<open>The keeper\<close>

text \<open>
  memcached over the binary protocol. A get or an increment fails when the key is missing;
  every operation may also fail for other reasons.
\<close>

record 's memcached =
  mc_get :: "string \<Rightarrow> 's \<Rightarrow> u8 list option \<times> 's"
  mc_set :: "string \<Rightarrow> u8 list \<Rightarrow> 's \<Rightarrow> unit option \<times> 's"
  mc_incr :: "string \<Rightarrow> 's \<Rightarrow> u64 option \<times> 's"

definition ascii :: "string \<Rightarrow> u8 list" where
  "ascii s = map (\<lambda>c. word_of_nat (of_char c)) s"

definition text_of :: "u8 list \<Rightarrow> string" where
  "text_of bs = map (\<lambda>b. char_of (unat b)) bs"

lemma text_of_ascii [simp]: "text_of (ascii s) = s"
proof -
  have "char_of (unat (word_of_nat (of_char c) :: u8)) = c" for c
  proof -
    have "(of_char c :: nat) < 256" by simp
    then have "unat (word_of_nat (of_char c) :: u8) = of_char c" by (simp add: unat_of_nat)
    then show ?thesis by simp
  qed
  then show ?thesis by (simp add: text_of_def ascii_def comp_def)
qed

record Keeper =
  maxServer :: u32
  curServer :: u16
  myNodeID :: u16

definition SERVER_NUM_KEY :: string where "SERVER_NUM_KEY = ''serverNum''"

definition mk_Keeper :: "u32 \<Rightarrow> Keeper" where
  "mk_Keeper n = \<lparr>maxServer = n, curServer = 0, myNodeID = 0\<rparr>"

text \<open>\<open>getServerNR\<close> returns 16 of the 32 bits.\<close>

definition getServerNR :: "Keeper \<Rightarrow> u16" where "getServerNR kp = ucast (maxServer kp)"

definition memSet :: "'s memcached \<Rightarrow> string \<Rightarrow> u8 list \<Rightarrow> 's \<Rightarrow> 's option" where
  "memSet mc key val s = map_option snd (retry (mc_set mc key val) s)"

definition memGet :: "'s memcached \<Rightarrow> string \<Rightarrow> 's \<Rightarrow> (u8 list \<times> 's) option" where
  "memGet mc key s = retry (mc_get mc key) s"

definition memFetchAndAdd :: "'s memcached \<Rightarrow> string \<Rightarrow> 's \<Rightarrow> (u64 \<times> 's) option" where
  "memFetchAndAdd mc key s = retry (mc_incr mc key) s"

text \<open>Entering: the identity is the counter's new value less one, in 16 bits.\<close>

definition serverEnter :: "'s memcached \<Rightarrow> Keeper \<Rightarrow> 's \<Rightarrow> (Keeper \<times> 's) option" where
  "serverEnter mc kp s =
     map_option (\<lambda>(serverNum, s'). (kp\<lparr>myNodeID := ucast (serverNum - 1)\<rparr>, s'))
       (retry (mc_incr mc SERVER_NUM_KEY) s)"

text \<open>
  Connecting: \<open>connect k\<close> is the virtual \<open>connectNode\<close> (its argument is 16 bits wide). The
  loop polls the counter until as many nodes as configured have been seen and connects to the
  ones that are new; \<open>atoi\<close> gives 32 bits, \<open>curServer\<close> keeps 16 of them.
\<close>

fun connect_new :: "(u16 \<Rightarrow> 's \<Rightarrow> 's option) \<Rightarrow> u16 \<Rightarrow> nat list \<Rightarrow> 's \<Rightarrow> 's option" where
  "connect_new connect me [] s = Some s"
| "connect_new connect me (k # ks) s =
     (if k \<noteq> unat me then Option.bind (connect (word_of_nat k) s) (connect_new connect me ks)
      else connect_new connect me ks s)"

definition server_num :: "u8 list \<Rightarrow> u32" where
  "server_num bs = word_of_nat (parse_num (text_of bs))"

partial_function (option) serverConnect ::
  "'s memcached \<Rightarrow> (u16 \<Rightarrow> 's \<Rightarrow> 's option) \<Rightarrow> Keeper \<Rightarrow> 's \<Rightarrow> (Keeper \<times> 's) option" where
  "serverConnect mc connect kp s =
     (if unat (curServer kp) < unat (maxServer kp)
      then case mc_get mc SERVER_NUM_KEY s of
          (None, s1) \<Rightarrow> serverConnect mc connect kp s1
        | (Some bs, s1) \<Rightarrow>
            (case connect_new connect (myNodeID kp) [unat (curServer kp)..<unat (server_num bs)] s1 of
               None \<Rightarrow> None
             | Some s2 \<Rightarrow> serverConnect mc connect (kp\<lparr>curServer := ucast (server_num bs)\<rparr>) s2)
      else Some (kp, s))"

section \<open>What the keeper relies on\<close>

text \<open>
  \<open>num\<close> is the counter of entered nodes, which never decreases and stays below \<open>2 ^ 16\<close>;
  \<open>connected\<close> lists the nodes that were connected to, in order.
\<close>

definition counter_laws ::
  "'s memcached \<Rightarrow> (u16 \<Rightarrow> 's \<Rightarrow> 's option) \<Rightarrow> ('s \<Rightarrow> nat) \<Rightarrow> ('s \<Rightarrow> u16 list) \<Rightarrow> bool" where
  "counter_laws mc connect num connected \<longleftrightarrow>
     (\<forall>s. num s < 2 ^ 16)
   \<and> (\<forall>s r s'. mc_get mc SERVER_NUM_KEY s = (r, s') \<longrightarrow>
        num s \<le> num s' \<and> connected s' = connected s \<and> (r = None \<or> r = Some (ascii (to_string (num s')))))
   \<and> (\<forall>k s s'. connect k s = Some s' \<longrightarrow> num s \<le> num s' \<and> connected s' = connected s @ [k])"

definition others :: "u16 \<Rightarrow> nat \<Rightarrow> nat \<Rightarrow> u16 list" where
  "others me i j = map word_of_nat (filter (\<lambda>k. k \<noteq> unat me) [i..<j])"

lemma others_append: "i \<le> j \<Longrightarrow> j \<le> k \<Longrightarrow> others me i j @ others me j k = others me i k"
proof -
  assume le: "i \<le> j" "j \<le> k"
  then obtain d where k: "k = j + d" by (auto simp: le_iff_add)
  show ?thesis unfolding k upt_add_eq_append [OF le(1)] others_def by simp
qed

lemma connect_new_log:
  assumes "counter_laws mc connect num connected" "connect_new connect me ks s = Some s'"
  shows "connected s' = connected s @ map word_of_nat (filter (\<lambda>k. k \<noteq> unat me) ks) \<and> num s \<le> num s'"
  using assms(2)
proof (induction ks arbitrary: s)
  case (Cons k ks)
  have law: "connect (word_of_nat k) s = Some s1 \<Longrightarrow> num s \<le> num s1 \<and> connected s1 = connected s @ [word_of_nat k]" for s1
    using assms(1) unfolding counter_laws_def by blast
  show ?case
  proof (cases "k = unat me")
    case True
    then show ?thesis using Cons by simp
  next
    case False
    then obtain s1 where "connect (word_of_nat k) s = Some s1" "connect_new connect me ks s1 = Some s'"
      using Cons.prems by (auto simp: bind_eq_Some_conv)
    then show ?thesis using law [of s1] Cons.IH [of s1] False by simp
  qed
qed simp

lemma server_num_value: "n < 2 ^ 16 \<Longrightarrow> unat (server_num (ascii (to_string n))) = n
     \<and> unat (ucast (server_num (ascii (to_string n))) :: u16) = n"
  by (simp add: server_num_def unat_of_nat unsigned_ucast_eq take_bit_nat_eq_self_iff)

lemma serverConnect_log:
  assumes laws: "counter_laws mc connect num connected"
    and run: "serverConnect mc connect kp s = Some (kp', s')" and cur: "unat (curServer kp) \<le> num s"
  shows "unat (maxServer kp) \<le> unat (curServer kp') \<and> unat (curServer kp') \<le> num s' \<and> myNodeID kp' = myNodeID kp
     \<and> unat (curServer kp) \<le> unat (curServer kp')
     \<and> connected s' = connected s @ others (myNodeID kp) (unat (curServer kp)) (unat (curServer kp'))"
proof -
  let ?Q = "\<lambda>connect kp s kp' s'. unat (maxServer kp) \<le> unat (curServer kp') \<and> unat (curServer kp') \<le> num s'
     \<and> myNodeID kp' = myNodeID kp \<and> unat (curServer kp) \<le> unat (curServer kp')
     \<and> connected s' = connected s @ others (myNodeID kp) (unat (curServer kp)) (unat (curServer kp'))"
  have "counter_laws mc connect num connected \<longrightarrow> unat (curServer kp) \<le> num s \<longrightarrow> ?Q connect kp s (fst r) (snd r)"
    if "serverConnect mc connect kp s = Some r" for r
  proof (rule serverConnect.raw_induct [where P = "\<lambda>mc connect kp s r. counter_laws mc connect num connected \<longrightarrow>
        unat (curServer kp) \<le> num s \<longrightarrow> ?Q connect kp s (fst r) (snd r)", OF _ that], intro impI)
    fix f :: "'a memcached \<Rightarrow> (u16 \<Rightarrow> 'a \<Rightarrow> 'a option) \<Rightarrow> Keeper \<Rightarrow> 'a \<Rightarrow> (Keeper \<times> 'a) option"
      and mc connect kp s r
    assume IH: "\<And>mc connect kp s r. f mc connect kp s = Some r \<Longrightarrow> counter_laws mc connect num connected \<longrightarrow>
        unat (curServer kp) \<le> num s \<longrightarrow> ?Q connect kp s (fst r) (snd r)"
      and eq: "(if unat (curServer kp) < unat (maxServer kp)
          then case mc_get mc SERVER_NUM_KEY s of
              (None, s1) \<Rightarrow> f mc connect kp s1
            | (Some bs, s1) \<Rightarrow>
                (case connect_new connect (myNodeID kp) [unat (curServer kp)..<unat (server_num bs)] s1 of
                   None \<Rightarrow> None
                 | Some s2 \<Rightarrow> f mc connect (kp\<lparr>curServer := ucast (server_num bs)\<rparr>) s2)
          else Some (kp, s)) = Some r"
      and laws: "counter_laws mc connect num connected" and cur: "unat (curServer kp) \<le> num s"
    obtain q s1 where q: "mc_get mc SERVER_NUM_KEY s = (q, s1)" by (cases "mc_get mc SERVER_NUM_KEY s")
    have law: "num s \<le> num s1" "connected s1 = connected s" "q = None \<or> q = Some (ascii (to_string (num s1)))" "num s1 < 2 ^ 16"
      using laws q unfolding counter_laws_def by blast+
    show "?Q connect kp s (fst r) (snd r)"
    proof (cases "unat (curServer kp) < unat (maxServer kp)")
      case False
      then have "r = (kp, s)" using eq by simp
      then show ?thesis using False cur by (simp add: others_def)
    next
      case lt: True
      show ?thesis
      proof (cases q)
        case None
        then have "f mc connect kp s1 = Some r" using eq lt q by simp
        from IH [OF this] laws cur law show ?thesis by simp
      next
        case (Some bs)
        let ?n = "num s1" and ?kp = "kp\<lparr>curServer := ucast (server_num bs)\<rparr>"
        have bs: "unat (server_num bs) = ?n" "unat (curServer ?kp) = ?n"
          using Some law server_num_value [of ?n] by simp_all
        obtain s2 where s2: "connect_new connect (myNodeID kp) [unat (curServer kp)..<?n] s1 = Some s2"
          "f mc connect ?kp s2 = Some r"
          using eq lt q Some bs(1) by (auto split: option.splits)
        have log: "connected s2 = connected s1 @ others (myNodeID kp) (unat (curServer kp)) ?n" "?n \<le> num s2"
          using connect_new_log [OF laws s2(1)] by (simp_all add: others_def)
        from IH [OF s2(2)] laws log(2) bs(2)
        have R: "unat (maxServer kp) \<le> unat (curServer (fst r))" "unat (curServer (fst r)) \<le> num (snd r)"
          "myNodeID (fst r) = myNodeID kp" "?n \<le> unat (curServer (fst r))"
          "connected (snd r) = connected s2 @ others (myNodeID kp) ?n (unat (curServer (fst r)))" by auto
        then show ?thesis
          using log law cur others_append [of "unat (curServer kp)" ?n "unat (curServer (fst r))" "myNodeID kp"]
          by auto
      qed
    qed
  qed
  from this [OF run] laws cur show ?thesis by simp
qed

section \<open>Properties\<close>

lemma trim_eq: "trim s = rev (dropWhile (\<lambda>c. c = CHR '' '') (rev (dropWhile (\<lambda>c. c = CHR '' '') s)))"
proof -
  let ?sp = "\<lambda>c. c = CHR '' ''"
  have d: "dropWhile ?sp t = drop (length (takeWhile ?sp t)) t" for t
    by (rule dropWhile_eq_drop)
  have first: "(case find_first_not_of CHR '' '' t of None \<Rightarrow> [] | Some k \<Rightarrow> drop k t) = dropWhile ?sp t" for t
    by (simp add: find_first_not_of_def Let_def d)
  have last: "take (case find_last_not_of CHR '' '' t of None \<Rightarrow> 0 | Some k \<Rightarrow> k + 1) t = rev (dropWhile ?sp (rev t))" for t
    by (auto simp: find_last_not_of_def Let_def d rev_drop not_less Suc_diff_Suc)
  show ?thesis
    by (cases "s = []") (simp_all add: trim_def first last)
qed

text \<open>
  \<open>trim\<close> removes exactly the spaces at both ends: the argument is the result between two
  runs of spaces, the result neither starts nor ends with a space, and trimming again changes
  nothing.
\<close>

theorem trim_strips_both_ends:
  "(\<exists>i j. s = replicate i CHR '' '' @ trim s @ replicate j CHR '' '')
     \<and> (trim s = [] \<or> (hd (trim s) \<noteq> CHR '' '' \<and> last (trim s) \<noteq> CHR '' ''))
     \<and> trim (trim s) = trim s"
proof -
  let ?sp = "\<lambda>c. c = CHR '' ''"
  have run: "takeWhile ?sp t = replicate (length (takeWhile ?sp t)) CHR '' ''" for t
    by (rule replicate_eqI) (auto dest: set_takeWhileD)
  define u where "u = dropWhile ?sp s"
  have split: "t = replicate (length (takeWhile ?sp t)) CHR '' '' @ dropWhile ?sp t" for t
    using run [of t] takeWhile_dropWhile_id [of ?sp t] by simp
  have s: "s = replicate (length (takeWhile ?sp s)) CHR '' '' @ u"
    unfolding u_def by (rule split)
  have "rev (rev u) = rev (replicate (length (takeWhile ?sp (rev u))) CHR '' '' @ dropWhile ?sp (rev u))"
    by (rule arg_cong [of _ _ rev], rule split)
  then have "u = rev (dropWhile ?sp (rev u)) @ replicate (length (takeWhile ?sp (rev u))) CHR '' ''"
    by simp
  then have u: "u = trim s @ replicate (length (takeWhile ?sp (rev u))) CHR '' ''"
    by (simp add: trim_eq u_def)
  have ends: "trim s = [] \<or> (hd (trim s) \<noteq> CHR '' '' \<and> last (trim s) \<noteq> CHR '' '')"
  proof (cases "trim s = []")
    case False
    have "u \<noteq> []" using False u by auto
    then have "hd u \<noteq> CHR '' ''" unfolding u_def by (rule hd_dropWhile)
    moreover have "hd u = hd (trim s)" using False by (subst u) simp
    ultimately have "hd (trim s) \<noteq> CHR '' ''" by simp
    moreover have "dropWhile ?sp (rev u) \<noteq> []" using False by (simp add: trim_eq u_def)
    then have "hd (dropWhile ?sp (rev u)) \<noteq> CHR '' ''" by (rule hd_dropWhile)
    then have "last (trim s) \<noteq> CHR '' ''" by (simp add: trim_eq u_def last_rev)
    ultimately show ?thesis by simp
  qed simp
  have "trim (trim s) = trim s"
  proof (cases "trim s = []")
    case True
    then show ?thesis by (simp add: trim_def)
  next
    case False
    have stay: "t = [] \<or> hd t \<noteq> CHR '' '' \<Longrightarrow> dropWhile ?sp t = t" for t by (cases t) auto
    have "dropWhile ?sp (trim s) = trim s" using ends by (intro stay) blast
    moreover have "dropWhile ?sp (rev (trim s)) = rev (trim s)"
      using ends by (intro stay) (auto simp: hd_rev)
    ultimately show ?thesis by (subst trim_eq) simp
  qed
  moreover obtain i where i: "s = replicate i CHR '' '' @ u" using s by blast
  moreover obtain j where j: "u = trim s @ replicate j CHR '' ''" using u by blast
  have "s = replicate i CHR '' '' @ trim s @ replicate j CHR '' ''" by (metis i j)
  ultimately show ?thesis using ends by blast
qed

text \<open>
  \<open>serverEnter\<close> hands out different identities: when memcached counts (an increment returns
  the new count), two nodes that enter one after the other, whatever happens between, get
  different identities, each one less than the count it saw.
\<close>

theorem serverEnter_distinct_ids:
  assumes count: "\<And>s r s'. mc_incr mc SERVER_NUM_KEY s = (r, s') \<Longrightarrow>
      num s \<le> num s' \<and> num s' < 2 ^ 16 \<and> (\<forall>n. r = Some n \<longrightarrow> num s < num s' \<and> unat n = num s')"
    and first: "serverEnter mc kp1 s = Some (kp1', s1)" and later: "num s1 \<le> num s2"
    and second: "serverEnter mc kp2 s2 = Some (kp2', s3)"
  shows "unat (myNodeID kp1') = num s1 - 1 \<and> unat (myNodeID kp2') = num s3 - 1 \<and> myNodeID kp1' \<noteq> myNodeID kp2'"
proof -
  have fails: "num s \<le> num u" if "failed (mc_incr mc SERVER_NUM_KEY) m s = Some u" for m s u
    using that
  proof (induction m arbitrary: s)
    case (Suc m)
    obtain r s1 where r: "mc_incr mc SERVER_NUM_KEY s = (r, s1)" by (cases "mc_incr mc SERVER_NUM_KEY s")
    with Suc have "num s1 \<le> num u" by (auto split: option.splits)
    with count [OF r] show ?case by simp
  qed simp
  have enter: "unat (myNodeID kp') = num t - 1 \<and> num s < num t"
    if run: "serverEnter mc kp s = Some (kp', t)" for kp s kp' t
  proof -
    from run obtain n where n: "retry (mc_incr mc SERVER_NUM_KEY) s = Some (n, t)" "kp' = kp\<lparr>myNodeID := ucast (n - 1)\<rparr>"
      by (auto simp: serverEnter_def)
    from retry_SomeD [OF n(1)] obtain m u where "failed (mc_incr mc SERVER_NUM_KEY) m s = Some u"
      "mc_incr mc SERVER_NUM_KEY u = (Some n, t)" by blast
    with fails count have c: "num s < num t" "unat n = num t" "num t < 2 ^ 16" by fastforce+
    then have "n \<noteq> 0" by auto
    then have "unat (n - 1) = num t - 1" using c(2) by (simp add: unat_minus_one)
    then have "unat (ucast (n - 1) :: u16) = num t - 1"
      using c by (simp add: unsigned_ucast_eq take_bit_nat_eq_self_iff)
    then show ?thesis using c n(2) by simp
  qed
  from enter [OF first] enter [OF second] later show ?thesis by auto
qed

text \<open>
  \<open>serverConnect\<close> connects to every other node once, in order. When the counter of nodes
  only grows and connecting succeeds, a run that starts from \<open>curServer = 0\<close> and returns has
  connected to exactly the nodes below the last count except the node itself, each once and
  in increasing order; the last count is at least \<open>maxServer\<close> (it may exceed it).
\<close>

theorem serverConnect_connects_each_once:
  assumes "counter_laws mc connect num connected" and "curServer kp = 0"
    and "serverConnect mc connect kp s = Some (kp', s')"
  shows "connected s' = connected s @ others (myNodeID kp) 0 (unat (curServer kp'))
     \<and> unat (maxServer kp) \<le> unat (curServer kp') \<and> unat (curServer kp') \<le> num s'"
  using serverConnect_log [OF assms(1,3)] assms(2) by simp

section \<open>A concrete store\<close>

text \<open>A counter of 16 bits and the list of connections made.\<close>

definition demo_mc :: "(u16 \<times> u16 list) memcached" where
  "demo_mc = \<lparr>mc_get = (\<lambda>k s. (Some (ascii (to_string (unat (fst s)))), s)), mc_set = (\<lambda>k v s. (Some (), s)),
     mc_incr = (\<lambda>k s. if fst s = -1 then (None, s) else (Some (ucast (fst s + 1)), fst s + 1, snd s))\<rparr>"

lemma demo_mc_counts:
  assumes "mc_incr demo_mc SERVER_NUM_KEY s = (r, s')"
  shows "unat (fst s) \<le> unat (fst s') \<and> unat (fst s') < 2 ^ 16
     \<and> (\<forall>n. r = Some n \<longrightarrow> unat (fst s) < unat (fst s') \<and> unat n = unat (fst s'))"
proof (cases "fst s = -1")
  case True
  then show ?thesis using assms unsigned_less [of "fst s", where 'a = nat] by (auto simp: demo_mc_def)
next
  case False
  have "unat (fst s) \<noteq> 65535"
  proof
    assume "unat (fst s) = 65535"
    then have "word_of_nat (unat (fst s)) = (word_of_nat 65535 :: u16)" by simp
    then show False using False by simp
  qed
  then have "unat (fst s) + 1 < 2 ^ 16" using unsigned_less [of "fst s", where 'a = nat] by simp
  then have "unat (fst s + 1) = unat (fst s) + 1" by (simp add: unat_word_ariths)
  then show ?thesis
    using assms False unsigned_less [of "fst s + 1", where 'a = nat] by (auto simp: demo_mc_def)
qed

lemma demo_counter_laws:
  "counter_laws demo_mc (\<lambda>k s. Some (fst s, snd s @ [k])) (\<lambda>s. unat (fst s)) snd"
  using unsigned_less [where 'a = nat and 'b = 16] by (auto simp: counter_laws_def demo_mc_def)

theorem serverEnter_distinct_ids_witness:
  "\<exists>kp1 s1 kp2 s3. serverEnter demo_mc (mk_Keeper 2) (0, []) = Some (kp1, s1)
     \<and> serverEnter demo_mc (mk_Keeper 2) s1 = Some (kp2, s3) \<and> myNodeID kp1 \<noteq> myNodeID kp2"
proof -
  have "retry (mc_incr demo_mc SERVER_NUM_KEY) (0, []) = Some (1, (1, []))"
    "retry (mc_incr demo_mc SERVER_NUM_KEY) (1, []) = Some (2, (2, []))"
    by (subst retry.simps, simp add: demo_mc_def)+
  then obtain kp1 kp2 where e: "serverEnter demo_mc (mk_Keeper 2) (0, []) = Some (kp1, (1, []))"
    "serverEnter demo_mc (mk_Keeper 2) (1, []) = Some (kp2, (2, []))"
    by (simp add: serverEnter_def)
  from serverEnter_distinct_ids [OF demo_mc_counts e(1) _ e(2)] e show ?thesis by auto
qed

theorem serverConnect_connects_each_once_witness:
  "\<exists>kp' s'. serverConnect demo_mc (\<lambda>k s. Some (fst s, snd s @ [k])) ((mk_Keeper 3)\<lparr>myNodeID := 1\<rparr>) (3, []) = Some (kp', s')
     \<and> snd s' = [0, 2]"
proof -
  let ?kp = "(mk_Keeper 3)\<lparr>myNodeID := 1\<rparr>" and ?c = "\<lambda>k s. Some (fst s, snd s @ [k])"
  have n: "unat (server_num (ascii (to_string 3))) = 3" "(ucast (server_num (ascii (to_string 3))) :: u16) = 3"
    using server_num_value [of 3] by (simp_all add: word_unat_eq_iff)
  have "serverConnect demo_mc ?c (?kp\<lparr>curServer := 3\<rparr>) s = Some (?kp\<lparr>curServer := 3\<rparr>, s)" for s
    by (subst serverConnect.simps) (simp add: mk_Keeper_def)
  then have "\<exists>s'. serverConnect demo_mc ?c ?kp (3, []) = Some (?kp\<lparr>curServer := 3\<rparr>, s')"
    by (subst serverConnect.simps) (simp add: mk_Keeper_def demo_mc_def n upt_rec)
  then obtain s' where run: "serverConnect demo_mc ?c ?kp (3, []) = Some (?kp\<lparr>curServer := 3\<rparr>, s')" by blast
  from serverConnect_connects_each_once [OF demo_counter_laws _ run] have "snd s' = [0, 2]"
    by (simp add: mk_Keeper_def others_def upt_rec)
  with run show ?thesis by blast
qed

end
