(* ===== verification/Barrier.thy ===== *)
theory Barrier
  imports Keeper
begin

text \<open>
  \<open>DSMKeeper::barrier\<close> (\<open>src/dsm/DSMKeeper.cpp\<close>): the last node resets a counter in
  memcached, every node increments it and then polls until it holds the number of nodes. The
  nodes run concurrently, so the barrier is a step relation: one memcached operation of one
  node at a time, in any order.
\<close>

datatype barrier_pc = BSet | BInc | BWait | BDone

definition barrier_key :: "string \<Rightarrow> string" where
  "barrier_key name = ''barrier-'' @ name"

text \<open>Where a node starts: \<open>getServerNR() - 1\<close> is computed in \<open>int\<close>.\<close>

definition barrier_entry :: "Keeper \<Rightarrow> barrier_pc" where
  "barrier_entry kp =
     (if int (unat (myNodeID kp)) = int (unat (getServerNR kp)) - 1 then BSet else BInc)"

text \<open>One operation of a node that waits for the count \<open>k\<close>; a failed operation is tried again.\<close>

definition barrier_op :: "'s memcached \<Rightarrow> string \<Rightarrow> u64 \<Rightarrow> barrier_pc \<Rightarrow> 's \<Rightarrow> barrier_pc \<times> 's" where
  "barrier_op mc name k p s =
     (let key = barrier_key name in
      case p of
        BSet \<Rightarrow> (case mc_set mc key (ascii ''0'') s of (r, s') \<Rightarrow> (if r = None then BSet else BInc, s'))
      | BInc \<Rightarrow> (case mc_incr mc key s of (r, s') \<Rightarrow> (if r = None then BInc else BWait, s'))
      | BWait \<Rightarrow> (case mc_get mc key s of (r, s') \<Rightarrow>
          (case r of None \<Rightarrow> (BWait, s')
           | Some v \<Rightarrow> (if word_of_nat (parse_num (text_of v)) = k then BDone else BWait, s')))
      | BDone \<Rightarrow> (BDone, s))"

text \<open>
  \<open>pcs i\<close> is the place of node \<open>i\<close>; between two operations the rest of the world may do
  anything but touch this barrier's key, whose value \<open>view\<close> shows.
\<close>

inductive barrier_step ::
  "'s memcached \<Rightarrow> ('s \<Rightarrow> u8 list option) \<Rightarrow> string \<Rightarrow> nat \<Rightarrow> u64
     \<Rightarrow> (nat \<Rightarrow> barrier_pc) \<times> 's \<Rightarrow> (nat \<Rightarrow> barrier_pc) \<times> 's \<Rightarrow> bool"
  for mc view name n k where
  node: "i < n \<Longrightarrow> barrier_op mc name k (pcs i) s = (p', s') \<Longrightarrow>
     barrier_step mc view name n k (pcs, s) (pcs(i := p'), s')"
| world: "view s' = view s \<Longrightarrow> barrier_step mc view name n k (pcs, s) (pcs, s')"

text \<open>Node \<open>i\<close> of \<open>n\<close> has the keeper \<open>node_keeper n i\<close>.\<close>

definition node_keeper :: "nat \<Rightarrow> nat \<Rightarrow> Keeper" where
  "node_keeper n i = (mk_Keeper (word_of_nat n))\<lparr>myNodeID := word_of_nat i\<rparr>"

definition barrier_start ::
  "u8 list option \<Rightarrow> ('s \<Rightarrow> u8 list option) \<Rightarrow> nat \<Rightarrow> (nat \<Rightarrow> barrier_pc) \<times> 's \<Rightarrow> bool" where
  "barrier_start v0 view n x \<longleftrightarrow>
     view (snd x) = v0 \<and> (\<forall>i < n. fst x i = barrier_entry (node_keeper n i))"

section \<open>What the barrier relies on\<close>

definition count_text :: "nat \<Rightarrow> u8 list" where
  "count_text c = ascii (to_string c)"

definition kv_laws :: "'s memcached \<Rightarrow> ('s \<Rightarrow> u8 list option) \<Rightarrow> string \<Rightarrow> bool" where
  "kv_laws mc view key \<longleftrightarrow>
     (\<forall>v s r s'. mc_set mc key v s = (r, s') \<longrightarrow> view s' = (if r = None then view s else Some v))
   \<and> (\<forall>s r s'. mc_incr mc key s = (r, s') \<longrightarrow>
        (if r = None then view s' = view s
         else (\<exists>c. view s = Some (count_text c) \<and> view s' = Some (count_text (c + 1)))))
   \<and> (\<forall>s r s'. mc_get mc key s = (r, s') \<longrightarrow> view s' = view s \<and> (r = None \<or> r = view s))"

text \<open>For progress: no spurious failures.\<close>

definition kv_total :: "'s memcached \<Rightarrow> ('s \<Rightarrow> u8 list option) \<Rightarrow> string \<Rightarrow> bool" where
  "kv_total mc view key \<longleftrightarrow>
     (\<forall>v s. fst (mc_set mc key v s) \<noteq> None)
   \<and> (\<forall>c s. view s = Some (count_text c) \<longrightarrow> fst (mc_incr mc key s) \<noteq> None)
   \<and> (\<forall>s. view s \<noteq> None \<longrightarrow> fst (mc_get mc key s) \<noteq> None)"

lemma count_text_inj [simp]: "count_text a = count_text b \<longleftrightarrow> a = b"
  unfolding count_text_def by (metis text_of_ascii to_string_inj)

lemma parse_count_text [simp]: "parse_num (text_of (count_text c)) = c"
  by (simp add: count_text_def)

lemma zero_text: "ascii ''0'' = count_text 0"
proof -
  have "to_string 0 = ''0''" by code_simp
  then show ?thesis by (simp add: count_text_def)
qed

section \<open>The invariant of a first use\<close>

definition passed :: "nat \<Rightarrow> (nat \<Rightarrow> barrier_pc) \<Rightarrow> nat set" where
  "passed n pcs = {i. i < n \<and> (pcs i = BWait \<or> pcs i = BDone)}"

text \<open>
  Before the reset the key is missing, so nobody gets past the increment; after it the
  counter is the number of nodes that have incremented.
\<close>

definition barrier_inv :: "('s \<Rightarrow> u8 list option) \<Rightarrow> nat \<Rightarrow> (nat \<Rightarrow> barrier_pc) \<times> 's \<Rightarrow> bool" where
  "barrier_inv view n x \<longleftrightarrow> (case x of (pcs, s) \<Rightarrow>
     (view s = None \<and> pcs (n - 1) = BSet \<and> (\<forall>i < n - 1. pcs i = BInc)
      \<or> view s = Some (count_text (card (passed n pcs))) \<and> (\<forall>i < n. pcs i \<noteq> BSet))
     \<and> (\<forall>i < n. pcs i = BDone \<longrightarrow> card (passed n pcs) = n))"

lemma passed_finite [simp]: "finite (passed n pcs)"
  by (simp add: passed_def)

lemma passed_le: "card (passed n pcs) \<le> n"
  using card_mono [of "{..<n}" "passed n pcs"] by (auto simp: passed_def)

lemma passed_all: "card (passed n pcs) = n \<Longrightarrow> i < n \<Longrightarrow> pcs i = BWait \<or> pcs i = BDone"
  using card_subset_eq [of "{..<n}" "passed n pcs"] by (auto simp: passed_def)

lemma passed_inc:
  assumes "i < n" "pcs i = BInc"
  shows "card (passed n (pcs(i := BWait))) = Suc (card (passed n pcs))"
proof -
  have "passed n (pcs(i := BWait)) = insert i (passed n pcs)" using assms by (auto simp: passed_def)
  moreover have "i \<notin> passed n pcs" using assms by (simp add: passed_def)
  ultimately show ?thesis by simp
qed

lemma passed_same:
  assumes "pcs i \<in> {BWait, BDone} \<longleftrightarrow> p \<in> {BWait, BDone}"
  shows "passed n (pcs(i := p)) = passed n pcs"
  using assms by (auto simp: passed_def)

lemma entry_pc:
  assumes "0 < n" "n < 2 ^ 16" "i < n"
  shows "barrier_entry (node_keeper n i) = (if i = n - 1 then BSet else BInc)"
proof -
  have "unat (getServerNR (node_keeper n i)) = n" "unat (myNodeID (node_keeper n i)) = i"
    using assms by (simp_all add: getServerNR_def node_keeper_def mk_Keeper_def unat_of_nat
        unsigned_ucast_eq take_bit_nat_eq_self_iff)
  then show ?thesis using assms by (auto simp: barrier_entry_def)
qed

lemma barrier_step_inv:
  assumes laws: "kv_laws mc view (barrier_key name)" and n: "0 < n" "n < 2 ^ 16"
    and step: "barrier_step mc view name n (word_of_nat n) x y" and inv: "barrier_inv view n x"
  shows "barrier_inv view n y"
  using step inv
proof (induction rule: barrier_step.induct)
  case (world s' s pcs)
  then show ?case by (simp add: barrier_inv_def)
next
  case (node i pcs s p' s')
  let ?key = "barrier_key name" and ?c = "card (passed n pcs)"
  have d: "pcs j = BDone \<Longrightarrow> j < n \<Longrightarrow> ?c = n" for j using node.prems by (auto simp: barrier_inv_def)
  show ?case
  proof (cases "pcs i")
    case BSet
    obtain r where r: "mc_set mc ?key (ascii ''0'') s = (r, s')" "p' = (if r = None then BSet else BInc)"
      using node.hyps(2) BSet by (auto simp: barrier_op_def split: prod.splits)
    have v: "view s' = (if r = None then view s else Some (count_text 0))"
      using laws r(1) unfolding kv_laws_def zero_text by blast
    have before: "view s = None" "pcs (n - 1) = BSet" "\<forall>j < n - 1. pcs j = BInc"
      using node.prems BSet node.hyps(1) by (auto simp: barrier_inv_def)
    have i: "i = n - 1"
    proof (rule ccontr)
      assume "i \<noteq> n - 1"
      then have "i < n - 1" using node.hyps(1) by simp
      then show False using before BSet by simp
    qed
    show ?thesis
    proof (cases "r = None")
      case True
      then show ?thesis using node.prems v r(2) BSet by (simp add: barrier_inv_def fun_upd_idem)
    next
      case False
      have all: "\<forall>j < n. (pcs(i := BInc)) j = BInc" 
      proof (intro allI impI)
        fix j assume "j < n"
        then have "j = i \<or> j < n - 1" using i by auto
        then show "(pcs(i := BInc)) j = BInc" using before by auto
      qed
      then have "passed n (pcs(i := BInc)) = {}" by (auto simp: passed_def)
      then show ?thesis using all v r(2) False by (auto simp: barrier_inv_def)
    qed
  next
    case BInc
    obtain r where r: "mc_incr mc ?key s = (r, s')" "p' = (if r = None then BInc else BWait)"
      using node.hyps(2) BInc by (auto simp: barrier_op_def split: prod.splits)
    show ?thesis
    proof (cases "r = None")
      case True
      then have "view s' = view s" using laws r(1) unfolding kv_laws_def by metis
      then show ?thesis using node.prems True r(2) BInc by (simp add: barrier_inv_def fun_upd_idem)
    next
      case False
      then obtain c where c: "view s = Some (count_text c)" "view s' = Some (count_text (c + 1))"
        using laws r(1) unfolding kv_laws_def by metis
      then have "c = ?c" "\<forall>j < n. pcs j \<noteq> BSet" using node.prems by (auto simp: barrier_inv_def)
      moreover have "\<forall>j < n. pcs j \<noteq> BDone" using d passed_all [of n pcs i] BInc node.hyps(1) by auto
      ultimately show ?thesis
        using c passed_inc [of i n pcs] node.hyps(1) BInc r(2) False by (auto simp: barrier_inv_def)
    qed
  next
    case BWait
    obtain r where r: "mc_get mc ?key s = (r, s')"
      "p' = (case r of None \<Rightarrow> BWait | Some v \<Rightarrow> if word_of_nat (parse_num (text_of v)) = (word_of_nat n :: u64) then BDone else BWait)"
      using node.hyps(2) BWait by (auto simp: barrier_op_def split: prod.splits option.splits)
    have v: "view s' = view s" "r = None \<or> r = view s" using laws r(1) unfolding kv_laws_def by blast+
    have after: "view s = Some (count_text ?c)" "\<forall>j < n. pcs j \<noteq> BSet"
    proof -
      have "\<not> (pcs (n - 1) = BSet \<and> (\<forall>j < n - 1. pcs j = BInc))"
      proof
        assume b: "pcs (n - 1) = BSet \<and> (\<forall>j < n - 1. pcs j = BInc)"
        have "i = n - 1 \<or> i < n - 1" using node.hyps(1) by auto
        then show False using b BWait by auto
      qed
      then show "view s = Some (count_text ?c)" "\<forall>j < n. pcs j \<noteq> BSet"
        using node.prems unfolding barrier_inv_def by auto
    qed
    have "?c < 2 ^ 16" using passed_le [of n pcs] n(2) by simp
    then have "word_of_nat ?c = (word_of_nat n :: u64) \<longleftrightarrow> ?c = n"
      using n(2) take_bit_nat_eq_self [of ?c 64] take_bit_nat_eq_self [of n 64]
      by (simp add: word_of_nat_eq_iff)
    then have fin: "p' = BDone \<longrightarrow> ?c = n" and p': "p' \<in> {BWait, BDone}"
      using r(2) v(2) after(1) by (auto split: option.splits if_splits)
    have "passed n (pcs(i := p')) = passed n pcs" using p' BWait by (intro passed_same) auto
    then show ?thesis using v after fin p' d by (auto simp: barrier_inv_def)
  next
    case BDone
    then show ?thesis using node by (simp add: barrier_op_def fun_upd_idem)
  qed
qed

interpretation barrier_sys: invariant_system
  "\<lambda>x. (kv_laws mc view (barrier_key name) \<and> 0 < n \<and> n < 2 ^ 16) \<and> barrier_start None view n x"
  "barrier_step mc view name n (word_of_nat n)"
  "\<lambda>x. (kv_laws mc view (barrier_key name) \<and> 0 < n \<and> n < 2 ^ 16) \<and> barrier_inv view n x"
  for mc :: "'s memcached" and view name n
proof unfold_locales
  fix x :: "(nat \<Rightarrow> barrier_pc) \<times> 's"
  assume "(kv_laws mc view (barrier_key name) \<and> 0 < n \<and> n < 2 ^ 16) \<and> barrier_start None view n x"
  then show "(kv_laws mc view (barrier_key name) \<and> 0 < n \<and> n < 2 ^ 16) \<and> barrier_inv view n x"
    by (cases x) (auto simp: barrier_start_def barrier_inv_def entry_pc)
next
  fix x y :: "(nat \<Rightarrow> barrier_pc) \<times> 's"
  assume "barrier_step mc view name n (word_of_nat n) x y"
    "(kv_laws mc view (barrier_key name) \<and> 0 < n \<and> n < 2 ^ 16) \<and> barrier_inv view n x"
  then show "(kv_laws mc view (barrier_key name) \<and> 0 < n \<and> n < 2 ^ 16) \<and> barrier_inv view n y"
    using barrier_step_inv by blast
qed

section \<open>Properties\<close>

text \<open>
  C16. Nobody leaves the barrier early. On its first use (the key does not exist yet), whatever
  the order of the memcached operations of the \<open>n\<close> nodes and whatever fails and is tried
  again, a node has left the barrier only when every node has arrived (incremented).
\<close>

theorem barrier_waits_for_all:
  assumes laws: "kv_laws mc view (barrier_key name)" and n: "0 < n" "n < 2 ^ 16"
    and reach: "reachable (barrier_start None view n) (barrier_step mc view name n (word_of_nat n)) (pcs, s)"
    and left: "i < n" "pcs i = BDone"
  shows "\<forall>j < n. pcs j = BWait \<or> pcs j = BDone"
proof -
  have "barrier_inv view n (pcs, s)"
    using barrier_sys.reachable_inv [of mc view name n "(pcs, s)"] laws n reach by simp
  with left passed_all show ?thesis by (auto simp: barrier_inv_def)
qed

text \<open>Progress: from an unfinished state some node has a step that brings the barrier closer to its end.\<close>

fun pc_rank :: "barrier_pc \<Rightarrow> nat" where
  "pc_rank BSet = 3" | "pc_rank BInc = 2" | "pc_rank BWait = 1" | "pc_rank BDone = 0"

definition remaining :: "nat \<Rightarrow> (nat \<Rightarrow> barrier_pc) \<Rightarrow> nat" where
  "remaining n pcs = (\<Sum>i < n. pc_rank (pcs i))"

lemma remaining_step:
  assumes "i < n" "pc_rank p < pc_rank (pcs i)"
  shows "remaining n (pcs(i := p)) < remaining n pcs"
proof -
  have "(\<Sum>j < n. pc_rank ((pcs(i := p)) j)) < (\<Sum>j < n. pc_rank (pcs j))"
    by (rule sum_strict_mono_ex1) (use assms in auto)
  then show ?thesis by (simp add: remaining_def)
qed

lemma barrier_progress:
  assumes laws: "kv_laws mc view (barrier_key name)" and total: "kv_total mc view (barrier_key name)"
    and n: "0 < n" and inv: "barrier_inv view n (pcs, s)" and more: "\<exists>i < n. pcs i \<noteq> BDone"
  shows "\<exists>i < n. \<exists>p' s'. barrier_op mc name (word_of_nat n) (pcs i) s = (p', s') \<and> pc_rank p' < pc_rank (pcs i)"
proof -
  let ?key = "barrier_key name"
  consider (set) "\<exists>i < n. pcs i = BSet" | (inc) "\<forall>i < n. pcs i \<noteq> BSet" "\<exists>i < n. pcs i = BInc"
    | (wait) "\<forall>i < n. pcs i = BWait \<or> pcs i = BDone" by (metis barrier_pc.exhaust)
  then show ?thesis
  proof cases
    case set
    then obtain i where "i < n" "pcs i = BSet" by blast
    moreover have "fst (mc_set mc ?key (ascii ''0'') s) \<noteq> None" using total by (simp add: kv_total_def)
    ultimately show ?thesis
      by (intro exI [of _ i]) (auto simp: barrier_op_def Let_def split: prod.splits)
  next
    case inc
    then obtain i where "i < n" "pcs i = BInc" by blast
    moreover have "view s = Some (count_text (card (passed n pcs)))"
      using inv inc n by (auto simp: barrier_inv_def)
    then have "fst (mc_incr mc ?key s) \<noteq> None" using total by (auto simp: kv_total_def)
    ultimately show ?thesis
      by (intro exI [of _ i]) (auto simp: barrier_op_def Let_def split: prod.splits)
  next
    case wait
    then obtain i where i: "i < n" "pcs i = BWait" using more by auto
    have "passed n pcs = {..<n}" using wait by (auto simp: passed_def)
    moreover have "pcs (n - 1) \<noteq> BSet" using wait n by (metis Suc_pred' barrier_pc.distinct(3,5) lessI)
    ultimately have v: "view s = Some (count_text n)" using inv by (simp add: barrier_inv_def)
    then have "fst (mc_get mc ?key s) \<noteq> None" using total by (auto simp: kv_total_def)
    moreover have "\<forall>r s'. mc_get mc ?key s = (r, s') \<longrightarrow> r = None \<or> r = view s"
      using laws unfolding kv_laws_def by blast
    ultimately show ?thesis using i v
      by (intro exI [of _ i]) (auto simp: barrier_op_def Let_def split: prod.splits option.splits)
  qed
qed

text \<open>
  C30. The barrier cannot get stuck on its first use: from every reachable state, when
  memcached does not fail, there is a continuation in which every node leaves it.
\<close>

theorem barrier_can_complete:
  assumes laws: "kv_laws mc view (barrier_key name)" and total: "kv_total mc view (barrier_key name)"
    and n: "0 < n" "n < 2 ^ 16"
    and reach: "reachable (barrier_start None view n) (barrier_step mc view name n (word_of_nat n)) (pcs, s)"
  shows "\<exists>pcs' s'. (barrier_step mc view name n (word_of_nat n))\<^sup>*\<^sup>* (pcs, s) (pcs', s') \<and> (\<forall>i < n. pcs' i = BDone)"
proof -
  let ?step = "barrier_step mc view name n (word_of_nat n)"
  have "barrier_inv view n (pcs, s)"
    using barrier_sys.reachable_inv [of mc view name n "(pcs, s)"] laws n reach by simp
  then show ?thesis
  proof (induction "remaining n pcs" arbitrary: pcs s rule: less_induct)
    case less
    show ?case
    proof (cases "\<forall>i < n. pcs i = BDone")
      case True
      then show ?thesis by blast
    next
      case False
      then obtain i p' s' where i: "i < n" "barrier_op mc name (word_of_nat n) (pcs i) s = (p', s')"
        "pc_rank p' < pc_rank (pcs i)"
        using barrier_progress [OF laws total n(1) less.prems] by blast
      then have step: "?step (pcs, s) (pcs(i := p'), s')" by (intro node)
      have "remaining n (pcs(i := p')) < remaining n pcs" using i(1,3) by (rule remaining_step)
      from less.hyps [OF this barrier_step_inv [OF laws n step less.prems]]
      show ?thesis using step by (meson converse_rtranclp_into_rtranclp)
    qed
  qed
qed

text \<open>
  C38. A key must not be used twice. When the counter of an earlier use is still there, the
  increment of a node that arrives before the last node's reset is lost: two nodes reach a
  state from which neither can ever leave, although memcached never fails.
\<close>

theorem barrier_reuse_hangs:
  assumes laws: "kv_laws mc view (barrier_key name)" and total: "kv_total mc view (barrier_key name)"
    and old: "barrier_start (Some (count_text c)) view 2 (pcs, s)"
  shows "\<exists>pcs' s'. (barrier_step mc view name 2 2)\<^sup>*\<^sup>* (pcs, s) (pcs', s')
     \<and> (\<forall>y. (barrier_step mc view name 2 2)\<^sup>*\<^sup>* (pcs', s') y \<longrightarrow> fst y 0 = BWait \<and> fst y 1 = BWait)"
proof -
  let ?step = "barrier_step mc view name 2 2" and ?key = "barrier_key name"
  note L = laws [unfolded kv_laws_def] and T = total [unfolded kv_total_def]
  have p: "pcs 0 = BInc" "pcs 1 = BSet" and v: "view s = Some (count_text c)"
    using old entry_pc [of 2 0] entry_pc [of 2 1] by (auto simp: barrier_start_def)
  obtain r1 s1 where 1: "mc_incr mc ?key s = (r1, s1)" by (cases "mc_incr mc ?key s")
  have "r1 \<noteq> None" using T v 1 by (metis fst_conv)
  obtain r2 s2 where 2: "mc_set mc ?key (ascii ''0'') s1 = (r2, s2)" by (cases "mc_set mc ?key (ascii ''0'') s1")
  have "r2 \<noteq> None" using T 2 by (metis fst_conv)
  then have v2: "view s2 = Some (count_text 0)" using L 2 unfolding zero_text by metis
  obtain r3 s3 where 3: "mc_incr mc ?key s2 = (r3, s3)" by (cases "mc_incr mc ?key s2")
  have "r3 \<noteq> None" using T v2 3 by (metis fst_conv)
  then obtain b where "view s2 = Some (count_text b)" "view s3 = Some (count_text (b + 1))"
    using L 3 by metis
  then have v3: "view s3 = Some (count_text 1)" using v2 by simp
  let ?p1 = "pcs(0 := BWait)" and ?p2 = "pcs(0 := BWait, 1 := BInc)" and ?p3 = "pcs(0 := BWait, 1 := BWait)"
  have a1: "?step (pcs, s) (?p1, s1)" by (rule node) (use p 1 \<open>r1 \<noteq> None\<close> in \<open>simp_all add: barrier_op_def Let_def\<close>)
  have a2: "?step (?p1, s1) (?p2, s2)" by (rule node) (use p 2 \<open>r2 \<noteq> None\<close> in \<open>simp_all add: barrier_op_def Let_def\<close>)
  have a3: "?step (?p2, s2) (?p2(1 := BWait), s3)" by (rule node) (use p 3 \<open>r3 \<noteq> None\<close> in \<open>simp_all add: barrier_op_def Let_def\<close>)
  have run: "?step\<^sup>*\<^sup>* (pcs, s) (?p2(1 := BWait), s3)"
    by (rule converse_rtranclp_into_rtranclp [of ?step, OF a1],
        rule converse_rtranclp_into_rtranclp [of ?step, OF a2], rule r_into_rtranclp [of ?step, OF a3])
  have stuck: "fst y 0 = BWait \<and> fst y 1 = BWait \<and> view (snd y) = Some (count_text 1)"
    if "?step\<^sup>*\<^sup>* (?p2(1 := BWait), s3) y" for y
    using that
  proof (induction rule: rtranclp_induct)
    case base
    then show ?case using v3 by simp
  next
    case (step y z)
    from step.hyps(2) step.IH show ?case
    proof (induction rule: barrier_step.induct)
      case (node i pcs s p' s')
      then have w: "pcs i = BWait" by (auto simp: less_2_cases_iff)
      obtain r where g: "mc_get mc ?key s = (r, s')"
        "p' = (case r of None \<Rightarrow> BWait | Some v \<Rightarrow> if word_of_nat (parse_num (text_of v)) = (2 :: u64) then BDone else BWait)"
        using node.hyps(2) w by (auto simp: barrier_op_def Let_def split: prod.splits option.splits)
      then have "view s' = view s" "r = None \<or> r = view s" using L by blast+
      then show ?case using node.prems g(2) by (auto split: option.splits)
    qed simp
  qed
  then show ?thesis using run by blast
qed

section \<open>A concrete store\<close>

definition demo_kv :: "u8 list option memcached" where
  "demo_kv = \<lparr>mc_get = (\<lambda>k s. (s, s)), mc_set = (\<lambda>k v s. (Some (), Some v)),
     mc_incr = (\<lambda>k s. case s of None \<Rightarrow> (None, s)
       | Some v \<Rightarrow> let n = parse_num (text_of v) in
           if v = count_text n then (Some (word_of_nat (n + 1)), Some (count_text (n + 1))) else (None, s))\<rparr>"

lemma demo_kv_laws: "kv_laws demo_kv id key"
  by (auto simp: kv_laws_def demo_kv_def Let_def split: option.splits if_splits)

lemma demo_kv_total: "kv_total demo_kv id key"
  by (auto simp: kv_total_def demo_kv_def Let_def)

definition demo_pcs :: "nat \<Rightarrow> barrier_pc" where
  "demo_pcs i = (if i = 1 then BSet else BInc)"

lemma demo_barrier_start: "barrier_start v id 2 (demo_pcs, v)"
  by (auto simp: barrier_start_def demo_pcs_def entry_pc)

lemma demo_ops:
  "barrier_op demo_kv name k BSet s = (BInc, Some (count_text 0))"
  "barrier_op demo_kv name k BInc (Some (count_text c)) = (BWait, Some (count_text (c + 1)))"
  "barrier_op demo_kv name k BWait (Some (count_text c)) = (if word_of_nat c = k then BDone else BWait, Some (count_text c))"
  by (simp_all add: barrier_op_def demo_kv_def Let_def zero_text)

theorem barrier_waits_for_all_witness:
  "\<exists>pcs s. reachable (barrier_start None id 2) (barrier_step demo_kv id ''x'' 2 2) (pcs, s)
     \<and> pcs 0 = BDone \<and> (pcs 1 = BWait \<or> pcs 1 = BDone)"
proof -
  let ?R = "reachable (barrier_start None id 2) (barrier_step demo_kv id ''x'' 2 (word_of_nat 2))"
  let ?p1 = "demo_pcs(1 := BInc)" and ?p2 = "demo_pcs(1 := BInc, 1 := BWait)"
    and ?p3 = "demo_pcs(1 := BInc, 1 := BWait, 0 := BWait)" and ?p4 = "demo_pcs(1 := BInc, 1 := BWait, 0 := BWait, 0 := BDone)"
  have "?R (demo_pcs, None)" by (rule reach_start, rule demo_barrier_start)
  then have "?R (?p1, Some (count_text 0))"
    by (rule reach_step) (rule node, simp_all add: demo_pcs_def demo_ops)
  then have "?R (?p2, Some (count_text 1))"
    by (rule reach_step) (rule node, simp_all add: demo_ops)
  then have "?R (?p3, Some (count_text 2))"
    by (rule reach_step) (rule node, simp_all add: demo_pcs_def demo_ops)
  then have r: "?R (?p4, Some (count_text 2))"
    by (rule reach_step) (rule node, simp_all add: demo_ops)
  from barrier_waits_for_all [OF demo_kv_laws _ _ r, of 0] have "\<forall>j < 2. ?p4 j = BWait \<or> ?p4 j = BDone" by simp
  with r show ?thesis by (intro exI [of _ ?p4] exI [of _ "Some (count_text 2)"]) simp
qed

theorem barrier_can_complete_witness:
  "\<exists>pcs' s'. (barrier_step demo_kv id ''x'' 2 2)\<^sup>*\<^sup>* (demo_pcs, None) (pcs', s') \<and> (\<forall>i < 2. pcs' i = BDone)"
proof -
  have "reachable (barrier_start None id 2) (barrier_step demo_kv id ''x'' 2 (word_of_nat 2)) (demo_pcs, None)"
    by (rule reach_start, rule demo_barrier_start)
  from barrier_can_complete [OF demo_kv_laws demo_kv_total _ _ this] show ?thesis by simp
qed

theorem barrier_reuse_hangs_witness:
  "\<exists>pcs' s'. (barrier_step demo_kv id ''x'' 2 2)\<^sup>*\<^sup>* (demo_pcs, Some (count_text 2)) (pcs', s')
     \<and> pcs' 0 = BWait \<and> pcs' 1 = BWait"
proof -
  from barrier_reuse_hangs [OF demo_kv_laws demo_kv_total demo_barrier_start, where c = 2 and name = "''x''"]
  obtain pcs' s' where r: "(barrier_step demo_kv id ''x'' 2 2)\<^sup>*\<^sup>* (demo_pcs, Some (count_text 2)) (pcs', s')"
    and h: "\<forall>y. (barrier_step demo_kv id ''x'' 2 2)\<^sup>*\<^sup>* (pcs', s') y \<longrightarrow> fst y 0 = BWait \<and> fst y 1 = BWait"
    by blast
  from h have "fst (pcs', s') 0 = BWait \<and> fst (pcs', s') 1 = BWait" by blast
  with r show ?thesis by (intro exI [of _ pcs'] exI [of _ s']) simp
qed

end
