(* ===== verification/DSM_Keeper.thy ===== *)
theory DSM_Keeper
  imports Node_Connect Keeper Rdma_QP
begin

text \<open>
  \<open>DSMKeeper\<close> (\<open>src/dsm/DSMKeeper.cpp\<close>): two nodes connect by exchanging, through memcached,
  a record of their addresses and queue pair numbers under the keys \<open>a-b\<close> and \<open>b-a\<close>, and
  by moving every queue pair between them to ready-to-send with the number read from the
  peer's record. Also the sum over all nodes.
\<close>

section \<open>The exchanged record\<close>

record ExchangeMeta =
  ex_lid :: u16
  ex_gid :: "u8 list"
  ex_dsmBase :: u64
  dirTh :: "u32 list"
  appUdQpn :: "u32 list"
  appRcQpn2dir :: "u32 list list"
  dirRcQpn2app :: "u32 list list"

definition meta_wf :: "ExchangeMeta \<Rightarrow> bool" where
  "meta_wf m \<longleftrightarrow> length (ex_gid m) = 16 \<and> length (dirTh m) = NR_DIRECTORY
     \<and> length (appUdQpn m) = kMaxNetThread
     \<and> length (appRcQpn2dir m) = kMaxNetThread \<and> (\<forall>r \<in> set (appRcQpn2dir m). length r = NR_DIRECTORY)
     \<and> length (dirRcQpn2app m) = NR_DIRECTORY \<and> (\<forall>r \<in> set (dirRcQpn2app m). length r = kMaxNetThread)"

text \<open>The packed structure in memory; memcached stores its bytes.\<close>

definition u32_bytes :: "u32 list \<Rightarrow> u8 list" where
  "u32_bytes ws = concat (map (le_bytes 4) ws)"

fun take_u32s :: "nat \<Rightarrow> u8 list \<Rightarrow> u32 list \<times> u8 list" where
  "take_u32s 0 bs = ([], bs)"
| "take_u32s (Suc n) bs = (case take_u32s n (drop 4 bs) of (ws, rest) \<Rightarrow> (le_word (take 4 bs) # ws, rest))"

fun take_rows :: "nat \<Rightarrow> nat \<Rightarrow> u8 list \<Rightarrow> u32 list list \<times> u8 list" where
  "take_rows 0 n bs = ([], bs)"
| "take_rows (Suc k) n bs =
     (case take_u32s n bs of (r, bs) \<Rightarrow> case take_rows k n bs of (rs, rest) \<Rightarrow> (r # rs, rest))"

definition meta_bytes :: "ExchangeMeta \<Rightarrow> u8 list" where
  "meta_bytes m = le_bytes 2 (ex_lid m) @ ex_gid m @ le_bytes 8 (ex_dsmBase m) @ u32_bytes (dirTh m)
     @ u32_bytes (appUdQpn m) @ concat (map u32_bytes (appRcQpn2dir m)) @ concat (map u32_bytes (dirRcQpn2app m))"

definition meta_of_bytes :: "u8 list \<Rightarrow> ExchangeMeta" where
  "meta_of_bytes bs =
     (let l = le_word (take 2 bs); bs = drop 2 bs; g = take 16 bs; bs = drop 16 bs;
          b = le_word (take 8 bs); bs = drop 8 bs;
          (d, bs) = take_u32s NR_DIRECTORY bs; (u, bs) = take_u32s kMaxNetThread bs;
          (a, bs) = take_rows kMaxNetThread NR_DIRECTORY bs; (r, bs) = take_rows NR_DIRECTORY kMaxNetThread bs
      in \<lparr>ex_lid = l, ex_gid = g, ex_dsmBase = b, dirTh = d, appUdQpn = u, appRcQpn2dir = a, dirRcQpn2app = r\<rparr>)"

lemma take_u32s_bytes: "take_u32s (length ws) (u32_bytes ws @ rest) = (ws, rest)"
  by (induction ws) (simp_all add: u32_bytes_def le_word_le_bytes)

lemma take_rows_bytes:
  "\<forall>r \<in> set rs. length r = n \<Longrightarrow> take_rows (length rs) n (concat (map u32_bytes rs) @ rest) = (rs, rest)"
proof (induction rs)
  case (Cons r rs)
  then have "take_u32s n (u32_bytes r @ concat (map u32_bytes rs) @ rest) = (r, concat (map u32_bytes rs) @ rest)"
    using take_u32s_bytes [of r] by simp
  with Cons show ?case by simp
qed simp

lemma meta_of_meta_bytes:
  assumes wf: "meta_wf m"
  shows "meta_of_bytes (meta_bytes m) = m"
proof -
  have g: "length (ex_gid m) = 16" and d: "NR_DIRECTORY = length (dirTh m)" and u: "kMaxNetThread = length (appUdQpn m)"
    and a: "kMaxNetThread = length (appRcQpn2dir m)" "\<forall>r \<in> set (appRcQpn2dir m). length r = NR_DIRECTORY"
    and r: "NR_DIRECTORY = length (dirRcQpn2app m)" "\<forall>r \<in> set (dirRcQpn2app m). length r = kMaxNetThread"
    using wf by (simp_all add: meta_wf_def)
  have D: "take_u32s NR_DIRECTORY (u32_bytes (dirTh m) @ rest) = (dirTh m, rest)" for rest
    using take_u32s_bytes [of "dirTh m"] d by simp
  have U: "take_u32s kMaxNetThread (u32_bytes (appUdQpn m) @ rest) = (appUdQpn m, rest)" for rest
    using take_u32s_bytes [of "appUdQpn m"] u by simp
  have A: "take_rows kMaxNetThread NR_DIRECTORY (concat (map u32_bytes (appRcQpn2dir m)) @ rest) = (appRcQpn2dir m, rest)" for rest
    using take_rows_bytes [OF a(2)] a(1) by simp
  have R: "take_rows NR_DIRECTORY kMaxNetThread (concat (map u32_bytes (dirRcQpn2app m))) = (dirRcQpn2app m, [])"
    using take_rows_bytes [OF r(2), of "[]"] r(1) by simp
  show ?thesis
    by (simp add: meta_of_bytes_def meta_bytes_def Let_def g D U A R le_word_le_bytes)
qed

lemma length_u32_bytes [simp]: "length (u32_bytes ws) = 4 * length ws"
  by (induction ws) (simp_all add: u32_bytes_def)

lemma length_rows: "\<forall>r \<in> set rs. length r = n \<Longrightarrow> length (concat (map u32_bytes rs)) = 4 * n * length rs"
  by (induction rs) simp_all

text \<open>
  The record survives the exchange: for a record with the dimensions of the structure,
  reading the bytes that were stored gives the record back; it takes 462 bytes.
\<close>

theorem exchange_meta_roundtrip:
  assumes wf: "meta_wf m"
  shows "meta_of_bytes (meta_bytes m) = m \<and> length (meta_bytes m) = 462"
proof
  show "meta_of_bytes (meta_bytes m) = m" by (rule meta_of_meta_bytes [OF wf])
  have "length (concat (map u32_bytes (appRcQpn2dir m))) = 144" "length (concat (map u32_bytes (dirRcQpn2app m))) = 144"
    using wf length_rows [of "appRcQpn2dir m" NR_DIRECTORY] length_rows [of "dirRcQpn2app m" kMaxNetThread]
    by (simp_all add: meta_wf_def kMaxNetThread_def NR_DIRECTORY_def)
  with wf show "length (meta_bytes m) = 462"
    by (simp add: meta_bytes_def meta_wf_def kMaxNetThread_def NR_DIRECTORY_def)
qed

theorem exchange_meta_roundtrip_witness:
  "meta_of_bytes (meta_bytes \<lparr>ex_lid = 7, ex_gid = replicate 16 1, ex_dsmBase = 0x1000, dirTh = [5],
      appUdQpn = replicate 36 9, appRcQpn2dir = replicate 36 [3], dirRcQpn2app = [replicate 36 4]\<rparr>) =
    \<lparr>ex_lid = 7, ex_gid = replicate 16 1, ex_dsmBase = 0x1000, dirTh = [5],
      appUdQpn = replicate 36 9, appRcQpn2dir = replicate 36 [3], dirRcQpn2app = [replicate 36 4]\<rparr>"
  by (rule conjunct1 [OF exchange_meta_roundtrip]) (simp add: meta_wf_def NR_DIRECTORY_def kMaxNetThread_def)

section \<open>Keys\<close>

definition setKey :: "u16 \<Rightarrow> u16 \<Rightarrow> string" where
  "setKey my remoteID = to_string (unat my) @ ''-'' @ to_string (unat remoteID)"

definition getKey :: "u16 \<Rightarrow> u16 \<Rightarrow> string" where
  "getKey my remoteID = to_string (unat remoteID) @ ''-'' @ to_string (unat my)"

lemma digits_split:
  assumes "xs @ c # ys = xs' @ c # ys'" "\<forall>x \<in> set xs. x \<noteq> c" "\<forall>x \<in> set xs'. x \<noteq> c"
  shows "xs = xs' \<and> ys = ys'"
  using assms
proof (induction xs arbitrary: xs')
  case Nil
  then show ?case by (cases xs') auto
next
  case (Cons x xs)
  then show ?case by (cases xs') auto
qed

lemma not_dash: "x \<in> set (to_string n) \<Longrightarrow> x \<noteq> CHR ''-''"
  using to_string_digits [of x n] by (auto simp: is_digit_def)

text \<open>
  Every ordered pair of nodes has its own key, and a node reads exactly the key under which
  its peer stores: \<open>setKey\<close> is injective, \<open>getKey\<close> of one side is \<open>setKey\<close> of the other, and no
  node reads a key that it writes itself unless it is its own peer.
\<close>

theorem exchange_keys_match:
  "(setKey a b = setKey c d \<longleftrightarrow> a = c \<and> b = d) \<and> getKey a b = setKey b a
     \<and> (getKey a b = setKey a c \<longleftrightarrow> a = b \<and> a = c)"
proof -
  have inj: "setKey a b = setKey c d \<longleftrightarrow> a = c \<and> b = d" for a b c d
  proof
    assume "setKey a b = setKey c d"
    then have "to_string (unat a) @ CHR ''-'' # to_string (unat b) = to_string (unat c) @ CHR ''-'' # to_string (unat d)"
      by (simp add: setKey_def)
    from digits_split [OF this] not_dash have "to_string (unat a) = to_string (unat c) \<and> to_string (unat b) = to_string (unat d)"
      by blast
    then show "a = c \<and> b = d" by (simp add: word_unat_eq_iff)
  qed simp
  have "getKey a b = setKey b a" for a b by (simp add: getKey_def setKey_def)
  then show ?thesis using inj by auto
qed

section \<open>The state of a node\<close>

record node =
  my_id :: u16
  thCon :: "ThreadConnection list"
  dirCon :: "DirectoryConnection list"
  remoteCon :: "RemoteConnection list"
  localMeta :: ExchangeMeta

definition qp_number :: "ibv_qp option \<Rightarrow> u32" where
  "qp_number q = (case q of None \<Rightarrow> 0 | Some qp \<Rightarrow> qp_num qp)"

definition initLocalMeta :: "node \<Rightarrow> node" where
  "initLocalMeta nd =
     nd\<lparr>localMeta := (localMeta nd)\<lparr>
          ex_dsmBase := dsmPool (dirCon nd ! 0), ex_lid := lid (th_ctx (thCon nd ! 0)),
          ex_gid := take 16 (gid (th_ctx (thCon nd ! 0))),
          appUdQpn := map (\<lambda>i. conn_qp (message (thCon nd ! i))) [0..<kMaxNetThread],
          dirTh := map (\<lambda>i. mr_rkey (dsmMR (dirCon nd ! i))) [0..<NR_DIRECTORY]\<rparr>\<rparr>"

definition setDataToRemote :: "u16 \<Rightarrow> node \<Rightarrow> node" where
  "setDataToRemote remoteID nd =
     nd\<lparr>localMeta := (localMeta nd)\<lparr>
          dirRcQpn2app := map (\<lambda>i. map (\<lambda>k. qp_number (data2app (dirCon nd ! i) ! k ! unat remoteID))
                                     [0..<kMaxNetThread]) [0..<NR_DIRECTORY],
          appRcQpn2dir := map (\<lambda>i. map (\<lambda>k. qp_number (qp_data (thCon nd ! i) ! k ! unat remoteID))
                                     [0..<NR_DIRECTORY]) [0..<kMaxNetThread]\<rparr>\<rparr>"

text \<open>
  One loop body of \<open>setDataFromRemote\<close>: skip a null queue pair, assert a number and the type,
  and connect. \<open>None\<close> is a failed assertion.
\<close>

fun connect_all ::
  "'s modify_fn \<Rightarrow> u16 \<Rightarrow> u8 list \<Rightarrow> (ibv_qp option \<times> RdmaContext \<times> u32) list \<Rightarrow> 's \<Rightarrow> 's option" where
  "connect_all modify rlid rgid [] s = Some s"
| "connect_all modify rlid rgid ((q, context, remoteQPN) # ps) s =
     (case q of
        None \<Rightarrow> connect_all modify rlid rgid ps s
      | Some qp \<Rightarrow>
          if remoteQPN = 0 \<or> qp_type qp \<noteq> IBV_QPT_RC then None
          else connect_all modify rlid rgid ps (connect_qp modify qp context remoteQPN rlid rgid s))"

definition dir_pairs :: "node \<Rightarrow> u16 \<Rightarrow> ExchangeMeta \<Rightarrow> (ibv_qp option \<times> RdmaContext \<times> u32) list" where
  "dir_pairs nd remoteID m =
     map (\<lambda>(i, k). (data2app (dirCon nd ! i) ! k ! unat remoteID, dir_ctx (dirCon nd ! i), appRcQpn2dir m ! k ! i))
       (List.product [0..<NR_DIRECTORY] [0..<kMaxNetThread])"

definition app_pairs :: "node \<Rightarrow> u16 \<Rightarrow> ExchangeMeta \<Rightarrow> (ibv_qp option \<times> RdmaContext \<times> u32) list" where
  "app_pairs nd remoteID m =
     map (\<lambda>(i, k). (qp_data (thCon nd ! i) ! k ! unat remoteID, th_ctx (thCon nd ! i), dirRcQpn2app m ! k ! i))
       (List.product [0..<kMaxNetThread] [0..<NR_DIRECTORY])"

text \<open>The address handles of the peer, one per thread; a null handle fails an assertion.\<close>

fun create_ahs ::
  "(u64 \<Rightarrow> ibv_ah_attr \<Rightarrow> 's \<Rightarrow> u64 option \<times> 's) \<Rightarrow> ExchangeMeta \<Rightarrow> ThreadConnection list \<Rightarrow> 's
     \<Rightarrow> (u64 list \<times> 's) option" where
  "create_ahs create_ah m [] s = Some ([], s)"
| "create_ahs create_ah m (t # ts) s =
     (case create_ah (pd_handle (th_ctx t)) (fillAhAttr (ucast (ex_lid m)) (ex_gid m) (th_ctx t)) s of
        (None, s) \<Rightarrow> None
      | (Some a, s) \<Rightarrow> map_option (\<lambda>(as, s). (a # as, s)) (create_ahs create_ah m ts s))"

definition setDataFromRemote ::
  "'s rdma_device \<Rightarrow> u16 \<Rightarrow> ExchangeMeta \<Rightarrow> node \<Rightarrow> 's \<Rightarrow> (node \<times> 's) option" where
  "setDataFromRemote dev remoteID m nd s =
     Option.bind (connect_all (dev_modify_qp dev) (ex_lid m) (ex_gid m) (dir_pairs nd remoteID m) s) (\<lambda>s.
     Option.bind (connect_all (dev_modify_qp dev) (ex_lid m) (ex_gid m) (app_pairs nd remoteID m) s) (\<lambda>s.
     map_option (\<lambda>(ahs, s).
        (nd\<lparr>remoteCon := (remoteCon nd)[unat remoteID :=
             (remoteCon nd ! unat remoteID)\<lparr>dsmBase := ex_dsmBase m, dsmRKey := dirTh m,
                appMessageQPN := appUdQpn m, appAh := ahs\<rparr>]\<rparr>, s))
       (create_ahs (dev_create_ah dev) m (take kMaxNetThread (thCon nd)) s)))"

text \<open>
  \<open>connectNode\<close> on a world that holds both the store and the device, and \<open>connectMySelf\<close>.
\<close>

definition connectNode ::
  "('k \<times> 's) memcached \<Rightarrow> 's rdma_device \<Rightarrow> u16 \<Rightarrow> node \<Rightarrow> 'k \<times> 's \<Rightarrow> (node \<times> 'k \<times> 's) option" where
  "connectNode mc dev remoteID nd w =
     (let nd = setDataToRemote remoteID nd
      in Option.bind (memSet mc (setKey (my_id nd) remoteID) (meta_bytes (localMeta nd)) w) (\<lambda>w.
         Option.bind (memGet mc (getKey (my_id nd) remoteID) w) (\<lambda>(bs, kv, s).
           map_option (\<lambda>(nd, s). (nd, kv, s)) (setDataFromRemote dev remoteID (meta_of_bytes bs) nd s))))"

definition connectMySelf :: "'s rdma_device \<Rightarrow> node \<Rightarrow> 's \<Rightarrow> (node \<times> 's) option" where
  "connectMySelf dev nd s =
     (let nd = setDataToRemote (my_id nd) nd in setDataFromRemote dev (my_id nd) (localMeta nd) nd s)"

section \<open>Connecting two nodes\<close>

text \<open>
  A node as the constructors build it (see \<open>Node_Connect\<close>): for each peer, the queue pairs that
  the mapping of the cluster calls for.
\<close>

definition node_ok :: "u16 \<Rightarrow> node \<Rightarrow> bool" where
  "node_ok mc nd \<longleftrightarrow> unat (my_id nd) < unat mc \<and> length (thCon nd) = kMaxNetThread
     \<and> (\<forall>t < kMaxNetThread. \<forall>d < NR_DIRECTORY. \<forall>k < unat mc.
          (if rc_target mc (unat (my_id nd)) t = d then rc_created (qp_data (thCon nd ! t) ! d ! k)
           else qp_data (thCon nd ! t) ! d ! k = None)
        \<and> (if rc_target mc k t = d then rc_created (data2app (dirCon nd ! d) ! t ! k)
           else data2app (dirCon nd ! d) ! t ! k = None))"

lemma node_okD:
  assumes "node_ok mc nd" "t < kMaxNetThread" "d < NR_DIRECTORY" "k < unat mc"
  shows "if rc_target mc (unat (my_id nd)) t = d then rc_created (qp_data (thCon nd ! t) ! d ! k)
           else qp_data (thCon nd ! t) ! d ! k = None"
    and "if rc_target mc k t = d then rc_created (data2app (dirCon nd ! d) ! t ! k)
           else data2app (dirCon nd ! d) ! t ! k = None"
  using assms unfolding node_ok_def by simp_all

definition qp_nums :: "(ibv_qp option \<times> RdmaContext \<times> u32) list \<Rightarrow> u32 list" where
  "qp_nums ps = concat (map (\<lambda>(q, _). case q of None \<Rightarrow> [] | Some qp \<Rightarrow> [qp_num qp]) ps)"

lemma qp_nums_simps [simp]:
  "qp_nums [] = []" "qp_nums ((None, c, n) # ps) = qp_nums ps"
  "qp_nums ((Some qp, c, n) # ps) = qp_num qp # qp_nums ps"
  "qp_nums (ps @ qs) = qp_nums ps @ qp_nums qs"
  by (simp_all add: qp_nums_def)

lemma qp_nums_mem: "(Some qp, c, n) \<in> set ps \<Longrightarrow> qp_num qp \<in> set (qp_nums ps)"
  by (force simp: qp_nums_def)

lemma connect_all_append:
  "connect_all modify l g (ps @ qs) s = Option.bind (connect_all modify l g ps s) (connect_all modify l g qs)"
  by (induction ps arbitrary: s) (auto split: option.splits)

lemma connect_all_ok:
  assumes v: "verbs_modify modify st dest"
    and ok: "\<forall>qp c n. (Some qp, c, n) \<in> set ps \<longrightarrow> n \<noteq> 0 \<and> qp_type qp = IBV_QPT_RC"
    and "distinct (qp_nums ps)" and "\<forall>x \<in> set (qp_nums ps). st s x = IBV_QPS_RESET"
  shows "\<exists>s'. connect_all modify l g ps s = Some s'
     \<and> (\<forall>qp c n. (Some qp, c, n) \<in> set ps \<longrightarrow> st s' (qp_num qp) = IBV_QPS_RTS \<and> dest s' (qp_num qp) = n)
     \<and> (\<forall>x. x \<notin> set (qp_nums ps) \<longrightarrow> st s' x = st s x \<and> dest s' x = dest s x)"
  using assms(2-4)
proof (induction ps arbitrary: s)
  case (Cons p ps)
  obtain q c n where p: "p = (q, c, n)" by (cases p)
  show ?case
  proof (cases q)
    case None
    then show ?thesis using Cons.IH [of s] Cons.prems by (auto simp: p)
  next
    case (Some qp)
    let ?s = "connect_qp modify qp c n l g s"
    have ok: "n \<noteq> 0" "qp_type qp = IBV_QPT_RC"
      using Cons.prems(1) [rule_format, of qp c n] by (simp_all add: p Some)
    have c: "st ?s = (st s)(qp_num qp := IBV_QPS_RTS)" "dest ?s = (dest s)(qp_num qp := n)"
      using connect_qp_ok [OF v, of qp s c n l g] ok Cons.prems(3) by (simp_all add: p Some)
    have d: "qp_num qp \<notin> set (qp_nums ps)" "distinct (qp_nums ps)" using Cons.prems(2) by (simp_all add: p Some)
    have "\<forall>x \<in> set (qp_nums ps). st ?s x = IBV_QPS_RESET" using c d Cons.prems(3) by (auto simp: p Some)
    then obtain s' where s': "connect_all modify l g ps ?s = Some s'"
      "\<forall>qp c n. (Some qp, c, n) \<in> set ps \<longrightarrow> st s' (qp_num qp) = IBV_QPS_RTS \<and> dest s' (qp_num qp) = n"
      "\<forall>x. x \<notin> set (qp_nums ps) \<longrightarrow> st s' x = st ?s x \<and> dest s' x = dest ?s x"
      using Cons.IH [of ?s] Cons.prems(1) d by auto
    have "connect_all modify l g (p # ps) s = Some s'" using s'(1) ok by (simp add: p Some)
    moreover have "st s' (qp_num qp) = IBV_QPS_RTS" "dest s' (qp_num qp) = n" using s'(3) d(1) c by simp_all
    moreover have "\<forall>x. x \<notin> set (qp_nums (p # ps)) \<longrightarrow> st s' x = st s x \<and> dest s' x = dest s x"
      using s'(3) c by (simp add: p Some)
    ultimately show ?thesis using s'(2) by (auto simp: p Some)
  qed
qed simp

text \<open>Making address handles succeeds and touches no queue pair.\<close>

definition makes_ahs :: "'s rdma_device \<Rightarrow> ('s \<Rightarrow> u32 \<Rightarrow> ibv_qp_state) \<Rightarrow> ('s \<Rightarrow> u32 \<Rightarrow> u32) \<Rightarrow> bool" where
  "makes_ahs dev st dest \<longleftrightarrow> (\<forall>pd a s. \<exists>h s'. dev_create_ah dev pd a s = (Some h, s') \<and> st s' = st s \<and> dest s' = dest s)"

lemma create_ahs_ok:
  assumes "makes_ahs dev st dest"
  shows "\<exists>ahs s'. create_ahs (dev_create_ah dev) m ts s = Some (ahs, s') \<and> length ahs = length ts
     \<and> st s' = st s \<and> dest s' = dest s"
proof (induction ts arbitrary: s)
  case (Cons t ts)
  let ?a = "fillAhAttr (ucast (ex_lid m)) (ex_gid m) (th_ctx t)"
  obtain h s1 where h: "dev_create_ah dev (pd_handle (th_ctx t)) ?a s = (Some h, s1)" "st s1 = st s" "dest s1 = dest s"
    using assms unfolding makes_ahs_def by blast
  obtain ahs s2 where "create_ahs (dev_create_ah dev) m ts s1 = Some (ahs, s2)" "length ahs = length ts" "st s2 = st s1" "dest s2 = dest s1"
    using Cons by blast
  with h show ?case by simp
qed simp

lemma dir_pairs_mem:
  "d < NR_DIRECTORY \<Longrightarrow> t < kMaxNetThread \<Longrightarrow>
     (data2app (dirCon nd ! d) ! t ! unat r, dir_ctx (dirCon nd ! d), appRcQpn2dir m ! t ! d) \<in> set (dir_pairs nd r m)"
  by (force simp: dir_pairs_def)

lemma app_pairs_mem:
  "d < NR_DIRECTORY \<Longrightarrow> t < kMaxNetThread \<Longrightarrow>
     (qp_data (thCon nd ! t) ! d ! unat r, th_ctx (thCon nd ! t), dirRcQpn2app m ! d ! t) \<in> set (app_pairs nd r m)"
  by (force simp: app_pairs_def)

text \<open>The numbers in the record of the peer.\<close>

lemma remote_meta:
  assumes "d < NR_DIRECTORY" "t < kMaxNetThread"
  shows "appRcQpn2dir (localMeta (setDataToRemote r nd)) ! t ! d = qp_number (qp_data (thCon nd ! t) ! d ! unat r)"
    and "dirRcQpn2app (localMeta (setDataToRemote r nd)) ! d ! t = qp_number (data2app (dirCon nd ! d) ! t ! unat r)"
  using assms by (simp_all add: setDataToRemote_def)

text \<open>Every queue pair of \<open>a\<close> towards \<open>b\<close> has its partner in the record that \<open>b\<close> made for \<open>a\<close>.\<close>

lemma pairs_ok:
  assumes a: "node_ok mc a" and b: "node_ok mc b"
    and m: "m = localMeta (setDataToRemote (my_id a) b)"
    and mem: "(Some qp, c, n) \<in> set (dir_pairs a (my_id b) m @ app_pairs a (my_id b) m)"
  shows "n \<noteq> 0 \<and> qp_type qp = IBV_QPT_RC"
proof -
  have lt: "unat (my_id a) < unat mc" "unat (my_id b) < unat mc" using a b by (simp_all add: node_ok_def)
  from mem show ?thesis
    unfolding set_append
  proof (elim UnE)
    assume "(Some qp, c, n) \<in> set (dir_pairs a (my_id b) m)"
    then obtain d t where dt: "d < NR_DIRECTORY" "t < kMaxNetThread" "data2app (dirCon a ! d) ! t ! unat (my_id b) = Some qp"
      "n = appRcQpn2dir m ! t ! d" by (auto simp: dir_pairs_def)
    then have t: "rc_target mc (unat (my_id b)) t = d" "qp_type qp = IBV_QPT_RC"
      using node_okD(2) [OF a dt(2,1) lt(2)] by (auto simp: rc_created_def split: if_splits)
    moreover have "rc_created (qp_data (thCon b ! t) ! d ! unat (my_id a))"
      using node_okD(1) [OF b dt(2,1) lt(1)] t(1) by simp
    ultimately show ?thesis using dt remote_meta(1) [OF dt(1,2), of "my_id a" b] m
      by (auto simp: rc_created_def qp_number_def)
  next
    assume "(Some qp, c, n) \<in> set (app_pairs a (my_id b) m)"
    then obtain d t where dt: "d < NR_DIRECTORY" "t < kMaxNetThread" "qp_data (thCon a ! t) ! d ! unat (my_id b) = Some qp"
      "n = dirRcQpn2app m ! d ! t" by (auto simp: app_pairs_def)
    then have t: "rc_target mc (unat (my_id a)) t = d" "qp_type qp = IBV_QPT_RC"
      using node_okD(1) [OF a dt(2,1) lt(2)] by (auto simp: rc_created_def split: if_splits)
    moreover have "rc_created (data2app (dirCon b ! d) ! t ! unat (my_id a))"
      using node_okD(2) [OF b dt(2,1) lt(1)] t(1) by simp
    ultimately show ?thesis using dt remote_meta(2) [OF dt(1,2), of "my_id a" b] m
      by (auto simp: rc_created_def qp_number_def)
  qed
qed

lemma setDataToRemote_keeps [simp]:
  "my_id (setDataToRemote r nd) = my_id nd" "thCon (setDataToRemote r nd) = thCon nd"
  "dirCon (setDataToRemote r nd) = dirCon nd" "node_ok mc (setDataToRemote r nd) = node_ok mc nd"
  "dir_pairs (setDataToRemote r nd) k m = dir_pairs nd k m" "app_pairs (setDataToRemote r nd) k m = app_pairs nd k m"
  by (simp_all add: setDataToRemote_def node_ok_def dir_pairs_def app_pairs_def)

text \<open>What a node has reached when its queue pairs towards a peer are connected.\<close>

definition connected_to ::
  "('s \<Rightarrow> u32 \<Rightarrow> ibv_qp_state) \<Rightarrow> ('s \<Rightarrow> u32 \<Rightarrow> u32) \<Rightarrow> u16 \<Rightarrow> node \<Rightarrow> node \<Rightarrow> 's \<Rightarrow> bool" where
  "connected_to st dest mc a b s \<longleftrightarrow>
     (\<forall>t < kMaxNetThread. \<forall>d < NR_DIRECTORY.
        (rc_target mc (unat (my_id a)) t = d \<longrightarrow>
           (\<exists>qp peer. qp_data (thCon a ! t) ! d ! unat (my_id b) = Some qp
              \<and> data2app (dirCon b ! d) ! t ! unat (my_id a) = Some peer
              \<and> st s (qp_num qp) = IBV_QPS_RTS \<and> dest s (qp_num qp) = qp_num peer))
      \<and> (rc_target mc (unat (my_id b)) t = d \<longrightarrow>
           (\<exists>qp peer. data2app (dirCon a ! d) ! t ! unat (my_id b) = Some qp
              \<and> qp_data (thCon b ! t) ! d ! unat (my_id a) = Some peer
              \<and> st s (qp_num qp) = IBV_QPS_RTS \<and> dest s (qp_num qp) = qp_num peer)))"

lemma setDataFromRemote_connects:
  assumes v: "verbs_modify (dev_modify_qp dev) st dest" and ah: "makes_ahs dev st dest"
    and a: "node_ok mc a" and b: "node_ok mc b" and m: "m = localMeta (setDataToRemote (my_id a) b)"
    and dist: "distinct (qp_nums (dir_pairs a (my_id b) m @ app_pairs a (my_id b) m))"
    and reset: "\<forall>x \<in> set (qp_nums (dir_pairs a (my_id b) m @ app_pairs a (my_id b) m)). st s x = IBV_QPS_RESET"
  shows "\<exists>ahs s'. setDataFromRemote dev (my_id b) m a s =
       Some (a\<lparr>remoteCon := (remoteCon a)[unat (my_id b) := (remoteCon a ! unat (my_id b))\<lparr>dsmBase := ex_dsmBase m,
         dsmRKey := dirTh m, appMessageQPN := appUdQpn m, appAh := ahs\<rparr>]\<rparr>, s')
     \<and> length ahs = kMaxNetThread \<and> connected_to st dest mc a b s'
     \<and> (\<forall>x. x \<notin> set (qp_nums (dir_pairs a (my_id b) m @ app_pairs a (my_id b) m)) \<longrightarrow> st s' x = st s x \<and> dest s' x = dest s x)"
proof -
  let ?ps = "dir_pairs a (my_id b) m @ app_pairs a (my_id b) m"
  have "\<forall>qp c n. (Some qp, c, n) \<in> set ?ps \<longrightarrow> n \<noteq> 0 \<and> qp_type qp = IBV_QPT_RC"
    using pairs_ok [OF a b m] by blast
  from connect_all_ok [OF v this dist reset, of "ex_lid m" "ex_gid m"] obtain s1
    where s1: "connect_all (dev_modify_qp dev) (ex_lid m) (ex_gid m) ?ps s = Some s1"
      and conn: "\<And>qp c n. (Some qp, c, n) \<in> set ?ps \<Longrightarrow> st s1 (qp_num qp) = IBV_QPS_RTS \<and> dest s1 (qp_num qp) = n"
      and frame: "\<forall>x. x \<notin> set (qp_nums ?ps) \<longrightarrow> st s1 x = st s x \<and> dest s1 x = dest s x"
    by blast
  obtain ahs s2 where s2: "create_ahs (dev_create_ah dev) m (take kMaxNetThread (thCon a)) s1 = Some (ahs, s2)"
      and la: "length ahs = length (take kMaxNetThread (thCon a))" and keep: "st s2 = st s1" "dest s2 = dest s1"
    using create_ahs_ok [OF ah] by blast
  have lt: "unat (my_id a) < unat mc" "unat (my_id b) < unat mc" using a b by (simp_all add: node_ok_def)
  have "connected_to st dest mc a b s2"
    unfolding connected_to_def
  proof (intro allI impI conjI)
    fix t d assume td: "t < kMaxNetThread" "d < NR_DIRECTORY"
    show "\<exists>qp peer. qp_data (thCon a ! t) ! d ! unat (my_id b) = Some qp
       \<and> data2app (dirCon b ! d) ! t ! unat (my_id a) = Some peer
       \<and> st s2 (qp_num qp) = IBV_QPS_RTS \<and> dest s2 (qp_num qp) = qp_num peer"
      if r: "rc_target mc (unat (my_id a)) t = d"
    proof -
      obtain qp peer where q: "qp_data (thCon a ! t) ! d ! unat (my_id b) = Some qp"
        "data2app (dirCon b ! d) ! t ! unat (my_id a) = Some peer"
        using node_okD(1) [OF a td lt(2)] node_okD(2) [OF b td lt(1)] r by (auto simp: rc_created_def)
      have "(Some qp, th_ctx (thCon a ! t), qp_num peer) \<in> set ?ps"
        using app_pairs_mem [OF td(2,1), of a "my_id b" m] q remote_meta(2) [OF td(2,1), of "my_id a" b]
        by (simp add: m qp_number_def)
      from conn [OF this] q show ?thesis by (simp add: keep)
    qed
    show "\<exists>qp peer. data2app (dirCon a ! d) ! t ! unat (my_id b) = Some qp
       \<and> qp_data (thCon b ! t) ! d ! unat (my_id a) = Some peer
       \<and> st s2 (qp_num qp) = IBV_QPS_RTS \<and> dest s2 (qp_num qp) = qp_num peer"
      if r: "rc_target mc (unat (my_id b)) t = d"
    proof -
      obtain qp peer where q: "data2app (dirCon a ! d) ! t ! unat (my_id b) = Some qp"
        "qp_data (thCon b ! t) ! d ! unat (my_id a) = Some peer"
        using node_okD(2) [OF a td lt(2)] node_okD(1) [OF b td lt(1)] r by (auto simp: rc_created_def)
      have "(Some qp, dir_ctx (dirCon a ! d), qp_num peer) \<in> set ?ps"
        using dir_pairs_mem [OF td(2,1), of a "my_id b" m] q remote_meta(1) [OF td(2,1), of "my_id a" b]
        by (simp add: m qp_number_def)
      from conn [OF this] q show ?thesis by (simp add: keep)
    qed
  qed
  moreover from s1 obtain u where "connect_all (dev_modify_qp dev) (ex_lid m) (ex_gid m) (dir_pairs a (my_id b) m) s = Some u"
    "connect_all (dev_modify_qp dev) (ex_lid m) (ex_gid m) (app_pairs a (my_id b) m) u = Some s1"
    unfolding connect_all_append bind_eq_Some_conv by blast
  moreover have "length (take kMaxNetThread (thCon a)) = kMaxNetThread" using a by (simp add: node_ok_def)
  ultimately show ?thesis using s2 la frame keep by (intro exI [of _ ahs]) (simp add: setDataFromRemote_def)
qed

lemma initLocalMeta_wf:
  assumes "length (gid (th_ctx (thCon nd ! 0))) \<ge> 16"
  shows "meta_wf (localMeta (setDataToRemote r (initLocalMeta nd)))"
  using assms by (simp add: meta_wf_def setDataToRemote_def initLocalMeta_def)

text \<open>
  C12. Connecting. When node \<open>a\<close> runs \<open>connectNode\<close> for \<open>b\<close> and reads what \<open>b\<close> stored for it (the
  bytes of its record), the call succeeds, and every queue pair of \<open>a\<close> towards \<open>b\<close>, of
  the threads as of the directories, is ready to send to its partner: thread and directory of
  the two sides that the mapping sends to each other hold each other's numbers.
\<close>

theorem connectNode_connects:
  assumes "verbs_modify (dev_modify_qp dev) st dest" and "makes_ahs dev st dest"
    and "node_ok n a" and "node_ok n b"
    and "m = localMeta (setDataToRemote (my_id a) b)" and "meta_wf m"
    and "memSet mc (setKey (my_id a) (my_id b)) (meta_bytes (localMeta (setDataToRemote (my_id b) a))) w = Some w1"
    and "memGet mc (setKey (my_id b) (my_id a)) w1 = Some (meta_bytes m, kv, s)"
    and "distinct (qp_nums (dir_pairs a (my_id b) m @ app_pairs a (my_id b) m))"
    and "\<forall>x \<in> set (qp_nums (dir_pairs a (my_id b) m @ app_pairs a (my_id b) m)). st s x = IBV_QPS_RESET"
  shows "\<exists>a' s'. connectNode mc dev (my_id b) a w = Some (a', kv, s') \<and> connected_to st dest n a b s'"
proof -
  let ?a = "setDataToRemote (my_id b) a"
  have key: "getKey (my_id a) (my_id b) = setKey (my_id b) (my_id a)" by (simp add: getKey_def setKey_def)
  obtain a' s' where "setDataFromRemote dev (my_id b) m ?a s = Some (a', s')" "connected_to st dest n ?a b s'"
    using setDataFromRemote_connects [OF assms(1,2), of n ?a b m s] assms by auto
  then show ?thesis
    using assms(7,8) by (simp add: connectNode_def key meta_of_meta_bytes [OF assms(6)] connected_to_def)
qed

subsection \<open>Two nodes\<close>

definition demo_msg :: MsgConn where
  "demo_msg = \<lparr>conn_qp = 9, messageNR = 4, messagePool = 0, messageLkey = 4, curMessage = 0, sendPool = 0,
     curSend = 0, recvs = [], subNR = 0, sendCounter = 0, sendPadding = 0, recvPadding = 0\<rparr>"

definition demo_qp :: "nat \<Rightarrow> ibv_qp option" where
  "demo_qp n = Some \<lparr>qp_num = word_of_nat n, qp_type = IBV_QPT_RC\<rparr>"

definition demo_thread :: "nat \<Rightarrow> ThreadConnection" where
  "demo_thread t = \<lparr>threadID = word_of_nat t, target_dirID = 0, th_ctx = demo_ctx, th_cq = 1, th_ud_cq = 1,
     message = demo_msg, qp_data = [[demo_qp (2 * t + 1), demo_qp (2 * t + 2)]], th_cachePool = 0, cacheLKey = 0\<rparr>"

definition demo_node :: "u16 \<Rightarrow> node" where
  "demo_node i = \<lparr>my_id = i, thCon = map demo_thread [0..<kMaxNetThread],
     dirCon = [\<lparr>dirID = 0, dir_ctx = demo_ctx, dir_cq = 1, srq = 8,
        data2app = map (\<lambda>t. [demo_qp (2 * t + 101), demo_qp (2 * t + 102)]) [0..<kMaxNetThread],
        dsmMR = \<lparr>mr_lkey = 4, mr_rkey = 5\<rparr>, dsmPool = 0, dsmSize = 64, dir_cachePool = 0,
        dir_cacheSize = 64, dir_cacheLKey = 0\<rparr>],
     remoteCon = [], localMeta = \<lparr>ex_lid = 7, ex_gid = replicate 16 0, ex_dsmBase = 0, dirTh = replicate NR_DIRECTORY 5,
        appUdQpn = replicate kMaxNetThread 9, appRcQpn2dir = [], dirRcQpn2app = []\<rparr>\<rparr>"

definition demo_cluster_device :: "(u32 \<Rightarrow> ibv_qp_state \<times> u32) rdma_device" where
  "demo_cluster_device = demo_device\<lparr>dev_modify_qp := demo_modify\<rparr>"

definition demo_store :: "((string \<Rightarrow> u8 list option) \<times> 's) memcached" where
  "demo_store = \<lparr>mc_get = (\<lambda>key (kv, s). (kv key, (kv, s))),
     mc_set = (\<lambda>key v (kv, s). (Some (), (kv(key \<mapsto> v), s))), mc_incr = (\<lambda>key (kv, s). (None, (kv, s)))\<rparr>"

lemma demo_node_ok: "i < 2 \<Longrightarrow> node_ok 2 (demo_node i)"
proof -
  assume i: "i < 2"
  have z: "rc_target 2 n t = 0" if "n < 2" "t < kMaxNetThread" for n t
    using rcm.target_lt [of n 2 t] that by (simp add: NR_DIRECTORY_def)
  have k: "k = 0 \<or> k = 1" if "k < 2" for k :: nat using that by auto
  have "unat i < 2" using i by (simp add: word_less_nat_alt)
  moreover have "rc_created (demo_qp n)" if "0 < n" "n < 2 ^ 32" for n
    using that by (simp add: rc_created_def demo_qp_def word_of_nat_eq_0_iff nat_dvd_not_less)
  ultimately show ?thesis
    by (auto simp: node_ok_def demo_node_def demo_thread_def z NR_DIRECTORY_def kMaxNetThread_def dest!: k)
qed

lemma demo_meta_wf: "meta_wf (localMeta (setDataToRemote r (demo_node i)))"
  by (simp add: meta_wf_def setDataToRemote_def demo_node_def)

lemma qp_nums_map:
  "(\<And>k. k \<in> set xs \<Longrightarrow> g k = Some (q k)) \<Longrightarrow> qp_nums (map (\<lambda>k. (g k, c k, n k)) xs) = map (\<lambda>k. qp_num (q k)) xs"
  by (induction xs) simp_all

lemma demo_nums_distinct:
  "distinct (qp_nums (dir_pairs (demo_node 0) 1 m @ app_pairs (demo_node 0) 1 m))"
proof -
  let ?q = "\<lambda>b t. \<lparr>qp_num = word_of_nat (2 * t + b), qp_type = IBV_QPT_RC\<rparr>"
  have "dir_pairs (demo_node 0) 1 m = map (\<lambda>t. (data2app (dirCon (demo_node 0) ! 0) ! t ! 1,
      dir_ctx (dirCon (demo_node 0) ! 0), appRcQpn2dir m ! t ! 0)) [0..<kMaxNetThread]"
    by (simp add: dir_pairs_def NR_DIRECTORY_def comp_def)
  then have d: "qp_nums (dir_pairs (demo_node 0) 1 m) = map (\<lambda>t. qp_num (?q 102 t)) [0..<kMaxNetThread]"
    by (simp only:) (rule qp_nums_map, simp add: demo_node_def demo_qp_def)
  have "concat (map (\<lambda>i. [(i, 0)]) xs) = map (\<lambda>i. (i, 0 :: nat)) xs" for xs :: "nat list"
    by (induction xs) simp_all
  then have "app_pairs (demo_node 0) 1 m = map (\<lambda>t. (qp_data (thCon (demo_node 0) ! t) ! 0 ! 1,
      th_ctx (thCon (demo_node 0) ! t), dirRcQpn2app m ! 0 ! t)) [0..<kMaxNetThread]"
    by (simp add: app_pairs_def NR_DIRECTORY_def product_concat_map comp_def)
  then have a: "qp_nums (app_pairs (demo_node 0) 1 m) = map (\<lambda>t. qp_num (?q 2 t)) [0..<kMaxNetThread]"
    by (simp only:) (rule qp_nums_map, simp add: demo_node_def demo_thread_def demo_qp_def)
  have inj: "(word_of_nat x :: u32) = word_of_nat y \<Longrightarrow> x < 2 ^ 32 \<Longrightarrow> y < 2 ^ 32 \<Longrightarrow> x = y" for x y
  proof -
    assume e: "(word_of_nat x :: u32) = word_of_nat y" and lt: "x < 2 ^ 32" "y < 2 ^ 32"
    have "unat (word_of_nat z :: u32) = z" if "z < 2 ^ 32" for z
      using that by (simp add: unsigned_of_nat take_bit_nat_eq_self)
    then show "x = y" using lt e by metis
  qed
  have lt: "t < kMaxNetThread \<Longrightarrow> b \<le> 102 \<Longrightarrow> 2 * t + b < 2 ^ 32" for t b
    by (simp add: kMaxNetThread_def)
  have D: "distinct (map (\<lambda>t. qp_num (?q b t)) [0..<kMaxNetThread])" if b: "b \<le> 102" for b
  proof -
    have "t = u" if "(word_of_nat (2 * t + b) :: u32) = word_of_nat (2 * u + b)" "t < kMaxNetThread" "u < kMaxNetThread" for t u
      using inj [OF that(1) lt [OF that(2) b] lt [OF that(3) b]] by simp
    then show ?thesis unfolding distinct_map inj_on_def by simp
  qed
  have N: "qp_num (?q 102 t) \<noteq> qp_num (?q 2 u)" if "t < kMaxNetThread" "u < kMaxNetThread" for t u
  proof
    assume "qp_num (?q 102 t) = qp_num (?q 2 u)"
    then have "(word_of_nat (2 * t + 102) :: u32) = word_of_nat (2 * u + 2)" by simp
    from inj [OF this lt [OF that(1)] lt [OF that(2)]] have "2 * t + 102 = 2 * u + 2" by simp
    then show False using that by (simp add: kMaxNetThread_def)
  qed
  have "\<forall>t \<in> set [0..<kMaxNetThread]. \<forall>u \<in> set [0..<kMaxNetThread]. qp_num (?q 102 t) \<noteq> qp_num (?q 2 u)"
  proof (intro ballI)
    fix t u assume "t \<in> set [0..<kMaxNetThread]" "u \<in> set [0..<kMaxNetThread]"
    then have "t < kMaxNetThread" "u < kMaxNetThread" by simp_all
    then show "qp_num (?q 102 t) \<noteq> qp_num (?q 2 u)" by (rule N)
  qed
  then show ?thesis unfolding qp_nums_simps d a distinct_append set_map
    by (intro conjI D) (simp, simp, blast)
qed

theorem connectNode_connects_witness:
  "\<exists>a' kv s'. connectNode demo_store demo_cluster_device 1 (demo_node 0)
       ([setKey 1 0 \<mapsto> meta_bytes (localMeta (setDataToRemote 0 (demo_node 1)))], \<lambda>_. (IBV_QPS_RESET, 0)) = Some (a', kv, s')
     \<and> connected_to (\<lambda>s n. fst (s n)) (\<lambda>s n. snd (s n)) 2 (demo_node 0) (demo_node 1) s'"
proof -
  let ?m = "localMeta (setDataToRemote 0 (demo_node 1))" and ?s = "\<lambda>_ :: u32. (IBV_QPS_RESET, 0 :: u32)"
  have id: "my_id (demo_node i) = i" for i by (simp add: demo_node_def)
  have set: "memSet demo_store k v (kv, s) = Some (kv(k \<mapsto> v), s)" for k v kv and s :: "u32 \<Rightarrow> ibv_qp_state \<times> u32"
    unfolding memSet_def by (subst retry.simps) (simp add: demo_store_def)
  have get: "kv k = Some v \<Longrightarrow> memGet demo_store k (kv, s) = Some (v, kv, s)" for k v kv and s :: "u32 \<Rightarrow> ibv_qp_state \<times> u32"
    unfolding memGet_def by (subst retry.simps) (simp add: demo_store_def)
  have verbs: "verbs_modify (dev_modify_qp demo_cluster_device) (\<lambda>s n. fst (s n)) (\<lambda>s n. snd (s n))"
    using demo_modify_verbs by (simp add: demo_cluster_device_def)
  have ahs: "makes_ahs demo_cluster_device (\<lambda>s n. fst (s n)) (\<lambda>s n. snd (s n))"
    by (simp add: makes_ahs_def demo_cluster_device_def demo_device_def)
  have keys: "setKey 0 1 \<noteq> setKey 1 0" by (simp add: setKey_def to_string.simps digit_def)
  let ?w1 = "[setKey 1 0 \<mapsto> meta_bytes ?m, setKey 0 1 \<mapsto> meta_bytes (localMeta (setDataToRemote 1 (demo_node 0)))]"
  have "memGet demo_store (setKey 1 0) (?w1, ?s) = Some (meta_bytes ?m, ?w1, ?s)"
    by (rule get) (use keys in simp)
  from connectNode_connects [OF verbs ahs demo_node_ok [of 0] demo_node_ok [of 1], unfolded id,
      OF _ _ refl demo_meta_wf set this demo_nums_distinct]
  show ?thesis by auto
qed

section \<open>The sum over all nodes\<close>

definition sum_key_of :: "string \<Rightarrow> nat \<Rightarrow> string" where
  "sum_key_of sum_key i = (''sum-'' @ sum_key) @ to_string i"

fun sum_loop :: "'s memcached \<Rightarrow> string \<Rightarrow> nat list \<Rightarrow> u64 \<Rightarrow> 's \<Rightarrow> (u64 \<times> 's) option" where
  "sum_loop mc sum_key [] ret s = Some (ret, s)"
| "sum_loop mc sum_key (i # is) ret s =
     Option.bind (memGet mc (sum_key_of sum_key i) s) (\<lambda>(bs, s).
       sum_loop mc sum_key is (ret + le_word (take 8 bs)) s)"

text \<open>The method \<open>sum\<close>.\<close>

definition dsm_sum :: "'s memcached \<Rightarrow> Keeper \<Rightarrow> string \<Rightarrow> u64 \<Rightarrow> 's \<Rightarrow> (u64 \<times> 's) option" where
  "dsm_sum mc kp sum_key val s =
     Option.bind (memSet mc (sum_key_of sum_key (unat (myNodeID kp))) (le_bytes 8 val) s)
       (sum_loop mc sum_key [0..<unat (getServerNR kp)] 0)"

lemma sum_loop_total:
  assumes "\<forall>i \<in> set is. \<forall>s. P s \<longrightarrow> (\<exists>s'. memGet mc (sum_key_of k i) s = Some (le_bytes 8 (v i), s') \<and> P s')" "P s"
  shows "\<exists>s'. sum_loop mc k is ret s = Some (ret + (\<Sum>i \<leftarrow> is. v i), s') \<and> P s'"
  using assms
proof (induction "is" arbitrary: ret s)
  case (Cons i "is")
  then obtain s1 where s1: "memGet mc (sum_key_of k i) s = Some (le_bytes 8 (v i), s1)" "P s1" by auto
  from Cons.IH [of s1 "ret + v i"] Cons.prems(1) s1(2)
  show ?case by (simp add: s1(1) le_word_le_bytes add.assoc)
qed simp

text \<open>
  C36. The sum. When, after the node has stored its own value, the keys of all nodes hold the
  values \<open>v i\<close> (in whatever states the other nodes lead to, as long as \<open>P\<close> holds), \<open>sum\<close>
  returns the sum of all of them in 64 bits.
\<close>

theorem dsm_sum_total:
  assumes "memSet mc (sum_key_of k (unat (myNodeID kp))) (le_bytes 8 val) s = Some s1" and "P s1"
    and "\<forall>i < unat (getServerNR kp). \<forall>s. P s \<longrightarrow>
        (\<exists>s'. memGet mc (sum_key_of k i) s = Some (le_bytes 8 (v i), s') \<and> P s')"
  shows "\<exists>s'. dsm_sum mc kp k val s = Some (\<Sum>i \<leftarrow> [0..<unat (getServerNR kp)]. v i, s')"
  using sum_loop_total [of "[0..<unat (getServerNR kp)]" P mc k v s1 0] assms
  by (auto simp: dsm_sum_def)

theorem dsm_sum_total_witness:
  "\<exists>s'. dsm_sum demo_store \<lparr>maxServer = 2, curServer = 2, myNodeID = 0\<rparr> ''ops'' 5
      ([sum_key_of ''ops'' 1 \<mapsto> le_bytes 8 (7 :: u64)], ()) = Some (12, s')"
proof -
  let ?v = "\<lambda>i :: nat. if i = 0 then 5 else 7 :: u64"
  let ?P = "\<lambda>(kv, s :: unit). kv (sum_key_of ''ops'' 0) = Some (le_bytes 8 (5 :: u64)) \<and> kv (sum_key_of ''ops'' 1) = Some (le_bytes 8 (7 :: u64))"
  have keys: "sum_key_of ''ops'' 0 \<noteq> sum_key_of ''ops'' 1" by (simp add: sum_key_of_def)
  have set: "memSet demo_store k v (kv, s) = Some (kv(k \<mapsto> v), s)" for k v kv and s :: unit
    unfolding memSet_def by (subst retry.simps) (simp add: demo_store_def)
  have get: "kv k = Some v \<Longrightarrow> memGet demo_store k (kv, s) = Some (v, kv, s)" for k v kv and s :: unit
    unfolding memGet_def by (subst retry.simps) (simp add: demo_store_def)
  have nr: "unat (getServerNR \<lparr>maxServer = 2, curServer = 2, myNodeID = 0\<rparr>) = 2" by (simp add: getServerNR_def)
  have two: "[0..<2] = [0, Suc 0]" by (simp add: upt_rec)
  have "\<forall>i < 2. \<forall>s. ?P s \<longrightarrow> (\<exists>s'. memGet demo_store (sum_key_of ''ops'' i) s = Some (le_bytes 8 (?v i), s') \<and> ?P s')"
    using get by (auto simp: less_2_cases_iff)
  from dsm_sum_total [of demo_store "''ops''" "\<lparr>maxServer = 2, curServer = 2, myNodeID = 0\<rparr>" 5 _ _ ?P ?v, OF _ _ this [folded nr]]
  show ?thesis using keys set by (simp add: nr two)
qed

text \<open>
  The keys of one sum are distinct, but two sums can share keys: the number is appended to
  the name without a separator, so that node \<open>10 * i + j\<close> of the sum \<open>k\<close> and node \<open>j\<close> of the
  sum named \<open>k\<close> followed by \<open>i\<close> store under the same key.
\<close>

theorem sum_keys_collide:
  assumes "0 < i" and "j < 10"
  shows "sum_key_of k (10 * i + j) = sum_key_of (k @ to_string i) j
     \<and> (sum_key_of k a = sum_key_of k b \<longleftrightarrow> a = b)"
proof
  show "sum_key_of k (10 * i + j) = sum_key_of (k @ to_string i) j"
    using assms by (subst sum_key_of_def, subst to_string.simps) (simp add: sum_key_of_def to_string.simps [of j])
qed (simp add: sum_key_of_def)

theorem sum_keys_collide_witness:
  "sum_key_of ''x'' (10 * 1 + 2) = sum_key_of (''x'' @ to_string 1) 2
     \<and> (sum_key_of ''x'' 3 = sum_key_of ''x'' 4 \<longleftrightarrow> (3 :: nat) = 4)"
  by (rule sum_keys_collide) simp_all

end
