(* ===== verification/DSM.thy ===== *)
theory DSM
  imports DSM_Keeper
begin

text \<open>
  \<open>DSM\<close> (\<open>src/dsm/DSM.cpp\<close>, \<open>include/dsm/DSM.h\<close>): the entry point of a node. Construction,
  registration of threads, the one-sided operations of a registered thread on the memory of
  another node, and RPC messages over the unreliable connection. \<open>None\<close> is a failed
  assertion, the use of a null pointer, an index outside an array or a loop that does not
  return.
\<close>

section \<open>State\<close>

record dsm =
  conf :: DSMConfig
  appID :: int
  my_node_id :: u32
  dsm_mapping :: RCMapping
  dsm_node :: node

text \<open>The thread-local variables; \<open>iCon\<close> is the connection with the index \<open>thread_id\<close>.\<close>

record dsm_thread =
  thread_id :: int
  rdma_buffer :: u64

definition fresh_thread :: dsm_thread where
  "fresh_thread = \<lparr>thread_id = -1, rdma_buffer = 0\<rparr>"

definition iCon :: "dsm \<Rightarrow> dsm_thread \<Rightarrow> ThreadConnection option" where
  "iCon d t =
     (if 0 \<le> thread_id t \<and> nat (thread_id t) < length (thCon (dsm_node d))
      then Some (thCon (dsm_node d) ! nat (thread_id t)) else None)"

lemma iCon_appID: "iCon (d\<lparr>appID := k\<rparr>) t = iCon d t"
  by (simp add: iCon_def)

definition set_iCon :: "dsm \<Rightarrow> dsm_thread \<Rightarrow> ThreadConnection \<Rightarrow> dsm" where
  "set_iCon d t tc =
     d\<lparr>dsm_node := (dsm_node d)\<lparr>thCon := (thCon (dsm_node d))[nat (thread_id t) := tc]\<rparr>\<rparr>"

text \<open>
  \<open>register_thread\<close>; \<open>initSend\<close> does nothing. The count of threads is not compared with the
  number of connections.
\<close>

definition register_thread ::
  "'s post_recv_fn \<Rightarrow> u64 \<Rightarrow> dsm \<Rightarrow> dsm_thread \<Rightarrow> 's \<Rightarrow> (dsm \<times> dsm_thread \<times> 's) option" where
  "register_thread post_recv per_thread_buf_size d t s =
     (if thread_id t \<noteq> -1 then Some (d, t, s)
      else
        let i = appID d; d = d\<lparr>appID := i + 1\<rparr>; t = t\<lparr>thread_id := i\<rparr>
        in Option.bind (iCon d t) (\<lambda>tc.
             let (m, s) = initRecv post_recv (message tc) s
             in Some (set_iCon d t (tc\<lparr>message := m\<rparr>),
                      t\<lparr>rdma_buffer := buf_addr (conf d) + word_of_int i * per_thread_buf_size\<rparr>, s)))"

section \<open>One-sided operations\<close>

type_synonym 's rc_post_fn = "ibv_qp \<Rightarrow> ibv_send_wr list \<Rightarrow> 's \<Rightarrow> int \<times> 's"

text \<open>\<open>iCon->data[dir][node]\<close>; a null queue pair is dereferenced by the verbs call.\<close>

definition conn_to :: "ThreadConnection \<Rightarrow> nat \<Rightarrow> u16 \<Rightarrow> ibv_qp option" where
  "conn_to tc dir nid =
     (if dir < length (qp_data tc) \<and> unat nid < length (qp_data tc ! dir)
      then qp_data tc ! dir ! unat nid else None)"

definition remote_key :: "dsm \<Rightarrow> u16 \<Rightarrow> u32 option" where
  "remote_key d nid =
     (if unat nid < length (remoteCon (dsm_node d)) \<and> dsmRKey (remoteCon (dsm_node d) ! unat nid) \<noteq> []
      then Some (dsmRKey (remoteCon (dsm_node d) ! unat nid) ! 0) else None)"

definition dsm_send ::
  "'s rc_post_fn \<Rightarrow> dsm \<Rightarrow> dsm_thread \<Rightarrow> u64 \<Rightarrow> u64 \<Rightarrow> u16 \<Rightarrow> bool \<Rightarrow> 's \<Rightarrow> (bool \<times> 's) option" where
  "dsm_send post d t buffer sz nid signal s =
     Option.bind (iCon d t) (\<lambda>tc.
       Option.bind (conn_to tc (unat (target_dirID tc)) nid) (\<lambda>qp.
         Some (rdmaSend post qp buffer sz (cacheLKey tc) (-1) signal s)))"

definition dsm_read ::
  "'s rc_post_fn \<Rightarrow> dsm \<Rightarrow> dsm_thread \<Rightarrow> u64 \<Rightarrow> u16 \<Rightarrow> u64 \<Rightarrow> u64 \<Rightarrow> u64 \<Rightarrow> bool \<Rightarrow> 's \<Rightarrow> (bool \<times> 's) option" where
  "dsm_read post d t buffer nid addr sz wrID signal s =
     Option.bind (iCon d t) (\<lambda>tc. Option.bind (conn_to tc 0 nid) (\<lambda>qp. Option.bind (remote_key d nid) (\<lambda>key.
       Some (rdmaRead post qp buffer addr sz (cacheLKey tc) key signal wrID s))))"

definition dsm_write ::
  "'s rc_post_fn \<Rightarrow> dsm \<Rightarrow> dsm_thread \<Rightarrow> u64 \<Rightarrow> u16 \<Rightarrow> u64 \<Rightarrow> u64 \<Rightarrow> u64 \<Rightarrow> bool \<Rightarrow> 's \<Rightarrow> (outcome \<times> 's) option" where
  "dsm_write post d t buffer nid addr sz wrID signal s =
     Option.bind (iCon d t) (\<lambda>tc. Option.bind (conn_to tc 0 nid) (\<lambda>qp. Option.bind (remote_key d nid) (\<lambda>key.
       Some (rdmaWrite post qp buffer addr sz (cacheLKey tc) key (-1) signal wrID s))))"

text \<open>The atomics take a \<open>wr_id\<close> and do not pass it on; the default of the callee is 0.\<close>

definition dsm_cas ::
  "'s rc_post_fn \<Rightarrow> dsm \<Rightarrow> dsm_thread \<Rightarrow> u16 \<Rightarrow> u64 \<Rightarrow> u64 \<Rightarrow> u64 \<Rightarrow> u64 \<Rightarrow> u64 \<Rightarrow> bool \<Rightarrow> 's \<Rightarrow> (bool \<times> 's) option" where
  "dsm_cas post d t nid addr equal val buffer wrID signal s =
     Option.bind (iCon d t) (\<lambda>tc. Option.bind (conn_to tc 0 nid) (\<lambda>qp. Option.bind (remote_key d nid) (\<lambda>key.
       Some (rdmaCompareAndSwap post qp buffer addr equal val (cacheLKey tc) key signal 0 s))))"

definition dsm_faa ::
  "'s rc_post_fn \<Rightarrow> dsm \<Rightarrow> dsm_thread \<Rightarrow> u16 \<Rightarrow> u64 \<Rightarrow> u64 \<Rightarrow> u64 \<Rightarrow> u64 \<Rightarrow> bool \<Rightarrow> 's \<Rightarrow> (bool \<times> 's) option" where
  "dsm_faa post d t nid addr addv buffer wrID signal s =
     Option.bind (iCon d t) (\<lambda>tc. Option.bind (conn_to tc 0 nid) (\<lambda>qp. Option.bind (remote_key d nid) (\<lambda>key.
       Some (rdmaFetchAndAdd post qp buffer addr addv (cacheLKey tc) key signal 0 s))))"

text \<open>
  The synchronous versions post with a signal and await one completion of the thread's
  queue (\<open>poll\<close>); neither the result of the post nor that of the polling is looked at. \<open>wc\<close> is
  the uninitialised local completion.
\<close>

definition await_one :: "'s poll_fn \<Rightarrow> ibv_wc \<Rightarrow> 's \<Rightarrow> 's option" where
  "await_one poll wc s = map_option (\<lambda>(_, _, s'). s') (pollWithCQ poll 1 wc s)"

definition dsm_send_sync where
  "dsm_send_sync post poll wc d t buffer sz nid s =
     Option.bind (dsm_send post d t buffer sz nid True s) (\<lambda>(_, s). await_one poll wc s)"

definition dsm_read_sync where
  "dsm_read_sync post poll wc d t buffer nid addr sz wrID s =
     Option.bind (dsm_read post d t buffer nid addr sz wrID True s) (\<lambda>(_, s). await_one poll wc s)"

text \<open>A failed post aborts \<open>rdmaWrite\<close> before the polling.\<close>

definition dsm_write_sync where
  "dsm_write_sync post poll wc d t buffer nid addr sz wrID s =
     Option.bind (dsm_write post d t buffer nid addr sz wrID True s) (\<lambda>(r, s).
       if r = Abort then None else await_one poll wc s)"

text \<open>\<open>load s a\<close> is the word that memory holds at \<open>a\<close>.\<close>

definition dsm_cas_sync where
  "dsm_cas_sync post poll wc load d t nid addr equal val buffer wrID s =
     Option.bind (dsm_cas post d t nid addr equal val buffer wrID True s) (\<lambda>(_, s).
       map_option (\<lambda>s. (equal = (load s buffer :: u64), s)) (await_one poll wc s))"

definition dsm_faa_sync where
  "dsm_faa_sync post poll wc d t nid addr addv buffer wrID s =
     Option.bind (dsm_faa post d t nid addr addv buffer wrID True s) (\<lambda>(_, s). await_one poll wc s)"

definition poll_rdma_cq :: "'s poll_fn \<Rightarrow> ibv_wc \<Rightarrow> int \<Rightarrow> 's \<Rightarrow> 's option" where
  "poll_rdma_cq poll wc cnt s = map_option (\<lambda>(_, _, s'). s') (pollWithCQ poll cnt wc s)"

section \<open>RPC over the unreliable connection\<close>

text \<open>\<open>sendMessage\<close> of the thread's connection.\<close>

definition sendMessage ::
  "'s post_send_fn \<Rightarrow> 's poll_fn \<Rightarrow> ibv_wc \<Rightarrow> RemoteConnection list \<Rightarrow> MsgConn \<Rightarrow> u64 \<Rightarrow> RpcMessage \<Rightarrow> u16 \<Rightarrow> u16 \<Rightarrow> 's
     \<Rightarrow> (MsgConn \<times> 's) option" where
  "sendMessage post poll wc info c addr m nid tid s =
     (if unat nid < length info \<and> unat tid < length (appMessageQPN (info ! unat nid))
          \<and> unat tid < length (appAh (info ! unat nid))
      then sendRawMessage post poll wc c addr m (appMessageQPN (info ! unat nid) ! unat tid)
             (appAh (info ! unat nid) ! unat tid) s
      else None)"

text \<open>
  The message as it is built in the send buffer (whose old contents are \<open>old\<close>): a copy with
  the sender's identity, and the extra data as a string. Identities are cut to a byte.
\<close>

definition build_call :: "dsm \<Rightarrow> dsm_thread \<Rightarrow> RpcMessage \<Rightarrow> Slice \<Rightarrow> u8 list \<Rightarrow> RpcMessage option" where
  "build_call d t m extra_data old =
     (if rpc_size m + 40 < MESSAGE_SIZE then
        Option.bind (read_at (bytes_of_rpc m) 0 (rpc_size m)) (\<lambda>bs.
        Option.bind (write_at old 0 bs) (\<lambda>blk.
        Option.bind (rpc_of_bytes blk) (\<lambda>b.
          let b = b\<lparr>node_id := ucast (my_node_id d), t_id := word_of_int (thread_id t)\<rparr>
          in if sl_s extra_data \<noteq> None then add_string_slice b extra_data else Some b)))
      else None)"

definition ud_rpc_call ::
  "'s post_send_fn \<Rightarrow> 's poll_fn \<Rightarrow> ibv_wc \<Rightarrow> dsm \<Rightarrow> dsm_thread \<Rightarrow> RpcMessage \<Rightarrow> u16 \<Rightarrow> u16 \<Rightarrow> Slice \<Rightarrow> u8 list \<Rightarrow> 's
     \<Rightarrow> (RpcMessage \<times> dsm \<times> 's) option" where
  "ud_rpc_call post poll wc d t m nid tid extra_data old s =
     Option.bind (iCon d t) (\<lambda>tc.
       let (buffer, c) = getSendPool (message tc)
       in Option.bind (build_call d t m extra_data old) (\<lambda>b.
            map_option (\<lambda>(c, s). (b, set_iCon d t (tc\<lparr>message := c\<rparr>), s))
              (sendMessage post poll wc (remoteCon (dsm_node d)) c buffer b nid tid s)))"

text \<open>The received message's address, or null for another kind of completion.\<close>

definition ud_rpc_wait ::
  "'s post_recv_fn \<Rightarrow> 's poll_fn \<Rightarrow> ibv_wc \<Rightarrow> dsm \<Rightarrow> dsm_thread \<Rightarrow> 's \<Rightarrow> (u64 option \<times> dsm \<times> 's) option" where
  "ud_rpc_wait post_recv poll wc d t s =
     Option.bind (iCon d t) (\<lambda>tc.
       map_option (\<lambda>(_, wc', s).
          if wc_is_recv wc' then
            let (a, c, s) = getMessage post_recv (message tc) s
            in (Some a, set_iCon d t (tc\<lparr>message := c\<rparr>), s)
          else (None, d, s))
         (pollWithCQ poll 1 wc s))"

section \<open>The message of a call\<close>

lemma build_call_start:
  assumes "rpc_wf m" "rpc_size m + 40 < MESSAGE_SIZE" "length old = MESSAGE_SIZE"
  shows "\<exists>b. build_call d t m x old = (if sl_s x \<noteq> None then add_string_slice b x else Some b)
     \<and> rpc_wf b \<and> payload b = payload m \<and> length (msg b) = MESSAGE_SIZE - 6 \<and> msg_size b = msg_size m
     \<and> magic b = magic m \<and> rtype b = rtype m \<and> node_id b = ucast (my_node_id d) \<and> t_id b = word_of_int (thread_id t)"
proof -
  let ?n = "rpc_size m" and ?m = "m\<lparr>msg := payload m @ drop (rpc_size m) old\<rparr>"
  let ?b = "?m\<lparr>node_id := ucast (my_node_id d), t_id := word_of_int (thread_id t)\<rparr>"
  have len: "length (bytes_of_rpc m) = 6 + length (msg m)" by (simp add: bytes_of_rpc_def)
  have n: "?n \<le> length (bytes_of_rpc m)" "?n = 6 + unat (msg_size m)"
    using assms(1) by (simp_all add: len rpc_wf_def rpc_size_def sizeof_RpcMessage_def)
  then have r: "read_at (bytes_of_rpc m) 0 ?n = Some (take ?n (bytes_of_rpc m))" by (simp add: read_at_def)
  have "write_at old 0 (take ?n (bytes_of_rpc m)) = Some (take ?n (bytes_of_rpc m) @ drop ?n old)"
    using n assms(2,3) by (simp add: write_at_def min_absorb2)
  then have w: "write_at old 0 (take ?n (bytes_of_rpc m)) = Some (bytes_of_rpc ?m)"
    unfolding take_bytes_of_rpc .
  have p: "length (payload m) = unat (msg_size m)" by (rule length_payload [OF assms(1)])
  have l: "length (payload m @ drop ?n old) = MESSAGE_SIZE - 6" using assms(2,3) n(2) p by simp
  have "rpc_wf ?b" using l p by (simp add: rpc_wf_def MESSAGE_SIZE_def)
  moreover have "payload ?b = payload m" using p by (simp add: payload_def)
  moreover have "build_call d t m x old = (if sl_s x \<noteq> None then add_string_slice ?b x else Some ?b)"
    using assms(2) by (simp add: build_call_def r w rpc_of_bytes_of_rpc Let_def)
  ultimately show ?thesis using l by (intro exI [of _ ?b]) simp
qed

lemma add_string_slice_put:
  assumes "rpc_wf b" "sl_s x = Some mem" "sl_len x \<le> length mem" "sl_len x < 2 ^ 32"
  shows "add_string_slice b x = put_bytes b (le_bytes 4 (word_of_nat (sl_len x) :: u32) @ take (sl_len x) mem)"
proof -
  have "unat (word_of_nat (sl_len x) :: u32) = sl_len x" using assms(4) by (simp add: unat_of_nat)
  moreover have "read_at mem 0 (sl_len x) = Some (take (sl_len x) mem)" using assms(3) by (simp add: read_at_def)
  ultimately show ?thesis
    using put_put [OF assms(1)] by (simp add: add_string_slice_def slice_mem_def assms(2) add_string_def add_u32_def)
qed

text \<open>
  C29. The message of an RPC with extra data. When the assertion of \<open>ud_rpc_call\<close> holds for the
  caller's message, building the message overruns the send buffer exactly when the extra data
  does not fit (the assertion looks at the caller's message only); otherwise the message
  has the caller's type and payload, the length and bytes of the extra data behind it, and the
  identity of the sender.
\<close>

theorem rpc_call_message:
  assumes "rpc_wf m" and "rpc_size m + 40 < MESSAGE_SIZE" and "length old = MESSAGE_SIZE"
    and "sl_s x = Some mem" and "sl_len x \<le> length mem" and "sl_len x < 2 ^ 32"
  shows "(build_call d t m x old = None \<longleftrightarrow> MESSAGE_SIZE < rpc_size m + 4 + sl_len x)
     \<and> (\<forall>b. build_call d t m x old = Some b \<longrightarrow>
          payload b = payload m @ le_bytes 4 (word_of_nat (sl_len x) :: u32) @ take (sl_len x) mem
        \<and> rtype b = rtype m \<and> node_id b = ucast (my_node_id d) \<and> t_id b = word_of_int (thread_id t)
        \<and> rpc_size b = rpc_size m + 4 + sl_len x)"
proof -
  obtain b0 where b0: "build_call d t m x old = add_string_slice b0 x" "rpc_wf b0" "payload b0 = payload m"
    "length (msg b0) = MESSAGE_SIZE - 6" "msg_size b0 = msg_size m" "rtype b0 = rtype m"
    "node_id b0 = ucast (my_node_id d)" "t_id b0 = word_of_int (thread_id t)"
    using build_call_start [OF assms(1-3), of d t x] assms(4) by auto
  let ?bs = "le_bytes 4 (word_of_nat (sl_len x) :: u32) @ take (sl_len x) mem"
  have put: "build_call d t m x old = put_bytes b0 ?bs"
    using add_string_slice_put [OF b0(2) assms(4-6)] b0(1) by simp
  have len: "length ?bs = 4 + sl_len x" using assms(5) by simp
  have "payload b = payload m @ ?bs" "rtype b = rtype m" "node_id b = ucast (my_node_id d)"
    "t_id b = word_of_int (thread_id t)" "rpc_size b = rpc_size m + 4 + sl_len x" if "put_bytes b0 ?bs = Some b" for b
    using put_bytes_Some [OF b0(2) that] b0 len by (simp_all add: same_header_def rpc_size_def)
  moreover have "put_bytes b0 ?bs = None \<longleftrightarrow> MESSAGE_SIZE < rpc_size m + 4 + sl_len x"
    unfolding put_bytes_None_iff len b0(4,5) by (auto simp: rpc_size_def sizeof_RpcMessage_def MESSAGE_SIZE_def)
  ultimately show ?thesis unfolding put by auto
qed

definition demo_dsm :: dsm where
  "demo_dsm = \<lparr>conf = mk_DSMConfig (mk_ClusterInfo 2) 4096 4096 SERVER, appID = 0, my_node_id = 1,
     dsm_mapping = mk_RCMapping 2, dsm_node = demo_node 1\<rparr>"

definition demo_call :: "u16 \<Rightarrow> RpcMessage" where
  "demo_call n = \<lparr>magic = 1, rtype = 2, node_id = 0, t_id = 0, msg_size = n, msg = replicate 4090 7\<rparr>"

theorem rpc_call_message_witness:
  "build_call demo_dsm (fresh_thread\<lparr>thread_id := 3\<rparr>) (demo_call 4044) (Slice_mk (replicate 100 5) 100) (replicate MESSAGE_SIZE 0) = None
     \<and> (\<exists>b. build_call demo_dsm (fresh_thread\<lparr>thread_id := 3\<rparr>) (demo_call 10) (Slice_mk [5] 1) (replicate MESSAGE_SIZE 0) = Some b
          \<and> node_id b = 1 \<and> t_id b = 3 \<and> rpc_size b = 21)"
proof -
  have m: "rpc_wf (demo_call 4044)" "rpc_wf (demo_call 10)" "rpc_size (demo_call 4044) = 4050" "rpc_size (demo_call 10) = 16"
    by (simp_all only: demo_call_def rpc_wf_def rpc_size_def sizeof_RpcMessage_def RpcMessage.simps length_replicate) simp_all
  have x: "sl_s (Slice_mk mem n) = Some mem" "sl_len (Slice_mk mem n) = n" for mem n by (simp_all add: Slice_mk_def)
  have l: "length (replicate MESSAGE_SIZE (0 :: u8)) = MESSAGE_SIZE" by (rule length_replicate)
  have b: "4050 + 40 < MESSAGE_SIZE" "16 + 40 < MESSAGE_SIZE" "MESSAGE_SIZE < 4050 + 4 + 100" by (simp_all add: MESSAGE_SIZE_def)
  have t: "thread_id (fresh_thread\<lparr>thread_id := 3\<rparr>) = 3" "ucast (my_node_id demo_dsm) = (1 :: u8)"
    by (simp_all add: demo_dsm_def)
  note c1 = rpc_call_message [of "demo_call 4044", unfolded m, OF m(1) b(1) l x(1), of "replicate 100 5" 100 demo_dsm]
  note c2 = rpc_call_message [of "demo_call 10", unfolded m, OF m(2) b(2) l x(1), of "[5]" 1 demo_dsm]
  have "\<not> MESSAGE_SIZE < 16 + 4 + 1" by (simp add: MESSAGE_SIZE_def)
  then show ?thesis
    using c1 [of "fresh_thread\<lparr>thread_id := 3\<rparr>"] c2 [of "fresh_thread\<lparr>thread_id := 3\<rparr>"] b(3) unfolding x t by auto
qed

section \<open>Starting a node\<close>

text \<open>
  The connections of the threads, in order, and of the directories; each step may fail.
\<close>

fun build_each :: "('k \<Rightarrow> 's \<Rightarrow> ('a \<times> 's) option) \<Rightarrow> 'k list \<Rightarrow> 's \<Rightarrow> ('a list \<times> 's) option" where
  "build_each f [] s = Some ([], s)"
| "build_each f (k # ks) s = Option.bind (f k s) (\<lambda>(a, s). map_option (\<lambda>(as, s). (a # as, s)) (build_each f ks s))"

definition build_connections ::
  "'s rdma_device \<Rightarrow> ('s \<Rightarrow> RdmaContext \<Rightarrow> (u64 option \<times> 's) option) \<Rightarrow> dsm \<Rightarrow> 's \<Rightarrow> (dsm \<times> 's) option" where
  "build_connections dev mp_srq d s =
     (let cf = conf d in
      Option.bind (build_each (\<lambda>i. mk_ThreadConnection dev (ucast (my_node_id d)) (word_of_nat i) (buf_addr cf) (buf_size cf)
          (machine_cnt cf) (nic_name cf) (dsm_mapping d)) [0..<kMaxNetThread] s) (\<lambda>(ts, s).
      map_option (\<lambda>(ds, s). (d\<lparr>dsm_node := (dsm_node d)\<lparr>thCon := ts, dirCon := ds\<rparr>\<rparr>, s))
        (build_each (\<lambda>i. mk_DirectoryConnection dev mp_srq (word_of_nat i) (dsm_addr cf) (dsm_size cf) (machine_cnt cf)
            (buf_addr cf) (buf_size cf) (nic_name cf) (dsm_mapping d)) [0..<NR_DIRECTORY] s)))"

text \<open>
  \<open>run\<close> of the keeper: the node's own state, the store and the device are the state of the
  connection loop.
\<close>

definition on_world :: "('w \<Rightarrow> 'a \<times> 'w) \<Rightarrow> 'n \<times> 'w \<Rightarrow> 'a \<times> 'n \<times> 'w" where
  "on_world f x = (case x of (nd, w) \<Rightarrow> case f w of (r, w') \<Rightarrow> (r, nd, w'))"

definition with_node :: "'w memcached \<Rightarrow> ('n \<times> 'w) memcached" where
  "with_node mc = \<lparr>mc_get = (\<lambda>k. on_world (mc_get mc k)), mc_set = (\<lambda>k v. on_world (mc_set mc k v)),
     mc_incr = (\<lambda>k. on_world (mc_incr mc k))\<rparr>"

definition keeper_run ::
  "('k \<times> 's) memcached \<Rightarrow> 's rdma_device \<Rightarrow> Keeper \<Rightarrow> node \<Rightarrow> 'k \<times> 's \<Rightarrow> (node \<times> 'k \<times> 's) option" where
  "keeper_run mc dev kp nd w =
     Option.bind (serverConnect (with_node mc) (\<lambda>k (nd, w). connectNode mc dev k nd w) kp (initLocalMeta nd, w))
       (\<lambda>(kp, nd, kv, s). map_option (\<lambda>(nd, s). (nd, kv, s)) (connectMySelf dev nd s))"

text \<open>
  The constructor. A client whose number belongs to a server exits. \<open>barrier\<close> is the barrier
  of the keeper (see \<open>Barrier\<close>); \<open>nd\<close> and \<open>info0\<close> are the uninitialised contents of the tables.
\<close>

datatype 'a startup = Exit | Started 'a

definition DSM_mk ::
  "('k \<times> 's) memcached \<Rightarrow> 's rdma_device \<Rightarrow> ('s \<Rightarrow> RdmaContext \<Rightarrow> (u64 option \<times> 's) option)
     \<Rightarrow> (string \<Rightarrow> u64 \<Rightarrow> 'k \<times> 's \<Rightarrow> ('k \<times> 's) option) \<Rightarrow> node \<Rightarrow> RemoteConnection
     \<Rightarrow> DSMConfig \<Rightarrow> 'k \<times> 's \<Rightarrow> (dsm \<times> 'k \<times> 's) startup option" where
  "DSM_mk mc dev mp_srq barrier nd info0 cf w =
     Option.bind (serverEnter mc (mk_Keeper (machine_cnt cf)) w) (\<lambda>(kp, kv, s).
       if node_type cf = CLIENT \<and> unat (myNodeID kp) < unat (server_cnt (cluster_info cf)) then Some Exit
       else
         let (a, s) = dev_page_alloc dev (dsm_size cf) s; (b, s) = dev_page_alloc dev (buf_size cf) s;
             d = \<lparr>conf = cf\<lparr>dsm_addr := a, buf_addr := b\<rparr>, appID = 0, my_node_id = ucast (myNodeID kp),
                  dsm_mapping = mk_RCMapping (ucast (machine_cnt cf)), 
                  dsm_node = nd\<lparr>my_id := myNodeID kp, remoteCon := replicate (unat (machine_cnt cf)) info0\<rparr>\<rparr>
         in Option.bind (build_connections dev mp_srq d s) (\<lambda>(d, s).
            Option.bind (keeper_run mc dev kp (dsm_node d) (kv, s)) (\<lambda>(nd, w).
            map_option (\<lambda>w. Started (d\<lparr>dsm_node := nd\<rparr>, w)) (barrier ''DSM-init'' (ucast (machine_cnt cf)) w))))"

text \<open>
  What a started node holds: one connection per thread, made for this node by the mapping.
\<close>

lemma build_each_nth:
  assumes "build_each f ks s = Some (as, s')"
  shows "length as = length ks \<and> (\<forall>i < length ks. \<exists>s1 s2. f (ks ! i) s1 = Some (as ! i, s2))"
  using assms
proof (induction ks arbitrary: s as)
  case (Cons k ks)
  then obtain a s1 as1 where a: "f k s = Some (a, s1)" "build_each f ks s1 = Some (as1, s')" "as = a # as1"
    by (auto simp: bind_eq_Some_conv)
  with Cons.IH [OF a(2)] show ?case by (auto simp: nth_Cons split: nat.splits)
qed simp

lemma mk_ThreadConnection_shape:
  assumes dev: "creates_rc dev" and mk: "mk_ThreadConnection dev nid t pool sz m nic (mk_RCMapping mc) s = Some (tc, s')"
    and b: "unat nid < unat mc" "unat t < kMaxNetThread" "unat m = unat mc"
  shows "length (qp_data tc) = NR_DIRECTORY" and "dir < NR_DIRECTORY \<Longrightarrow> length (qp_data tc ! dir) = unat mc"
    and "unat (target_dirID tc) = rc_target mc (unat nid) (unat t)"
proof -
  obtain target where tg: "get_target_dir_id (mk_RCMapping mc) nid t = Some target" "rc_target mc (unat nid) (unat t) = unat target"
    using rc_lookup [OF b(1,2)] by blast
  from mk obtain cq ctx s1 where q: "qp_data tc = fst (thread_qps dev cq ctx target m s1)" and d: "target_dirID tc = target"
    by (auto simp: mk_ThreadConnection_def Let_def tg(1) case_prod_unfold bind_eq_Some_conv)
  have "0 < unat m" using b by simp
  note sh = thread_qps_nth [OF dev _ this q]
  show "length (qp_data tc) = NR_DIRECTORY" using sh [of 0] by (simp add: NR_DIRECTORY_def)
  show "length (qp_data tc ! dir) = unat mc" if "dir < NR_DIRECTORY" using sh [OF that] b(3) by simp
  show "unat (target_dirID tc) = rc_target mc (unat nid) (unat t)" using d tg by simp
qed

lemma registered_connection:
  assumes dev: "creates_rc dev" and bc: "build_connections dev mp_srq d s = Some (d', s')"
    and map: "dsm_mapping d = mk_RCMapping mc" and mc: "unat (machine_cnt (conf d)) = unat mc" and me: "unat (my_node_id d) < unat mc"
    and t: "0 \<le> thread_id t" "thread_id t < int kMaxNetThread"
  shows "\<exists>tc. iCon d' t = Some tc \<and> (\<forall>nid. conn_to tc 0 nid = None \<longleftrightarrow> \<not> unat nid < unat mc)
     \<and> (\<forall>nid. conn_to tc (unat (target_dirID tc)) nid = None \<longleftrightarrow> \<not> unat nid < unat mc) \<and> remoteCon (dsm_node d') = remoteCon (dsm_node d)"
proof -
  let ?f = "\<lambda>i. mk_ThreadConnection dev (ucast (my_node_id d)) (word_of_nat i) (buf_addr (conf d)) (buf_size (conf d))
      (machine_cnt (conf d)) (nic_name (conf d)) (mk_RCMapping mc)"
  from bc obtain ts s1 where ts: "build_each ?f [0..<kMaxNetThread] s = Some (ts, s1)"
    and d': "thCon (dsm_node d') = ts" "remoteCon (dsm_node d') = remoteCon (dsm_node d)"
    unfolding build_connections_def Let_def map bind_eq_Some_conv by auto
  note nth = build_each_nth [OF ts]
  let ?i = "nat (thread_id t)"
  have i: "?i < kMaxNetThread" using t by simp
  then obtain s2 s3 where tc: "?f ?i s2 = Some (ts ! ?i, s3)" using nth by auto
  have "unat mc < 2 ^ 16" using unsigned_less [of mc] by simp
  then have n: "unat (ucast (my_node_id d) :: u16) < unat mc"
    using me by (simp add: unsigned_ucast_eq take_bit_nat_eq_self)
  have w: "unat (word_of_nat ?i :: u16) = ?i" using i by (simp add: unsigned_of_nat take_bit_nat_eq_self kMaxNetThread_def)
  then have lt: "unat (word_of_nat ?i :: u16) < kMaxNetThread" using i by simp
  note sh = mk_ThreadConnection_shape [OF dev tc n lt mc]
  have nr: "NR_DIRECTORY = 1" by (simp add: NR_DIRECTORY_def)
  have z: "rc_target mc (unat (ucast (my_node_id d) :: u16)) (unat (word_of_nat ?i :: u16)) = 0"
    using rcm.target_lt [OF n lt] nr by simp
  have "rc_created (qp_data (ts ! ?i) ! 0 ! unat nid)" if "unat nid < unat mc" for nid :: u16
    using mk_ThreadConnection_qps [OF dev tc n lt mc _ that, of 0] z nr by simp
  then have conn: "conn_to (ts ! ?i) 0 nid = None \<longleftrightarrow> \<not> unat nid < unat mc" for nid
    using sh(1) sh(2) [of 0] nr by (auto simp: conn_to_def rc_created_def)
  moreover have "unat (target_dirID (ts ! ?i)) = 0" using sh(3) z by simp
  moreover have "iCon d' t = Some (ts ! ?i)" using t i nth d' by (simp add: iCon_def)
  ultimately show ?thesis using d' by auto
qed

text \<open>
  C24. A registered thread reaches every node. On a node whose connections were built by
  \<open>initRDMAConnection\<close>, every one-sided operation of a registered thread finds its queue pair
  (it does not follow a null pointer or leave a table) exactly when the other node is one of
  the cluster, although the operations use directory 0 and \<open>send\<close> the thread's own.
\<close>

theorem registered_thread_reaches_cluster:
  assumes "creates_rc dev" and "build_connections dev mp_srq d s = Some (d', s')"
    and "dsm_mapping d = mk_RCMapping mc" and "unat (machine_cnt (conf d)) = unat mc" and "unat (my_node_id d) < unat mc"
    and "0 \<le> thread_id t" and "thread_id t < int kMaxNetThread"
    and "\<forall>k. unat k < unat mc \<longrightarrow> remote_key d k \<noteq> None"
  shows "(dsm_send post d' t a sz nid sg u = None \<longleftrightarrow> \<not> unat nid < unat mc)
     \<and> (dsm_read post d' t a nid b sz wr sg u = None \<longleftrightarrow> \<not> unat nid < unat mc)
     \<and> (dsm_write post d' t a nid b sz wr sg u = None \<longleftrightarrow> \<not> unat nid < unat mc)
     \<and> (dsm_cas post d' t nid b x y a wr sg u = None \<longleftrightarrow> \<not> unat nid < unat mc)
     \<and> (dsm_faa post d' t nid b x a wr sg u = None \<longleftrightarrow> \<not> unat nid < unat mc)"
proof -
  obtain tc where tc: "iCon d' t = Some tc" "\<And>nid. conn_to tc 0 nid = None \<longleftrightarrow> \<not> unat nid < unat mc"
    "\<And>nid. conn_to tc (unat (target_dirID tc)) nid = None \<longleftrightarrow> \<not> unat nid < unat mc"
    "remoteCon (dsm_node d') = remoteCon (dsm_node d)"
    using registered_connection [OF assms(1-7)] by blast
  have "remote_key d' nid = remote_key d nid" by (simp add: remote_key_def tc(4))
  then show ?thesis
    using tc(2,3) [of nid] assms(8)
    by (cases "unat nid < unat mc") (auto simp: dsm_send_def dsm_read_def dsm_write_def dsm_cas_def dsm_faa_def tc(1))
qed

lemma build_each_unit:
  "(\<And>k. k \<in> set ks \<Longrightarrow> \<exists>r. f k () = Some r) \<Longrightarrow> \<exists>as. build_each f ks () = Some (as, ())"
proof (induction ks)
  case (Cons k ks)
  obtain a where "f k () = Some (a, ())" using Cons.prems [of k] by auto
  moreover obtain as where "build_each f ks () = Some (as, ())" using Cons by auto
  ultimately show ?case by simp
qed simp

lemma demo_build_any:
  assumes "unat (my_node_id d) < 2" "machine_cnt (conf d) = 2" "dsm_mapping d = mk_RCMapping 2"
  shows "\<exists>d' s'. build_connections demo_device demo_mp_srq d () = Some (d', s')"
proof -
  have raw: "\<exists>c. mk_RawMessageConnection demo_device ctx cq (word_of_nat RPC_QUEUE_SIZE) () = Some (c, ())" for ctx cq
    by (simp add: mk_RawMessageConnection_def mk_MsgConn_def demo_device_def createQueuePair_def
        createMemoryRegion_def RPC_QUEUE_SIZE_def kBatchCount_def Let_def case_prod_unfold)
  have mr: "createMemoryRegion (dev_reg_mr demo_device) a b c s = (Some \<lparr>mr_lkey = 4, mr_rkey = 5\<rparr>, s)" for a b c s
    by (simp add: createMemoryRegion_def demo_device_def)
  have th: "\<exists>r. mk_ThreadConnection demo_device nid (word_of_nat i) b z 2 nic (mk_RCMapping 2) () = Some r"
    if i: "i < kMaxNetThread" and nid: "unat nid < 2" for i b z nic and nid :: u16
  proof -
    have "unat (word_of_nat i :: u16) < kMaxNetThread"
      using i by (simp add: unsigned_of_nat take_bit_nat_eq_self kMaxNetThread_def)
    then obtain t where "get_target_dir_id (mk_RCMapping 2) nid (word_of_nat i) = Some t"
      using rc_lookup [of nid 2 "word_of_nat i"] nid by auto
    then show ?thesis using raw by (auto simp: mk_ThreadConnection_def Let_def case_prod_unfold mr bind_eq_Some_conv)
  qed
  have dir: "\<exists>r. mk_DirectoryConnection demo_device demo_mp_srq (word_of_nat i) a b 2 c z nic (mk_RCMapping 2) () = Some r"
    if "i < NR_DIRECTORY" for i a b c z nic
    using that by (simp add: mk_DirectoryConnection_def Let_def case_prod_unfold mr demo_mp_srq_def get_client_thread_list_def NR_DIRECTORY_def)
  have nid: "unat (ucast (my_node_id d) :: u16) < 2"
    using assms(1) by (simp add: unsigned_ucast_eq take_bit_nat_eq_self)
  let ?c = "conf d"
  have "\<exists>ts. build_each (\<lambda>i. mk_ThreadConnection demo_device (ucast (my_node_id d)) (word_of_nat i) (buf_addr ?c) (buf_size ?c) 2
      (nic_name ?c) (mk_RCMapping 2)) [0..<kMaxNetThread] () = Some (ts, ())"
    by (rule build_each_unit) (rule th, simp, rule nid)
  moreover have "\<exists>ds. build_each (\<lambda>i. mk_DirectoryConnection demo_device demo_mp_srq (word_of_nat i) (dsm_addr ?c) (dsm_size ?c)
      2 (buf_addr ?c) (buf_size ?c) (nic_name ?c) (mk_RCMapping 2)) [0..<NR_DIRECTORY] () = Some (ds, ())"
    by (rule build_each_unit) (rule dir, simp)
  ultimately show ?thesis by (auto simp: build_connections_def assms(2,3) Let_def)
qed

lemma demo_build: "\<exists>d' s'. build_connections demo_device demo_mp_srq demo_dsm () = Some (d', s')"
  by (rule demo_build_any) (simp_all add: demo_dsm_def mk_DSMConfig_def mk_ClusterInfo_def)

definition demo_ready :: dsm where
  "demo_ready = demo_dsm\<lparr>dsm_node := (dsm_node demo_dsm)\<lparr>remoteCon := replicate 2
     \<lparr>dsmBase = 0, dsmRKey = [5], appMessageQPN = [9], appAh = [6]\<rparr>\<rparr>\<rparr>"

theorem registered_thread_reaches_cluster_witness:
  "\<exists>d'. dsm_read (\<lambda>q w (s :: unit). (0, s)) d' (fresh_thread\<lparr>thread_id := 35\<rparr>) 0 0 0 8 1 True () \<noteq> None
     \<and> dsm_read (\<lambda>q w (s :: unit). (0, s)) d' (fresh_thread\<lparr>thread_id := 35\<rparr>) 0 2 0 8 1 True () = None"
proof -
  obtain d1 s1 where "build_connections demo_device demo_mp_srq demo_dsm () = Some (d1, s1)" using demo_build by blast
  then obtain d' s' where b: "build_connections demo_device demo_mp_srq demo_ready () = Some (d', s')"
    by (auto simp: build_connections_def demo_ready_def Let_def bind_eq_Some_conv)
  have c: "dsm_mapping demo_ready = mk_RCMapping 2" "unat (machine_cnt (conf demo_ready)) = unat (2 :: u16)"
    "unat (my_node_id demo_ready) < unat (2 :: u16)"
    by (simp_all add: demo_ready_def demo_dsm_def mk_DSMConfig_def mk_ClusterInfo_def)
  have t: "0 \<le> thread_id (fresh_thread\<lparr>thread_id := 35\<rparr>)" "thread_id (fresh_thread\<lparr>thread_id := 35\<rparr>) < int kMaxNetThread"
    by (simp_all add: kMaxNetThread_def)
  have k: "\<forall>k. unat k < unat (2 :: u16) \<longrightarrow> remote_key demo_ready k \<noteq> None"
    by (auto simp: remote_key_def demo_ready_def)
  note ops = registered_thread_reaches_cluster [OF demo_device_creates b c t k, THEN conjunct2, THEN conjunct1]
  show ?thesis
    using ops [of "\<lambda>q w s. (0, s)" 0 0 0 8 1 True "()"] ops [of "\<lambda>q w s. (0, s)" 0 2 0 8 1 True "()"]
    by (intro exI [of _ d']) auto
qed

section \<open>Accessors\<close>

text \<open>
  The accessors of the class, the two forms of \<open>barrier\<close> (over all machines, or over a given
  number of arrivals; \<open>barrier\<close> is that of the keeper), and the only instance, which is
  constructed by the first call: \<open>inst\<close> is the function's static variable.
\<close>

definition get_my_node_id :: "dsm \<Rightarrow> u16" where "get_my_node_id d = ucast (my_node_id d)"

definition get_my_thread_id :: "dsm_thread \<Rightarrow> int" where "get_my_thread_id t = thread_id t"

definition get_remote_base_addr :: "dsm \<Rightarrow> u16 \<Rightarrow> u64 option" where
  "get_remote_base_addr d nid =
     (if unat nid < length (remoteCon (dsm_node d)) then Some (dsmBase (remoteCon (dsm_node d) ! unat nid)) else None)"

definition get_dsm_base_addr :: "dsm \<Rightarrow> u64" where "get_dsm_base_addr d = dsm_addr (conf d)"

definition get_rdma_buffer :: "dsm_thread \<Rightarrow> u64" where "get_rdma_buffer t = rdma_buffer t"

definition dsm_barrier :: "(string \<Rightarrow> u64 \<Rightarrow> 'w \<Rightarrow> 'w option) \<Rightarrow> dsm \<Rightarrow> string \<Rightarrow> 'w \<Rightarrow> 'w option" where
  "dsm_barrier barrier d ss w = barrier ss (ucast (machine_cnt (conf d))) w"

definition dsm_barrier_k :: "(string \<Rightarrow> u64 \<Rightarrow> 'w \<Rightarrow> 'w option) \<Rightarrow> string \<Rightarrow> u32 \<Rightarrow> 'w \<Rightarrow> 'w option" where
  "dsm_barrier_k barrier ss k w = barrier ss (scast k) w"

definition get_instance ::
  "(DSMConfig \<Rightarrow> 'w \<Rightarrow> (dsm \<times> 'w) startup option) \<Rightarrow> DSMConfig \<Rightarrow> dsm option \<times> 'w \<Rightarrow> (dsm \<times> dsm option \<times> 'w) startup option" where
  "get_instance mk0 cf x =
     (case x of (inst, w) \<Rightarrow>
        (case inst of
           Some d \<Rightarrow> Some (Started (d, inst, w))
         | None \<Rightarrow> map_option (\<lambda>r. case r of Exit \<Rightarrow> Exit | Started (d, w) \<Rightarrow> Started (d, Some d, w)) (mk0 cf w)))"

text \<open>A second call gives the first one's instance, whatever configuration it names.\<close>

lemma get_instance_again:
  "get_instance mk0 cf x = Some (Started (d, inst, w)) \<Longrightarrow> get_instance mk0 cf' (inst, w) = Some (Started (d, inst, w))"
proof -
  assume a: "get_instance mk0 cf x = Some (Started (d, inst, w))"
  obtain i v where x: "x = (i, v)" by (cases x)
  have "inst = Some d"
  proof (cases i)
    case None
    then obtain r where "mk0 cf v = Some r" using a x by (auto simp: get_instance_def)
    then show ?thesis using a x None by (cases r) (auto simp: get_instance_def)
  qed (use a x in \<open>auto simp: get_instance_def\<close>)
  then show ?thesis by (simp add: get_instance_def)
qed

end
