(* ===== verification/Rowan_Client.thy ===== *)
theory Rowan_Client
  imports DSM
begin

text \<open>
  \<open>RowanClient\<close> (\<open>src/rowan/RowanClient.cpp\<close>): a client registers its thread and hands out the
  eight message buffers of its part of the registered memory in turn.
\<close>

definition kBufferCnt :: nat where "kBufferCnt = 8"

record RowanClient =
  send_buf :: u64
  cur_send :: u64
  send_counter :: u64

text \<open>
  The constructor; when the thread is registered already it prints an error and goes on with
  the old buffer.
\<close>

definition mk_RowanClient ::
  "'s post_recv_fn \<Rightarrow> dsm \<Rightarrow> dsm_thread \<Rightarrow> 's \<Rightarrow> (RowanClient \<times> dsm \<times> dsm_thread \<times> 's) option" where
  "mk_RowanClient post_recv d t s =
     map_option (\<lambda>(d, t, s). (\<lparr>send_buf = rdma_buffer t, cur_send = 0, send_counter = 0\<rparr>, d, t, s))
       (register_thread post_recv (word_of_nat (kBufferCnt * MESSAGE_SIZE)) d t s)"

text \<open>\<open>get_send_buf\<close> clears the size of the message (bytes 4 and 5) in memory.\<close>

definition get_send_buf :: "RowanClient \<times> (u64 \<Rightarrow> u8) \<Rightarrow> u64 \<times> RowanClient \<times> (u64 \<Rightarrow> u8)" where
  "get_send_buf x = (case x of (c, mem) \<Rightarrow>
     let res = send_buf c + cur_send c * word_of_nat MESSAGE_SIZE
     in (res, c\<lparr>cur_send := (cur_send c + 1) mod word_of_nat kBufferCnt\<rparr>, mem(res + 4 := 0, res + 5 := 0)))"

section \<open>Threads of a node\<close>

text \<open>\<open>n\<close> fresh threads that construct their clients one after the other.\<close>

fun start_clients :: "'s post_recv_fn \<Rightarrow> nat \<Rightarrow> dsm \<Rightarrow> 's \<Rightarrow> (RowanClient list \<times> dsm \<times> 's) option" where
  "start_clients post_recv 0 d s = Some ([], d, s)"
| "start_clients post_recv (Suc n) d s =
     Option.bind (mk_RowanClient post_recv d fresh_thread s) (\<lambda>(c, d, t, s).
       map_option (\<lambda>(cs, d, s). (c # cs, d, s)) (start_clients post_recv n d s))"

text \<open>The buffer that the call number \<open>i\<close> returns.\<close>

definition nth_send_buf :: "RowanClient \<Rightarrow> (u64 \<Rightarrow> u8) \<Rightarrow> nat \<Rightarrow> u64" where
  "nth_send_buf c mem i = fst (get_send_buf (((snd \<circ> get_send_buf) ^^ i) (c, mem)))"

interpretation client_slots: slot_ring MESSAGE_SIZE "kMaxNetThread * kBufferCnt"
  by unfold_locales (simp_all add: MESSAGE_SIZE_def kMaxNetThread_def kBufferCnt_def)

lemma register_fresh:
  assumes "register_thread post_recv sz d fresh_thread s = Some (d', t', s')" "0 \<le> appID d"
  shows "appID d' = appID d + 1 \<and> rdma_buffer t' = buf_addr (conf d) + word_of_int (appID d) * sz
     \<and> conf d' = conf d \<and> nat (appID d) < length (thCon (dsm_node d)) \<and> length (thCon (dsm_node d')) = length (thCon (dsm_node d))"
  using assms
  by (auto simp: register_thread_def fresh_thread_def Let_def iCon_def set_iCon_def bind_eq_Some_conv
      split: if_splits prod.splits)

lemma start_clients_nth:
  assumes "start_clients post_recv n d s = Some (cs, d', s')" "0 \<le> appID d" "k < n"
  shows "length cs = n \<and> cs ! k = \<lparr>send_buf = buf_addr (conf d) + word_of_int (appID d + int k) * word_of_nat (kBufferCnt * MESSAGE_SIZE),
      cur_send = 0, send_counter = 0\<rparr> \<and> nat (appID d) + k < length (thCon (dsm_node d))"
  using assms
proof (induction n arbitrary: d s cs k)
  case (Suc n)
  let ?sz = "word_of_nat (kBufferCnt * MESSAGE_SIZE) :: u64"
  from Suc.prems(1) obtain d1 t1 s1 cs1 where r: "register_thread post_recv ?sz d fresh_thread s = Some (d1, t1, s1)"
    and cs: "start_clients post_recv n d1 s1 = Some (cs1, d', s')" "cs = \<lparr>send_buf = rdma_buffer t1, cur_send = 0, send_counter = 0\<rparr> # cs1"
    by (auto simp: bind_eq_Some_conv mk_RowanClient_def)
  note reg = register_fresh [OF r Suc.prems(2)]
  have len: "length cs1 = n"
    using Suc.IH [OF cs(1), of 0] reg Suc.prems(2) cs(1) by (cases n) auto
  show ?case
  proof (cases k)
    case 0
    then show ?thesis using reg len cs(2) by simp
  next
    case (Suc j)
    then have "j < n" "0 \<le> appID d1" using Suc.prems reg by simp_all
    from Suc.IH [OF cs(1) this(2,1)] reg cs(2) Suc Suc.prems(2) show ?thesis
      by (simp add: nat_add_distrib algebra_simps)
  qed
qed simp

lemma cur_send_Suc: "(word_of_nat (i mod kBufferCnt) + 1) mod word_of_nat kBufferCnt = (word_of_nat (Suc i mod kBufferCnt) :: u64)"
proof -
  have x: "i mod kBufferCnt < 8" "Suc i mod kBufferCnt = Suc (i mod kBufferCnt) mod 8"
    by (simp_all add: kBufferCnt_def mod_Suc_eq)
  have "(word_of_nat x + 1) mod word_of_nat kBufferCnt = (word_of_nat (Suc x mod 8) :: u64)" if "x < 8" for x
  proof -
    have "x \<in> {0, 1, 2, 3, 4, 5, 6, 7}" using that by auto
    then show ?thesis by (auto simp: kBufferCnt_def)
  qed
  with x show ?thesis by simp
qed

lemma iterate_send_buf:
  "\<exists>mem'. ((snd \<circ> get_send_buf) ^^ i) (c\<lparr>cur_send := 0\<rparr>, mem) = (c\<lparr>cur_send := word_of_nat (i mod kBufferCnt)\<rparr>, mem')"
proof (induction i)
  case (Suc i)
  then obtain mem' where m: "((snd \<circ> get_send_buf) ^^ i) (c\<lparr>cur_send := 0\<rparr>, mem) = (c\<lparr>cur_send := word_of_nat (i mod kBufferCnt)\<rparr>, mem')"
    by blast
  have "\<exists>mem2. snd (get_send_buf (c\<lparr>cur_send := word_of_nat (i mod kBufferCnt)\<rparr>, mem'))
      = (c\<lparr>cur_send := word_of_nat (Suc i mod kBufferCnt)\<rparr>, mem2)"
    by (simp add: get_send_buf_def Let_def cur_send_Suc)
  moreover have "((snd \<circ> get_send_buf) ^^ Suc i) (c\<lparr>cur_send := 0\<rparr>, mem)
      = snd (get_send_buf (c\<lparr>cur_send := word_of_nat (i mod kBufferCnt)\<rparr>, mem'))"
    unfolding m [symmetric] by simp
  ultimately show ?case by (simp only:)
qed simp

lemma nth_send_buf_slot:
  assumes "c = \<lparr>send_buf = base + word_of_nat k * word_of_nat (kBufferCnt * MESSAGE_SIZE), cur_send = 0, send_counter = 0\<rparr>"
  shows "nth_send_buf c mem i = slot_addr base MESSAGE_SIZE (k * kBufferCnt + i mod kBufferCnt)"
proof -
  have "c = c\<lparr>cur_send := 0\<rparr>" using assms by simp
  then obtain mem' where "((snd \<circ> get_send_buf) ^^ i) (c, mem) = (c\<lparr>cur_send := word_of_nat (i mod kBufferCnt)\<rparr>, mem')"
    using iterate_send_buf [of i c mem] by metis
  then have "nth_send_buf c mem i = send_buf c + word_of_nat (i mod kBufferCnt) * word_of_nat MESSAGE_SIZE"
    by (simp add: nth_send_buf_def get_send_buf_def Let_def)
  then show ?thesis using assms by (simp add: slot_addr_def algebra_simps)
qed

text \<open>
  C23. Send buffers of clients never overlap. When \<open>n\<close> threads of a fresh node have constructed
  their clients, in any number up to the 36 connections, two buffers that they hand out are
  disjoint if they belong to different threads, or to one thread and fewer than eight calls lie
  between them; all of them lie in the region of 36 times eight buffers, and the ninth call
  of a thread reuses its first buffer.
\<close>

theorem client_buffers_disjoint:
  assumes "start_clients post_recv n d s = Some (cs, d', s')" and "appID d = 0"
    and "length (thCon (dsm_node d)) = kMaxNetThread"
    and "unat (buf_addr (conf d)) + kMaxNetThread * kBufferCnt * MESSAGE_SIZE \<le> 2 ^ 64"
    and "k < n" and "l < n" and "k \<noteq> l \<or> (i < j \<and> j < i + kBufferCnt)"
  shows "disjoint_bufs MESSAGE_SIZE (nth_send_buf (cs ! k) m i) (nth_send_buf (cs ! l) m' j)
     \<and> unat (buf_addr (conf d)) \<le> unat (nth_send_buf (cs ! k) m i)
     \<and> unat (nth_send_buf (cs ! k) m i) + MESSAGE_SIZE \<le> unat (buf_addr (conf d)) + kMaxNetThread * kBufferCnt * MESSAGE_SIZE
     \<and> nth_send_buf (cs ! k) m (i + kBufferCnt) = nth_send_buf (cs ! k) m i"
proof -
  let ?b = "buf_addr (conf d)"
  have c: "cs ! x = \<lparr>send_buf = ?b + word_of_nat x * word_of_nat (kBufferCnt * MESSAGE_SIZE), cur_send = 0, send_counter = 0\<rparr>"
    "x < kMaxNetThread" if "x < n" for x
    using start_clients_nth [OF assms(1) _ that] assms(2,3) by simp_all
  note slot = nth_send_buf_slot [OF c(1)]
  have pos: "0 < kBufferCnt" by (simp add: kBufferCnt_def)
  have in_ring: "x * kBufferCnt + y mod kBufferCnt < kMaxNetThread * kBufferCnt" if "x < n" for x y
  proof -
    have "x * kBufferCnt + y mod kBufferCnt < Suc x * kBufferCnt" using pos by simp
    also have "\<dots> \<le> kMaxNetThread * kBufferCnt" using c(2) [OF that] by (intro mult_le_mono1) simp
    finally show ?thesis .
  qed
  have "k * kBufferCnt + i mod kBufferCnt \<noteq> l * kBufferCnt + j mod kBufferCnt"
  proof
    assume eq: "k * kBufferCnt + i mod kBufferCnt = l * kBufferCnt + j mod kBufferCnt"
    then have "(k * kBufferCnt + i mod kBufferCnt) div kBufferCnt = (l * kBufferCnt + j mod kBufferCnt) div kBufferCnt"
      by simp
    then have "k = l" using pos by simp
    with eq assms(7) mod_neq_window [of i j kBufferCnt] show False by simp
  qed
  then show ?thesis
    using client_slots.slots_disjoint [OF assms(4) in_ring [OF assms(5)] in_ring [OF assms(6)]]
      client_slots.slot_in_region [OF assms(4) in_ring [OF assms(5)]]
    unfolding slot [OF assms(5)] slot [OF assms(6)] by simp
qed

lemma demo_start: "\<exists>cs d' s'. start_clients (\<lambda>b s. (0, s)) 2 demo_dsm () = Some (cs, d', s')"
proof -
  have i: "\<exists>d' t' s'. register_thread (\<lambda>b s. (0, s)) sz d fresh_thread () = Some (d', t', s')
      \<and> appID d' = appID d + 1 \<and> length (thCon (dsm_node d')) = length (thCon (dsm_node d))"
    if "0 \<le> appID d" "nat (appID d) < length (thCon (dsm_node d))" for d sz
    using that by (auto simp: register_thread_def fresh_thread_def Let_def iCon_def set_iCon_def split: prod.splits)
  have c: "\<exists>c d' t' s'. mk_RowanClient (\<lambda>b s. (0, s)) d fresh_thread () = Some (c, d', t', s')
      \<and> appID d' = appID d + 1 \<and> length (thCon (dsm_node d')) = length (thCon (dsm_node d))"
    if "0 \<le> appID d" "nat (appID d) < length (thCon (dsm_node d))" for d
    using i [OF that, of "word_of_nat (kBufferCnt * MESSAGE_SIZE)"] by (auto simp: mk_RowanClient_def)
  have l: "appID demo_dsm = 0" "length (thCon (dsm_node demo_dsm)) = 36"
    by (simp_all add: demo_dsm_def demo_node_def kMaxNetThread_def)
  obtain c1 d1 t1 s1 where 1: "mk_RowanClient (\<lambda>b s. (0, s)) demo_dsm fresh_thread () = Some (c1, d1, t1, s1)"
    "appID d1 = 1" "length (thCon (dsm_node d1)) = 36"
    using c [of demo_dsm] l by auto
  obtain c2 d2 t2 s2 where 2: "mk_RowanClient (\<lambda>b s. (0, s)) d1 fresh_thread () = Some (c2, d2, t2, s2)"
    using c [of d1] 1 by auto
  show ?thesis using 1(1) 2 by (simp add: numeral_2_eq_2)
qed

theorem client_buffers_disjoint_witness:
  "\<exists>cs. disjoint_bufs MESSAGE_SIZE (nth_send_buf (cs ! 0) (\<lambda>_. 0) 5) (nth_send_buf (cs ! 1) (\<lambda>_. 0) 5)
     \<and> disjoint_bufs MESSAGE_SIZE (nth_send_buf (cs ! 1) (\<lambda>_. 0) 5) (nth_send_buf (cs ! 1) (\<lambda>_. 0) 12)"
proof -
  obtain cs d' s' where r: "start_clients (\<lambda>b s. (0, s)) 2 demo_dsm () = Some (cs, d', s')" using demo_start by blast
  have h: "appID demo_dsm = 0" "length (thCon (dsm_node demo_dsm)) = kMaxNetThread"
    "unat (buf_addr (conf demo_dsm)) + kMaxNetThread * kBufferCnt * MESSAGE_SIZE \<le> 2 ^ 64"
    by (simp_all add: demo_dsm_def demo_node_def mk_DSMConfig_def kMaxNetThread_def kBufferCnt_def MESSAGE_SIZE_def)
  show ?thesis
    using client_buffers_disjoint [OF r h, of 0 1 5 5 "\<lambda>_. 0" "\<lambda>_. 0"] client_buffers_disjoint [OF r h, of 1 1 5 12 "\<lambda>_. 0" "\<lambda>_. 0"]
    by (intro exI [of _ cs]) (simp add: kBufferCnt_def)
qed

end
