(* ===== verification/Rowan_Server.thy ===== *)
theory Rowan_Server
  imports Mlx5_Driver Rdma_Ops
begin

text \<open>
  \<open>src/rowan/RowanServer.cpp\<close>: \<open>raw_manage_srq\<close> keeps a multi-packet shared receive queue
  supplied with 36 segments of 64 KiB. The network card fills the posted segments one after
  the other (this is the log of Rowan); the server watches the first byte of the segment
  after \<open>head\<close> and, once the card has started to write there, clears the segment at \<open>head\<close>
  and posts it again. Server and card run concurrently, so the model is a step relation in
  which either of them moves.
\<close>

section \<open>Constants of \<open>DirectoryConnection\<close>, \<open>RowanServer\<close> and \<open>RowanCommon\<close>\<close>

definition kMpSrqSize :: nat where "kMpSrqSize = 64"
definition kLogNumStrides :: nat where "kLogNumStrides = 10"
definition kLogStrideBytes :: nat where "kLogStrideBytes = 6"
definition kStrideBufSize :: nat where
  "kStrideBufSize = 2 ^ kLogNumStrides * 2 ^ kLogStrideBytes"
definition kSrqBufferCnt :: nat where "kSrqBufferCnt = 36"

lemmas rowan_consts = kMpSrqSize_def kLogNumStrides_def kLogStrideBytes_def kStrideBufSize_def
  kSrqBufferCnt_def

text \<open>\<open>DirectoryConnection::get_recv_buf\<close> asserts that the registered buffer is large enough.\<close>

definition get_recv_buf :: "u64 \<Rightarrow> nat \<Rightarrow> nat \<Rightarrow> u64 option" where
  "get_recv_buf cachePool cacheSize sz = (if sz \<le> cacheSize then Some cachePool else None)"

section \<open>The server\<close>

text \<open>
  The statements of \<open>raw_manage_srq\<close> that touch memory or the queue, as program points: the
  two of the initial loop, the poll, and the three of a recycling turn.
\<close>

datatype rowan_pc = InitClear nat | InitPost nat | Poll | FreeWqe | Clear | Post

record rowan_server =
  pc :: rowan_pc
  buf_start :: u64
  lkey :: u32
  head :: u64
  mlx5_srq_head :: u16
  drv_srq :: mlx5_srq

text \<open>
  The memory, and the card: the receive requests posted and not started (oldest first) and
  the segment being written.
\<close>

record nic =
  mem :: "u64 \<Rightarrow> u8"
  posted :: "ibv_recv_wr list"
  writing :: "u64 option"

definition seg_addr :: "rowan_server \<Rightarrow> nat \<Rightarrow> u64" where
  "seg_addr sv k = slot_addr (buf_start sv) kStrideBufSize k"

definition clear_first :: "u64 \<Rightarrow> nic \<Rightarrow> nic" where
  "clear_first a n = n\<lparr>mem := (mem n)(a := 0)\<rparr>"

text \<open>\<open>ep->recv\<close>: \<open>rdmaReceive\<close> on the shared receive queue, which is a queue.\<close>

definition post_srq :: "unit \<Rightarrow> ibv_recv_wr list \<Rightarrow> nic \<Rightarrow> int \<times> nic" where
  "post_srq srq wrs n = (0, n\<lparr>posted := posted n @ wrs\<rparr>)"

definition recv :: "rowan_server \<Rightarrow> u64 \<Rightarrow> nic \<Rightarrow> nic" where
  "recv sv buffer n =
     snd (rdmaReceive_srq post_srq () buffer (word_of_nat kStrideBufSize) (lkey sv) n)"

definition next_header :: "rowan_server \<Rightarrow> u64" where
  "next_header sv = (head sv + 1) mod word_of_nat kSrqBufferCnt"

definition start_server :: "u64 \<Rightarrow> nat \<Rightarrow> u32 \<Rightarrow> mlx5_srq \<Rightarrow> rowan_server option" where
  "start_server cachePool cacheSize lk srq =
     map_option (\<lambda>b. \<lparr>pc = InitClear 0, buf_start = b, lkey = lk, head = 0, mlx5_srq_head = 0,
                      drv_srq = srq\<rparr>)
       (get_recv_buf cachePool cacheSize (kSrqBufferCnt * kStrideBufSize))"

text \<open>One statement of the server; \<open>None\<close> is an access outside the driver's buffer.\<close>

fun server_step :: "rowan_server \<times> nic \<Rightarrow> (rowan_server \<times> nic) option" where
  "server_step (sv, n) =
     (case pc sv of
        InitClear k \<Rightarrow> Some (sv\<lparr>pc := InitPost k\<rparr>, clear_first (seg_addr sv k) n)
      | InitPost k \<Rightarrow>
          Some (sv\<lparr>pc := (if k + 1 < kSrqBufferCnt then InitClear (k + 1) else Poll)\<rparr>,
                recv sv (seg_addr sv k) n)
      | Poll \<Rightarrow>
          Some (if mem n (seg_addr sv (unat (next_header sv))) \<noteq> 0 then sv\<lparr>pc := FreeWqe\<rparr> else sv, n)
      | FreeWqe \<Rightarrow>
          map_option (\<lambda>srq. (sv\<lparr>pc := Clear, drv_srq := srq,
                mlx5_srq_head := word_of_nat ((unat (mlx5_srq_head sv) + 1) mod (2 * kMpSrqSize))\<rparr>, n))
            (mlx5_free_srq_wqe (drv_srq sv) (mlx5_srq_head sv))
      | Clear \<Rightarrow> Some (sv\<lparr>pc := Post\<rparr>, clear_first (seg_addr sv (unat (head sv))) n)
      | Post \<Rightarrow> Some (sv\<lparr>pc := Poll, head := next_header sv\<rparr>, recv sv (seg_addr sv (unat (head sv))) n))"

section \<open>The network card\<close>

text \<open>
  What the card does to memory when it writes into the segment at \<open>a\<close>: nothing outside the
  segment.
\<close>

definition in_segment :: "u64 \<Rightarrow> u64 \<Rightarrow> bool" where
  "in_segment a x \<longleftrightarrow> unat a \<le> unat x \<and> unat x < unat a + kStrideBufSize"

text \<open>
  The card starts the oldest posted segment (the first message has a nonzero first byte: the
  clients set \<open>magic\<close>) or goes on in the current segment behind its first byte.
\<close>

inductive nic_step :: "nic \<Rightarrow> nic \<Rightarrow> bool" where
  nic_next: "posted n = w # ws \<Longrightarrow> a = sge_addr (hd (rsg_list w)) \<Longrightarrow> m a \<noteq> 0 \<Longrightarrow>
     (\<forall>x. \<not> in_segment a x \<longrightarrow> m x = mem n x) \<Longrightarrow>
     nic_step n \<lparr>mem = m, posted = ws, writing = Some a\<rparr>"
| nic_write: "writing n = Some a \<Longrightarrow> m a = mem n a \<Longrightarrow>
     (\<forall>x. \<not> in_segment a x \<longrightarrow> m x = mem n x) \<Longrightarrow>
     nic_step n (n\<lparr>mem := m\<rparr>)"

inductive rowan_step :: "rowan_server \<times> nic \<Rightarrow> rowan_server \<times> nic \<Rightarrow> bool" where
  serve: "server_step x = Some y \<Longrightarrow> rowan_step x y"
| receive: "nic_step n n' \<Longrightarrow> rowan_step (sv, n) (sv, n')"

text \<open>
  The start: a registered buffer inside the address space, a driver queue of 128 entries and
  an idle card.
\<close>

definition rowan_start :: "rowan_server \<times> nic \<Rightarrow> bool" where
  "rowan_start x \<longleftrightarrow> (case x of (sv, n) \<Rightarrow>
     (\<exists>pool sz lk srq. start_server pool sz lk srq = Some sv
        \<and> unat pool + sz \<le> 2 ^ 64 \<and> srq_shape srq (2 * kMpSrqSize))
     \<and> posted n = [] \<and> writing n = None)"

section \<open>The ring of segments\<close>

interpretation seg_ring: slot_ring kStrideBufSize kSrqBufferCnt
  by unfold_locales (simp_all add: rowan_consts)

text \<open>Segment number \<open>i\<close> of the log, counted without wrapping.\<close>

definition log_seg :: "rowan_server \<Rightarrow> nat \<Rightarrow> u64" where
  "log_seg sv i = seg_addr sv (i mod kSrqBufferCnt)"

definition seg_wr :: "rowan_server \<Rightarrow> nat \<Rightarrow> ibv_recv_wr" where
  "seg_wr sv i = fillSgeWr_recv (log_seg sv i) (word_of_nat kStrideBufSize) (lkey sv)"

text \<open>
  The invariant, with \<open>h\<close> segments recycled, \<open>p\<close> posted and \<open>d\<close> started by the card:
  the segments \<open>d..<p\<close> wait in the queue with a zero first byte, the segments \<open>h..<d\<close> have
  been started and have a nonzero one.
\<close>

definition rowan_at :: "rowan_server \<times> nic \<Rightarrow> nat \<Rightarrow> nat \<Rightarrow> nat \<Rightarrow> bool" where
  "rowan_at x h d p \<longleftrightarrow> (case x of (sv, n) \<Rightarrow>
     unat (buf_start sv) + kSrqBufferCnt * kStrideBufSize \<le> 2 ^ 64
     \<and> srq_shape (drv_srq sv) (2 * kMpSrqSize) \<and> unat (mlx5_srq_head sv) < 2 * kMpSrqSize
     \<and> unat (head sv) = h mod kSrqBufferCnt
     \<and> h \<le> d \<and> (0 < h \<longrightarrow> h < d) \<and> d \<le> p
     \<and> posted n = map (seg_wr sv) [d..<p]
     \<and> writing n = (if d = 0 then None else Some (log_seg sv (d - 1)))
     \<and> (\<forall>i. d \<le> i \<longrightarrow> i < p \<longrightarrow> mem n (log_seg sv i) = 0)
     \<and> (\<forall>i. h < i \<longrightarrow> i < d \<longrightarrow> mem n (log_seg sv i) \<noteq> 0)
     \<and> (case pc sv of
          InitClear k \<Rightarrow> h = 0 \<and> p = k \<and> k < kSrqBufferCnt
        | InitPost k \<Rightarrow> h = 0 \<and> p = k \<and> k < kSrqBufferCnt \<and> mem n (log_seg sv k) = 0
        | Poll \<Rightarrow> p = h + kSrqBufferCnt
        | FreeWqe \<Rightarrow> p = h + kSrqBufferCnt \<and> h + 2 \<le> d
        | Clear \<Rightarrow> p = h + kSrqBufferCnt \<and> h + 2 \<le> d
        | Post \<Rightarrow> p = h + kSrqBufferCnt \<and> h + 2 \<le> d \<and> mem n (log_seg sv h) = 0))"

definition rowan_inv :: "rowan_server \<times> nic \<Rightarrow> bool" where
  "rowan_inv x \<longleftrightarrow> (\<exists>h d p. rowan_at x h d p)"

section \<open>The invariant holds\<close>

lemma seg_fields [simp]:
  "log_seg (sv\<lparr>pc := q\<rparr>) = log_seg sv" "log_seg (sv\<lparr>head := hd'\<rparr>) = log_seg sv"
  "log_seg (sv\<lparr>mlx5_srq_head := m\<rparr>) = log_seg sv" "log_seg (sv\<lparr>drv_srq := r\<rparr>) = log_seg sv"
  "seg_wr (sv\<lparr>pc := q\<rparr>) = seg_wr sv" "seg_wr (sv\<lparr>head := hd'\<rparr>) = seg_wr sv"
  "seg_wr (sv\<lparr>mlx5_srq_head := m\<rparr>) = seg_wr sv" "seg_wr (sv\<lparr>drv_srq := r\<rparr>) = seg_wr sv"
  by (simp_all add: log_seg_def seg_addr_def seg_wr_def fun_eq_iff)

lemma seg_wr_addr [simp]: "sge_addr (hd (rsg_list (seg_wr sv i))) = log_seg sv i"
  by (simp add: seg_wr_def fillSgeWr_recv_def mk_sge_def)

lemma kSrqBufferCnt_pos [simp]: "0 < kSrqBufferCnt"
  by (simp add: kSrqBufferCnt_def)

lemma log_seg_small: "k < kSrqBufferCnt \<Longrightarrow> log_seg sv k = seg_addr sv k"
  by (simp add: log_seg_def)

lemma log_seg_add: "log_seg sv (i + kSrqBufferCnt) = log_seg sv i"
  by (simp add: log_seg_def)

lemma seg_wr_add: "seg_wr sv (i + kSrqBufferCnt) = seg_wr sv i"
  by (simp add: seg_wr_def log_seg_add)

lemma log_seg_disjoint:
  assumes "unat (buf_start sv) + kSrqBufferCnt * kStrideBufSize \<le> 2 ^ 64"
    and "i < j" "j < i + kSrqBufferCnt"
  shows "disjoint_bufs kStrideBufSize (log_seg sv i) (log_seg sv j)"
  using seg_ring.window_disjoint [OF assms] by (simp add: log_seg_def seg_addr_def)

lemma in_segment_self: "in_segment a a"
  by (simp add: in_segment_def rowan_consts)

lemma seg_apart:
  assumes "unat (buf_start sv) + kSrqBufferCnt * kStrideBufSize \<le> 2 ^ 64"
    and "i < j" "j < i + kSrqBufferCnt"
  shows "\<not> in_segment (log_seg sv i) (log_seg sv j)" "\<not> in_segment (log_seg sv j) (log_seg sv i)"
    and "log_seg sv i \<noteq> log_seg sv j"
  using log_seg_disjoint [OF assms] in_segment_self [of "log_seg sv i"]
  by (auto simp: disjoint_bufs_def in_segment_def rowan_consts)

lemma recv_eq: "recv sv a n = n\<lparr>posted := posted n @ [fillSgeWr_recv a (word_of_nat kStrideBufSize) (lkey sv)]\<rparr>"
  by (simp add: recv_def rdmaReceive_srq_def post_wr_def post_srq_def)

lemma next_header_eq:
  assumes "unat (head sv) = h mod kSrqBufferCnt"
  shows "unat (next_header sv) = Suc h mod kSrqBufferCnt"
proof -
  have "h mod kSrqBufferCnt < 36" by (simp add: kSrqBufferCnt_def)
  then have "unat (head sv + 1) = h mod kSrqBufferCnt + 1"
    using assms by (simp add: unat_word_ariths)
  then show ?thesis
    by (simp add: next_header_def unat_mod kSrqBufferCnt_def mod_Suc_eq)
qed

lemma start_at:
  assumes "rowan_start (sv, n)"
  shows "rowan_at (sv, n) 0 0 0"
  using assms
  by (auto simp: rowan_start_def start_server_def get_recv_buf_def rowan_at_def rowan_consts
      srq_shape_def split: if_splits)

text \<open>The card moves.\<close>

lemma nic_next_at:
  assumes at: "rowan_at (sv, n) h d p" and w: "posted n = w # ws"
    and a: "a = sge_addr (hd (rsg_list w))" "m a \<noteq> 0" "\<forall>x. \<not> in_segment a x \<longrightarrow> m x = mem n x"
  shows "a = log_seg sv d" and "rowan_at (sv, \<lparr>mem = m, posted = ws, writing = Some a\<rparr>) h (Suc d) p"
proof -
  from at have room: "unat (buf_start sv) + kSrqBufferCnt * kStrideBufSize \<le> 2 ^ 64"
    and q: "posted n = map (seg_wr sv) [d..<p]" and le: "h \<le> d" "d \<le> p"
    and p: "p \<le> h + kSrqBufferCnt"
    by (auto simp: rowan_at_def split: rowan_pc.splits)
  have dp: "d < p" using q w le by (cases "d = p") auto
  then have "[d..<p] = d # [Suc d..<p]" by (rule upt_conv_Cons)
  then have ws: "ws = map (seg_wr sv) [Suc d..<p]" and ad: "a = log_seg sv d" using q w a(1) by auto
  then show "a = log_seg sv d" by simp
  have same: "m (log_seg sv i) = mem n (log_seg sv i)" if "h \<le> i" "i < h + kSrqBufferCnt" "i \<noteq> d" for i
    using a(3) seg_apart [OF room, of i d] seg_apart [OF room, of d i] that le dp p
    by (cases i d rule: linorder_cases) (auto simp: ad)
  have "case pc sv of InitPost k \<Rightarrow> k = p \<and> h = 0 \<and> k < kSrqBufferCnt | Post \<Rightarrow> h < d | _ \<Rightarrow> True"
    using at by (auto simp: rowan_at_def split: rowan_pc.splits)
  then show "rowan_at (sv, \<lparr>mem = m, posted = ws, writing = Some a\<rparr>) h (Suc d) p"
    using at ad ws dp p a(2) same le
    unfolding rowan_at_def prod.case
    by (auto simp: less_Suc_eq split: rowan_pc.splits)
qed

lemma nic_write_at:
  assumes at: "rowan_at (sv, n) h d p" and wr: "writing n = Some a"
    and m: "m a = mem n a" "\<forall>x. \<not> in_segment a x \<longrightarrow> m x = mem n x"
  shows "rowan_at (sv, n\<lparr>mem := m\<rparr>) h d p"
proof -
  from at have room: "unat (buf_start sv) + kSrqBufferCnt * kStrideBufSize \<le> 2 ^ 64"
    and le: "h \<le> d" "d \<le> p" and p: "p \<le> h + kSrqBufferCnt"
    and wd: "writing n = (if d = 0 then None else Some (log_seg sv (d - 1)))"
    by (auto simp: rowan_at_def split: rowan_pc.splits)
  from wd wr have "0 < d" and ad: "a = log_seg sv (d - 1)" by (auto split: if_splits)
  then have hd: "h < d" using at by (cases "h = 0") (auto simp: rowan_at_def)
  have same: "m (log_seg sv i) = mem n (log_seg sv i)"
    if "h \<le> i" "i < h + kSrqBufferCnt" for i
    using m seg_apart [OF room, of i "d - 1"] seg_apart [OF room, of "d - 1" i] that le p hd
    by (cases i "d - 1" rule: linorder_cases) (auto simp: ad)
  show ?thesis
    using at same le p hd unfolding rowan_at_def prod.case
    by (auto split: rowan_pc.splits)
qed

text \<open>The server moves.\<close>

lemma server_step_at:
  assumes at: "rowan_at (sv, n) h d p"
  obtains sv' n' h' p' where "server_step (sv, n) = Some (sv', n')" "rowan_at (sv', n') h' d p'"
    "h' = (if pc sv = Post then Suc h else h)"
    "p' = (if pc sv = Post \<or> (\<exists>k. pc sv = InitPost k) then Suc p else p)"
proof -
  from at have room: "unat (buf_start sv) + kSrqBufferCnt * kStrideBufSize \<le> 2 ^ 64"
    and shape: "srq_shape (drv_srq sv) (2 * kMpSrqSize)" and sh: "unat (mlx5_srq_head sv) < 2 * kMpSrqSize"
    and hd: "unat (head sv) = h mod kSrqBufferCnt" and le: "h \<le> d" "d \<le> p"
    by (auto simp: rowan_at_def)
  have seg_h: "seg_addr sv (unat (head sv)) = log_seg sv h" by (simp add: hd log_seg_def)
  have clear: "mem (clear_first (log_seg sv j) n) (log_seg sv i) = mem n (log_seg sv i)"
    if "i < j \<and> j < i + kSrqBufferCnt \<or> j < i \<and> i < j + kSrqBufferCnt" for i j
    using seg_apart(3) [OF room, of i j] seg_apart(3) [OF room, of j i] that
    by (auto simp: clear_first_def)
  show ?thesis
  proof (cases "pc sv")
    case (InitClear k)
    show ?thesis
      by (rule that [of "sv\<lparr>pc := InitPost k\<rparr>" "clear_first (seg_addr sv k) n" h p])
        (use at InitClear clear [of _ k] in \<open>auto simp: rowan_at_def log_seg_small [symmetric]\<close>,
         auto simp: clear_first_def)
  next
    case (InitPost k)
    then have k: "h = 0" "p = k" "k < kSrqBufferCnt" "mem n (log_seg sv k) = 0"
      and q: "posted n = map (seg_wr sv) [d..<p]"
      using at by (auto simp: rowan_at_def)
    let ?sv = "sv\<lparr>pc := (if k + 1 < kSrqBufferCnt then InitClear (k + 1) else Poll)\<rparr>"
    let ?n = "n\<lparr>posted := map (seg_wr sv) [d..<Suc p]\<rparr>"
    have "recv sv (seg_addr sv k) n = ?n"
      using k le q by (simp add: recv_eq seg_wr_def log_seg_small)
    then have "server_step (sv, n) = Some (?sv, ?n)" by (simp add: InitPost)
    moreover have "rowan_at (?sv, ?n) 0 d (Suc p)"
      using at k le unfolding rowan_at_def prod.case by (auto simp: less_Suc_eq)
    ultimately show ?thesis by (intro that [of ?sv ?n 0 "Suc p"]) (simp_all add: InitPost k(1))
  next
    case Poll
    then have ph: "p = h + kSrqBufferCnt" using at by (auto simp: rowan_at_def)
    let ?sv = "if mem n (seg_addr sv (unat (next_header sv))) \<noteq> 0 then sv\<lparr>pc := FreeWqe\<rparr> else sv"
    have "seg_addr sv (unat (next_header sv)) = log_seg sv (Suc h)"
      by (simp add: next_header_eq [OF hd] log_seg_def)
    moreover have "h + 2 \<le> d" if "mem n (log_seg sv (Suc h)) \<noteq> 0"
    proof (rule ccontr)
      assume "\<not> h + 2 \<le> d"
      then have "d \<le> Suc h" "Suc h < p" using le ph by (simp_all add: kSrqBufferCnt_def)
      then show False using at that by (auto simp: rowan_at_def)
    qed
    ultimately have "rowan_at (?sv, n) h d p"
      using at ph Poll unfolding rowan_at_def prod.case by auto
    then show ?thesis by (intro that [of ?sv n h p]) (simp_all add: Poll)
  next
    case FreeWqe
    then have ph: "p = h + kSrqBufferCnt" "h + 2 \<le> d" using at by (auto simp: rowan_at_def)
    obtain r where r: "mlx5_free_srq_wqe (drv_srq sv) (mlx5_srq_head sv) = Some r"
      "srq_shape r (2 * kMpSrqSize)"
      using free_srq_wqe [OF shape sh] by blast
    let ?m = "word_of_nat ((unat (mlx5_srq_head sv) + 1) mod (2 * kMpSrqSize)) :: u16"
    let ?sv = "sv\<lparr>pc := Clear, drv_srq := r, mlx5_srq_head := ?m\<rparr>"
    have "(unat (mlx5_srq_head sv) + 1) mod (2 * kMpSrqSize) < 128" by (simp add: kMpSrqSize_def)
    then have m: "unat ?m < 2 * kMpSrqSize" by (simp add: unat_of_nat kMpSrqSize_def)
    have "rowan_at (?sv, n) h d p"
      using at ph r(2) m FreeWqe unfolding rowan_at_def prod.case by auto
    then show ?thesis by (intro that [of ?sv n h p]) (simp_all add: FreeWqe r)
  next
    case Clear
    then have ph: "p = h + kSrqBufferCnt" "h + 2 \<le> d" using at by (auto simp: rowan_at_def)
    let ?n = "clear_first (log_seg sv h) n"
    have f: "posted ?n = posted n" "writing ?n = writing n" "mem ?n (log_seg sv h) = 0"
      by (simp_all add: clear_first_def)
    have "rowan_at (sv\<lparr>pc := Post\<rparr>, ?n) h d p"
      using at ph Clear f clear [of _ h] unfolding rowan_at_def prod.case by auto
    then show ?thesis by (intro that [of "sv\<lparr>pc := Post\<rparr>" ?n h p]) (simp_all add: Clear seg_h)
  next
    case Post
    then have ph: "p = h + kSrqBufferCnt" "h + 2 \<le> d" "mem n (log_seg sv h) = 0"
      and q: "posted n = map (seg_wr sv) [d..<p]"
      using at by (auto simp: rowan_at_def)
    let ?sv = "sv\<lparr>pc := Poll, head := next_header sv\<rparr>" and ?n = "n\<lparr>posted := map (seg_wr sv) [d..<Suc p]\<rparr>"
    have "recv sv (log_seg sv h) n = ?n"
      using le q seg_wr_add [of sv h] by (simp add: recv_eq seg_wr_def ph(1))
    moreover have "rowan_at (?sv, ?n) (Suc h) d (Suc p)"
      using at ph next_header_eq [OF hd] log_seg_add [of sv h] unfolding rowan_at_def prod.case
      by (auto simp: less_Suc_eq Post)
    ultimately show ?thesis by (intro that [of ?sv ?n "Suc h" "Suc p"]) (simp_all add: Post seg_h)
  qed
qed

interpretation rowan_sys: invariant_system rowan_start rowan_step rowan_inv
proof unfold_locales
  fix x :: "rowan_server \<times> nic" assume "rowan_start x"
  then show "rowan_inv x" using start_at by (cases x) (unfold rowan_inv_def, blast)
next
  fix x y :: "rowan_server \<times> nic" assume "rowan_step x y" "rowan_inv x"
  then show "rowan_inv y"
  proof (induction rule: rowan_step.induct)
    case (serve x y)
    obtain sv n where x: "x = (sv, n)" by (cases x)
    with serve obtain h d p where "rowan_at (sv, n) h d p" by (auto simp: rowan_inv_def)
    from server_step_at [OF this] serve x show ?case unfolding rowan_inv_def
      by (metis option.inject)
  next
    case (receive n n' sv)
    then obtain h d p where at: "rowan_at (sv, n) h d p" by (auto simp: rowan_inv_def)
    from receive(1) show ?case
    proof cases
      case (nic_next w ws a m)
      from nic_next_at(2) [OF at nic_next(2-5)] nic_next(1) show ?thesis
        unfolding rowan_inv_def by blast
    next
      case (nic_write a m)
      from nic_write_at [OF at nic_write(2-4)] nic_write(1) show ?thesis
        unfolding rowan_inv_def by blast
    qed
  qed
qed

section \<open>Properties\<close>

text \<open>
  C2. No segment is used twice at a time. In every reachable state of server and card the
  server's next statement is defined; at most 36 segments are posted (the queue has room for
  64); the posted segments and the one being written are pairwise disjoint; and while the
  server clears and reposts the segment at \<open>head\<close>, the card neither writes it nor has it in
  its queue.
\<close>

theorem rowan_segments_never_overlap:
  assumes reach: "reachable rowan_start rowan_step (sv, n)"
  defines "addrs \<equiv> map (\<lambda>w. sge_addr (hd (rsg_list w))) (posted n)"
  shows "server_step (sv, n) \<noteq> None
     \<and> length addrs \<le> kSrqBufferCnt \<and> kSrqBufferCnt \<le> kMpSrqSize
     \<and> (\<forall>i j. i < j \<longrightarrow> j < length addrs \<longrightarrow> disjoint_bufs kStrideBufSize (addrs ! i) (addrs ! j))
     \<and> (\<forall>a \<in> set addrs. \<forall>b. writing n = Some b \<longrightarrow> length addrs < kSrqBufferCnt
            \<and> disjoint_bufs kStrideBufSize b a)
     \<and> (pc sv \<in> {FreeWqe, Clear, Post} \<longrightarrow>
          (\<forall>a \<in> set addrs \<union> set_option (writing n).
             disjoint_bufs kStrideBufSize (seg_addr sv (unat (head sv))) a))"
proof -
  from rowan_sys.reachable_inv [OF reach] obtain h d p where at: "rowan_at (sv, n) h d p"
    by (auto simp: rowan_inv_def)
  then have room: "unat (buf_start sv) + kSrqBufferCnt * kStrideBufSize \<le> 2 ^ 64"
    and hd: "unat (head sv) = h mod kSrqBufferCnt" and le: "h \<le> d" "0 < h \<longrightarrow> h < d" "d \<le> p"
    and q: "posted n = map (seg_wr sv) [d..<p]"
    and wr: "writing n = (if d = 0 then None else Some (log_seg sv (d - 1)))"
    and ph: "p \<le> h + kSrqBufferCnt"
    by (auto simp: rowan_at_def split: rowan_pc.splits)
  note apart = log_seg_disjoint [OF room]
  have ad: "addrs = map (log_seg sv) [d..<p]" by (simp add: addrs_def q)
  have "server_step (sv, n) \<noteq> None" by (rule server_step_at [OF at]) simp
  moreover have "length addrs \<le> kSrqBufferCnt" "kSrqBufferCnt \<le> kMpSrqSize"
    using ph le by (simp_all add: ad rowan_consts)
  moreover have "disjoint_bufs kStrideBufSize (addrs ! i) (addrs ! j)" if "i < j" "j < length addrs" for i j
    using that ph le apart [of "d + i" "d + j"] by (simp add: ad)
  moreover have "length addrs < kSrqBufferCnt \<and> disjoint_bufs kStrideBufSize b a"
    if am: "a \<in> set addrs" and "writing n = Some b" for a b
  proof -
    have d: "0 < d" "b = log_seg sv (d - 1)" using \<open>writing n = Some b\<close> wr by (auto split: if_splits)
    then have "h \<le> d - 1" using le by auto
    moreover obtain i where "a = log_seg sv i" "d \<le> i" "i < p" using am by (auto simp: ad)
    ultimately show ?thesis using d ph apart [of "d - 1" i] by (auto simp: ad)
  qed
  moreover have "disjoint_bufs kStrideBufSize (seg_addr sv (unat (head sv))) a"
    if "pc sv \<in> {FreeWqe, Clear, Post}" "a \<in> set addrs \<union> set_option (writing n)" for a
  proof -
    have "h + 2 \<le> d" using that(1) at by (auto simp: rowan_at_def)
    moreover have "\<exists>i. a = log_seg sv i \<and> d - 1 \<le> i \<and> i < p"
    proof (cases "a \<in> set addrs")
      case True
      then obtain i where "a = log_seg sv i" "d \<le> i" "i < p" by (auto simp: ad)
      then show ?thesis by (intro exI [of _ i]) simp
    next
      case False
      then have "a = log_seg sv (d - 1)" using that(2) wr by (auto split: if_splits)
      moreover have "d - 1 < p" using le \<open>h + 2 \<le> d\<close> by simp
      ultimately show ?thesis by blast
    qed
    then obtain i where "a = log_seg sv i" "d - 1 \<le> i" "i < p" by blast
    ultimately show ?thesis using ph apart [of h i] by (simp add: hd log_seg_def)
  qed
  ultimately show ?thesis by blast
qed

text \<open>
  C5. The log is written in order. In every reachable state the posted segments follow each
  other and the one being written in the ring (slot \<open>k\<close> before slot \<open>(k + 1) mod 36\<close>), and
  the first byte of every posted segment is zero, so a nonzero byte there means that the card
  has started the segment.
\<close>

theorem rowan_log_in_order:
  assumes reach: "reachable rowan_start rowan_step (sv, n)"
  shows "\<exists>k. (writing n = None \<longrightarrow> k = 0)
     \<and> (\<forall>b. writing n = Some b \<longrightarrow> b = seg_addr sv ((k + kSrqBufferCnt - 1) mod kSrqBufferCnt))
     \<and> (\<forall>i < length (posted n). sge_addr (hd (rsg_list (posted n ! i))) = seg_addr sv ((k + i) mod kSrqBufferCnt)
          \<and> mem n (sge_addr (hd (rsg_list (posted n ! i)))) = 0)"
proof -
  from rowan_sys.reachable_inv [OF reach] obtain h d p where at: "rowan_at (sv, n) h d p"
    by (auto simp: rowan_inv_def)
  then have q: "posted n = map (seg_wr sv) [d..<p]" "\<forall>i. d \<le> i \<longrightarrow> i < p \<longrightarrow> mem n (log_seg sv i) = 0"
    and wr: "writing n = (if d = 0 then None else Some (log_seg sv (d - 1)))"
    by (simp_all add: rowan_at_def)
  have "log_seg sv (d - 1) = seg_addr sv ((d + kSrqBufferCnt - 1) mod kSrqBufferCnt)" if "0 < d"
    using that log_seg_add [of sv "d - 1"] by (simp add: log_seg_def)
  then show ?thesis
    using q wr by (intro exI [of _ d]) (auto simp: log_seg_def)
qed

fun server_run :: "nat \<Rightarrow> rowan_server \<times> nic \<Rightarrow> (rowan_server \<times> nic) option" where
  "server_run 0 x = Some x"
| "server_run (Suc k) x = Option.bind (server_step x) (server_run k)"

lemma server_run_4: "server_run 4 x = Option.bind (server_step x) (\<lambda>a. Option.bind (server_step a)
    (\<lambda>b. Option.bind (server_step b) server_step))"
proof -
  have "server_run (Suc k) = (\<lambda>x. Option.bind (server_step x) (server_run k))" "server_run 0 = Some" for k
    by (simp_all add: fun_eq_iff)
  then show ?thesis by (simp add: eval_nat_numeral)
qed

text \<open>
  C22. The server recycles exactly when the card has moved on. At the poll, if the first byte
  of the next segment is zero the server stays there and changes nothing; otherwise its next
  four statements clear the segment at \<open>head\<close>, post it behind all others, hand one entry back
  to the driver and advance \<open>head\<close> and the entry counter by one, each in its ring.
\<close>

theorem rowan_recycles_iff_next_started:
  assumes reach: "reachable rowan_start rowan_step (sv, n)" and poll: "pc sv = Poll"
  defines "old \<equiv> seg_addr sv (unat (head sv))"
  shows "if mem n (seg_addr sv (unat (next_header sv))) = 0 then server_step (sv, n) = Some (sv, n)
     else \<exists>sv' n'. server_run 4 (sv, n) = Some (sv', n') \<and> pc sv' = Poll
        \<and> unat (head sv') = (unat (head sv) + 1) mod kSrqBufferCnt
        \<and> posted n' = posted n @ [fillSgeWr_recv old (word_of_nat kStrideBufSize) (lkey sv)]
        \<and> mem n' = (mem n)(old := 0) \<and> writing n' = writing n
        \<and> next_wqe (drv_srq sv') (srq_tail (drv_srq sv)) = Some (mlx5_srq_head sv)
        \<and> srq_tail (drv_srq sv') = unat (mlx5_srq_head sv)
        \<and> unat (mlx5_srq_head sv') = (unat (mlx5_srq_head sv) + 1) mod 128"
proof (cases "mem n (seg_addr sv (unat (next_header sv))) = 0")
  case True
  then show ?thesis by (simp add: poll)
next
  case False
  from rowan_sys.reachable_inv [OF reach] obtain h d p where at: "rowan_at (sv, n) h d p"
    by (auto simp: rowan_inv_def)
  then have shape: "srq_shape (drv_srq sv) (2 * kMpSrqSize)" and sh: "unat (mlx5_srq_head sv) < 2 * kMpSrqSize"
    and hd: "unat (head sv) = h mod kSrqBufferCnt"
    by (auto simp: rowan_at_def)
  obtain r where r: "mlx5_free_srq_wqe (drv_srq sv) (mlx5_srq_head sv) = Some r"
    "srq_tail r = unat (mlx5_srq_head sv)" "next_wqe r (srq_tail (drv_srq sv)) = Some (mlx5_srq_head sv)"
    using free_srq_wqe [OF shape sh] by blast
  have nh: "unat (next_header sv) = (unat (head sv) + 1) mod kSrqBufferCnt"
    using next_header_eq [OF hd] hd by (simp add: mod_Suc_eq)
  have m: "unat (word_of_nat ((unat (mlx5_srq_head sv) + 1) mod 128) :: u16) = (unat (mlx5_srq_head sv) + 1) mod 128"
    by (simp add: unat_of_nat mod_less_eq_dividend order.strict_trans1 [of _ 127])
  let ?sv = "sv\<lparr>pc := Poll, drv_srq := r, mlx5_srq_head :=
      word_of_nat ((unat (mlx5_srq_head sv) + 1) mod (2 * kMpSrqSize)), head := next_header sv\<rparr>"
  have "server_run 4 (sv, n) = Some (?sv, recv sv old (clear_first old n))"
    using False r by (simp add: server_run_4 poll old_def seg_addr_def next_header_def recv_def)
  moreover have "\<dots> = Some (?sv, n\<lparr>mem := (mem n)(old := 0),
      posted := posted n @ [fillSgeWr_recv old (word_of_nat kStrideBufSize) (lkey sv)]\<rparr>)"
    by (simp add: recv_eq clear_first_def)
  ultimately show ?thesis
    using False r nh m by (simp add: kMpSrqSize_def)
qed

section \<open>A concrete run\<close>

declare server_step.simps [simp del]

lemma server_run_reachable:
  "reachable rowan_start rowan_step x \<Longrightarrow> server_run k x = Some y \<Longrightarrow> reachable rowan_start rowan_step y"
proof (induction k arbitrary: x)
  case (Suc k)
  then obtain z where "server_step x = Some z" "server_run k z = Some y"
    by (auto simp: bind_eq_Some_conv)
  moreover from this(1) have "rowan_step x z" by (rule serve)
  ultimately show ?case using Suc.IH [of z] reach_step [OF Suc.prems(1)] by blast
qed simp

text \<open>The initial loop ends at the poll, with nothing started when the card stays idle.\<close>

lemma init_loop:
  assumes "rowan_at (sv, n) 0 0 k" "pc sv = InitClear k" "k + m = kSrqBufferCnt"
  shows "\<exists>sv' n'. server_run (2 * m) (sv, n) = Some (sv', n') \<and> rowan_at (sv', n') 0 0 kSrqBufferCnt \<and> pc sv' = Poll"
  using assms
proof (induction m arbitrary: sv n k)
  case 0
  then show ?case by (auto simp: rowan_at_def)
next
  case (Suc m)
  obtain sv1 n1 where 1: "server_step (sv, n) = Some (sv1, n1)" "rowan_at (sv1, n1) 0 0 k"
    by (rule server_step_at [OF Suc.prems(1)]) (simp add: Suc.prems(2))
  then have pc1: "pc sv1 = InitPost k" using Suc.prems(2) by (auto simp: server_step.simps)
  obtain sv2 n2 where 2: "server_step (sv1, n1) = Some (sv2, n2)" "rowan_at (sv2, n2) 0 0 (Suc k)"
    by (rule server_step_at [OF 1(2)]) (simp add: pc1)
  then have pc2: "pc sv2 = (if Suc k < kSrqBufferCnt then InitClear (Suc k) else Poll)"
    using pc1 by (auto simp: server_step.simps)
  show ?case
  proof (cases "m = 0")
    case True
    then show ?thesis using 1 2 pc2 Suc.prems(3) by (simp add: numeral_2_eq_2)
  next
    case False
    then obtain sv' n' where "server_run (2 * m) (sv2, n2) = Some (sv', n')"
      "rowan_at (sv', n') 0 0 kSrqBufferCnt" "pc sv' = Poll"
      using Suc.IH [OF 2(2)] pc2 Suc.prems(3) by auto
    then show ?thesis using 1(1) 2(1) by simp
  qed
qed

definition demo_server :: rowan_server where
  "demo_server = the (start_server 0x100000 (128 * 2 ^ 20) 7
     \<lparr>srq_buf = replicate 4096 0, wqe_shift = 5, srq_tail = 127\<rparr>)"

definition demo_nic :: nic where
  "demo_nic = \<lparr>mem = (\<lambda>a. 255), posted = [], writing = None\<rparr>"

lemma demo_rowan_start: "rowan_start (demo_server, demo_nic)"
proof -
  have "start_server 0x100000 (128 * 2 ^ 20) 7 \<lparr>srq_buf = replicate 4096 0, wqe_shift = 5, srq_tail = 127\<rparr>
      = Some demo_server"
    by (simp add: demo_server_def start_server_def get_recv_buf_def rowan_consts)
  moreover have "srq_shape \<lparr>srq_buf = replicate 4096 0, wqe_shift = 5, srq_tail = 127\<rparr> (2 * kMpSrqSize)"
    by (simp add: srq_shape_def kMpSrqSize_def)
  ultimately show ?thesis
    unfolding rowan_start_def prod.case demo_nic_def
    by (intro conjI exI [of _ "0x100000"] exI [of _ "128 * 2 ^ 20"] exI [of _ 7]
        exI [of _ "\<lparr>srq_buf = replicate 4096 0, wqe_shift = 5, srq_tail = 127\<rparr>"]) simp_all
qed

text \<open>From there the card starts the first two segments, so that the first one can be recycled.\<close>

lemma demo_started:
  "\<exists>sv n. reachable rowan_start rowan_step (sv, n) \<and> rowan_at (sv, n) 0 2 kSrqBufferCnt \<and> pc sv = Poll
     \<and> mem n (seg_addr sv (unat (next_header sv))) \<noteq> 0"
proof -
  let ?R = "reachable rowan_start rowan_step"
  have "?R (demo_server, demo_nic)" using demo_rowan_start by (rule reach_start)
  moreover have "pc demo_server = InitClear 0"
    by (simp add: demo_server_def start_server_def get_recv_buf_def rowan_consts)
  ultimately obtain sv n where r: "?R (sv, n)" and at: "rowan_at (sv, n) 0 0 kSrqBufferCnt" and pc: "pc sv = Poll"
    using init_loop [OF start_at [OF demo_rowan_start], of kSrqBufferCnt] server_run_reachable by force
  have next_at: "\<exists>n'. nic_step n n' \<and> rowan_at (sv, n') 0 (Suc d) kSrqBufferCnt \<and> mem n' (log_seg sv d) \<noteq> 0"
    if "rowan_at (sv, n) 0 d kSrqBufferCnt" "d < kSrqBufferCnt" for n d
  proof -
    have q: "posted n = seg_wr sv d # map (seg_wr sv) [Suc d..<kSrqBufferCnt]"
      using that by (simp add: rowan_at_def upt_conv_Cons)
    let ?a = "log_seg sv d" and ?m = "(mem n)(log_seg sv d := 1)"
    have other: "\<forall>x. \<not> in_segment ?a x \<longrightarrow> ?m x = mem n x" using in_segment_self by auto
    have "nic_step n \<lparr>mem = ?m, posted = map (seg_wr sv) [Suc d..<kSrqBufferCnt], writing = Some ?a\<rparr>"
      by (rule nic_next [OF q]) (use other in simp_all)
    moreover have "rowan_at (sv, \<lparr>mem = ?m, posted = map (seg_wr sv) [Suc d..<kSrqBufferCnt], writing = Some ?a\<rparr>)
        0 (Suc d) kSrqBufferCnt"
      by (rule nic_next_at(2) [OF that(1) q]) (use other in simp_all)
    ultimately show ?thesis by (intro exI conjI) auto
  qed
  obtain n1 where n1: "nic_step n n1" "rowan_at (sv, n1) 0 1 kSrqBufferCnt"
    using next_at [OF at] by auto
  obtain n2 where n2: "nic_step n1 n2" "rowan_at (sv, n2) 0 2 kSrqBufferCnt" "mem n2 (log_seg sv 1) \<noteq> 0"
    using next_at [OF n1(2)] by (auto simp: kSrqBufferCnt_def numeral_2_eq_2)
  have "?R (sv, n2)" using r n1(1) n2(1) by (blast intro: reach_step receive)
  moreover have "seg_addr sv (unat (next_header sv)) = log_seg sv 1"
    using n2(2) next_header_eq [of sv 0] by (simp add: rowan_at_def log_seg_def)
  ultimately show ?thesis using n2 pc by (intro exI [of _ sv] exI [of _ n2]) auto
qed

theorem rowan_segments_never_overlap_witness:
  "\<exists>sv n. reachable rowan_start rowan_step (sv, n) \<and> length (posted n) = 34
     \<and> disjoint_bufs kStrideBufSize (sge_addr (hd (rsg_list (posted n ! 0)))) (sge_addr (hd (rsg_list (posted n ! 33))))"
proof -
  obtain sv n where r: "reachable rowan_start rowan_step (sv, n)" and at: "rowan_at (sv, n) 0 2 kSrqBufferCnt"
    using demo_started by blast
  then have "length (posted n) = 34" by (simp add: rowan_at_def kSrqBufferCnt_def)
  with rowan_segments_never_overlap [OF r] r show ?thesis by (intro exI [of _ sv] exI [of _ n]) auto
qed

theorem rowan_log_in_order_witness:
  "\<exists>sv n. reachable rowan_start rowan_step (sv, n) \<and> length (posted n) = 34 \<and> mem n (sge_addr (hd (rsg_list (posted n ! 5)))) = 0"
proof -
  obtain sv n where r: "reachable rowan_start rowan_step (sv, n)" and at: "rowan_at (sv, n) 0 2 kSrqBufferCnt"
    using demo_started by blast
  then have "length (posted n) = 34" by (simp add: rowan_at_def kSrqBufferCnt_def)
  moreover from this have "5 < length (posted n)" by simp
  moreover obtain k where "\<forall>i < length (posted n). sge_addr (hd (rsg_list (posted n ! i))) = seg_addr sv ((k + i) mod kSrqBufferCnt)
      \<and> mem n (sge_addr (hd (rsg_list (posted n ! i)))) = 0"
    using rowan_log_in_order [OF r] by (elim exE conjE) (rule that)
  ultimately have "mem n (sge_addr (hd (rsg_list (posted n ! 5)))) = 0" by blast
  with r \<open>length (posted n) = 34\<close> show ?thesis by blast
qed

theorem rowan_recycles_witness:
  "\<exists>sv n sv' n'. reachable rowan_start rowan_step (sv, n) \<and> server_run 4 (sv, n) = Some (sv', n')
     \<and> length (posted n') = length (posted n) + 1"
proof -
  obtain sv n where r: "reachable rowan_start rowan_step (sv, n)" and p: "pc sv = Poll"
    and m: "mem n (seg_addr sv (unat (next_header sv))) \<noteq> 0"
    using demo_started by blast
  from rowan_recycles_iff_next_started [OF r p] m obtain sv' n' where
    "server_run 4 (sv, n) = Some (sv', n')" "length (posted n') = length (posted n) + 1" by auto
  with r show ?thesis by blast
qed

end
