(* ===== verification/CRC32_Algebra.thy ===== *)
theory CRC32_Algebra
  imports CRC32_Tables
begin

text \<open>
  The reference for \<open>CRC32\<close>: CRC-32C one bit at a time, its linearity over exclusive or, and
  what every entry of the tables of \<open>include/utility/CRC32.h\<close> stands for. The effect of 256
  and of 8192 zero bytes is computed by repeated squaring of polynomials.
\<close>

section \<open>The code, one bit at a time\<close>

definition crc_bit :: "u32 \<Rightarrow> u32" where
  "crc_bit c = (if odd c then drop_bit 1 c XOR 0x82f63b78 else drop_bit 1 c)"

text \<open>The effect of \<open>n\<close> zero bytes, of a byte, and of a list of bytes.\<close>

definition zeros :: "nat \<Rightarrow> u32 \<Rightarrow> u32" where
  "zeros n = crc_bit ^^ (8 * n)"

definition crc_step :: "u32 \<Rightarrow> u8 \<Rightarrow> u32" where
  "crc_step c b = zeros 1 (c XOR ucast b)"

definition crc_bytes :: "u32 \<Rightarrow> u8 list \<Rightarrow> u32" where
  "crc_bytes = foldl crc_step"

text \<open>The reference: the code with inversion before and after.\<close>

definition crc32c_ref :: "u32 \<Rightarrow> u8 list \<Rightarrow> u32" where
  "crc32c_ref crc bs = NOT (crc_bytes (NOT crc) bs)"

lemma crc_bytes_simps [simp]:
  "crc_bytes c [] = c" "crc_bytes c (b # bs) = crc_bytes (crc_step c b) bs"
  "crc_bytes c (xs @ ys) = crc_bytes (crc_bytes c xs) ys"
  by (simp_all add: crc_bytes_def)

section \<open>Linearity\<close>

lemma crc_bit_xor: "crc_bit (a XOR b) = crc_bit a XOR crc_bit b"
proof -
  have "odd (a XOR b) \<longleftrightarrow> odd a \<noteq> odd b" by (simp add: even_xor_iff)
  moreover have "drop_bit 1 (a XOR b) = drop_bit 1 a XOR drop_bit 1 b" by (simp add: drop_bit_xor)
  ultimately show ?thesis
    by (auto simp: crc_bit_def ac_simps)
qed

lemma funpow_xor:
  fixes f :: "u32 \<Rightarrow> u32"
  assumes "\<And>a b. f (a XOR b) = f a XOR f b"
  shows "(f ^^ n) (a XOR b) = (f ^^ n) a XOR (f ^^ n) b"
  by (induction n) (simp_all add: assms)

lemma zeros_xor: "zeros n (a XOR b) = zeros n a XOR zeros n b"
  unfolding zeros_def by (rule funpow_xor) (rule crc_bit_xor)

lemma zeros_0 [simp]: "zeros 0 c = c" "zeros n 0 = 0"
proof -
  show "zeros 0 c = c" by (simp add: zeros_def)
  have "zeros n (0 XOR 0) = zeros n 0 XOR zeros n 0" by (rule zeros_xor)
  then show "zeros n 0 = 0" by simp
qed

lemma zeros_add: "zeros (m + n) c = zeros m (zeros n c)"
  by (simp add: zeros_def add_mult_distrib2 funpow_add)

lemma zeros_crc_bit: "zeros n (crc_bit c) = crc_bit (zeros n c)"
  unfolding zeros_def by (metis funpow_swap1)

text \<open>What a prefix contributes is shifted by the length of the rest.\<close>

lemma crc_bytes_split: "crc_bytes c bs = zeros (length bs) c XOR crc_bytes 0 bs"
proof (induction bs arbitrary: c)
  case (Cons b bs)
  have "crc_bytes c (b # bs) = zeros (length bs) (crc_step c b) XOR crc_bytes 0 bs"
    using Cons.IH [of "crc_step c b"] by simp
  also have "zeros (length bs) (crc_step c b)
      = zeros (Suc (length bs)) c XOR zeros (length bs) (crc_step 0 b)"
    using zeros_add [of "length bs" 1 c] by (simp add: crc_step_def zeros_xor)
  finally show ?case
    using Cons.IH [of "crc_step 0 b"] by (simp add: ac_simps)
qed simp

lemma crc_bytes_two_blocks:
  "crc_bytes c (xs @ ys) = zeros (length ys) (crc_bytes c xs) XOR crc_bytes 0 ys"
  using crc_bytes_split [of "crc_bytes c xs" ys] by simp

text \<open>Shifting by whole bytes when the low bits are zero.\<close>

lemma crc_bit_shift: "k < 31 \<Longrightarrow> crc_bit (push_bit (Suc k) 1) = push_bit k 1"
  by (auto simp: crc_bit_def even_push_bit_iff bit_simps intro!: bit_word_eqI)

lemma crc_bit_even: "even c \<Longrightarrow> crc_bit c = drop_bit 1 c"
  by (simp add: crc_bit_def)

lemma funpow_crc_bit_shift:
  "(\<And>i. i < n \<Longrightarrow> \<not> bit c i) \<Longrightarrow> (crc_bit ^^ n) c = drop_bit n c"
proof (induction n)
  case (Suc n)
  then have "(crc_bit ^^ n) c = drop_bit n c" by simp
  moreover have "even (drop_bit n c)" using Suc.prems [of n] by (simp add: bit_iff_odd_drop_bit)
  ultimately show ?case by (simp add: crc_bit_even)
qed simp

lemma ff_mask: "(0xff :: u32) = mask 8" "(0xff :: u64) = mask 8"
  by (simp_all add: mask_eq_exp_minus_1)

lemma zeros_1_split: "zeros 1 c = drop_bit 8 c XOR zeros 1 (c AND 0xff)"
proof -
  have c: "c = (c AND NOT 0xff) XOR (c AND 0xff)" by (rule bit_word_eqI) (auto simp: bit_simps)
  have "zeros 1 (c AND NOT 0xff) = drop_bit 8 (c AND NOT 0xff)"
    unfolding zeros_def mult_1_right ff_mask by (rule funpow_crc_bit_shift) (simp add: bit_simps)
  also have "\<dots> = drop_bit 8 c" unfolding ff_mask
    by (rule bit_word_eqI) (auto simp: bit_simps dest: bit_imp_le_length)
  finally show ?thesis using c zeros_xor [of 1 "c AND NOT 0xff" "c AND 0xff"] by simp
qed

section \<open>A linear operator from one value\<close>

text \<open>
  \<open>zeros n\<close> commutes with \<open>crc_bit\<close>, so its value at the highest power of two determines it:
  \<open>mulk 32 a (zeros n 0x80000000) = zeros n a\<close>. This is multiplication of polynomials.
\<close>

fun mulk :: "nat \<Rightarrow> u32 \<Rightarrow> u32 \<Rightarrow> u32" where
  "mulk 0 a v = 0"
| "mulk (Suc k) a v = (if bit a k then v else 0) XOR mulk k a (crc_bit v)"

lemma mulk_zeros: "k \<le> 32 \<Longrightarrow> mulk k a (zeros n (push_bit (k - 1) 1)) = zeros n (take_bit k a)"
proof (induction k)
  case (Suc k)
  have step: "mulk k a (crc_bit (zeros n (push_bit k 1))) = zeros n (take_bit k a)"
  proof (cases k)
    case (Suc j)
    then have "crc_bit (zeros n (push_bit k 1)) = zeros n (push_bit (k - 1) 1)"
      using \<open>Suc k \<le> 32\<close> zeros_crc_bit [of n "push_bit k 1"] crc_bit_shift [of j] by simp
    then show ?thesis using Suc.IH Suc.prems by simp
  qed simp
  have "take_bit (Suc k) a = (if bit a k then push_bit k 1 else 0) XOR take_bit k a"
    using Suc.prems by (intro bit_word_eqI) (auto simp: bit_simps less_Suc_eq)
  then show ?case using step by (simp add: zeros_xor)
qed simp

lemma zeros_mulk: "zeros n a = mulk 32 a (zeros n 0x80000000)"
proof -
  have "push_bit 31 1 = (0x80000000 :: u32)" by (simp add: push_bit_eq_mult)
  moreover have "take_bit 32 a = a" by (rule bit_word_eqI) (simp add: bit_simps)
  ultimately show ?thesis using mulk_zeros [of 32 a n] by simp
qed

lemma zeros_double: "zeros n 0x80000000 = v \<Longrightarrow> zeros (n + n) 0x80000000 = mulk 32 v v"
  using zeros_mulk [of n "zeros n 0x80000000"] by (simp add: zeros_add)

text \<open>The values at the other powers of two.\<close>

lemma zeros_power: "k \<le> 31 \<Longrightarrow> zeros n (push_bit k 1) = (crc_bit ^^ (31 - k)) (zeros n 0x80000000)"
proof (induction "31 - k" arbitrary: k)
  case 0
  then have "k = 31" by simp
  then show ?case by (simp add: push_bit_eq_mult)
next
  case (Suc d)
  then have k: "d = 31 - Suc k" "Suc k \<le> 31" "31 - k = Suc d" by simp_all
  have "zeros n (push_bit k 1) = crc_bit (zeros n (push_bit (Suc k) 1))"
    using zeros_crc_bit [of n "push_bit (Suc k) 1"] crc_bit_shift [of k] k(2) by simp
  also have "\<dots> = crc_bit ((crc_bit ^^ d) (zeros n 0x80000000))"
    using Suc.hyps(1) [OF k(1)] k by simp
  finally show ?case by (simp add: k(3))
qed

section \<open>Tables of linear operators\<close>

lemma length_xtab [simp]: "length (xtab xs cs) = length xs * 2 ^ length cs"
  by (induction cs arbitrary: xs) simp_all

lemma word_of_nat_upper:
  assumes "i < 2 ^ m" "m < 32"
  shows "(word_of_nat (2 ^ m + i) :: u32) = push_bit m 1 XOR word_of_nat i"
proof (rule bit_word_eqI)
  fix j assume "j < LENGTH(32)"
  then have j: "possible_bit TYPE(u32) j" by simp
  have "take_bit m i = i" using assms(1) by (simp add: take_bit_nat_eq_self)
  then have lt: "bit i k \<Longrightarrow> k < m" for k by (metis bit_take_bit_iff)
  then have "2 ^ m AND i = 0" by (intro bit_eqI) (auto simp: bit_simps)
  then have "2 ^ m + i = 2 ^ m OR i" by (simp add: disjunctive_add_eq_or)
  then have "bit (2 ^ m + i) j \<longleftrightarrow> j = m \<or> bit i j" by (simp add: bit_simps)
  then have L: "bit (word_of_nat (2 ^ m + i) :: u32) j \<longleftrightarrow> j = m \<or> bit i j"
    using j by (simp only: bit_of_nat_iff simp_thms)
  have R: "bit (push_bit m 1 XOR word_of_nat i :: u32) j \<longleftrightarrow> (m \<le> j \<and> j - m = 0) \<noteq> bit i j"
    using j by (simp only: bit_xor_iff bit_push_bit_iff bit_of_nat_iff bit_1_iff) simp
  from lt [of m] lt [of j] show "bit (word_of_nat (2 ^ m + i) :: u32) j = bit (push_bit m 1 XOR word_of_nat i :: u32) j"
    unfolding L R by auto
qed

text \<open>A table generated by the values of an operator holds the operator, plus a constant.\<close>

lemma xtab_nth_aux:
  fixes f :: "u32 \<Rightarrow> u32"
  assumes f: "\<And>a b. f (a XOR b) = f a XOR f b"
    and xs: "length xs = 2 ^ m" "\<And>i. i < 2 ^ m \<Longrightarrow> xs ! i = K XOR f (word_of_nat i)"
    and cs: "\<And>j. j < length cs \<Longrightarrow> cs ! j = f (push_bit (m + j) 1)" and "m + length cs \<le> 32"
    and "n < 2 ^ (m + length cs)"
  shows "xtab xs cs ! n = K XOR f (word_of_nat n)"
  using assms(2-)
proof (induction cs arbitrary: xs m)
  case (Cons c cs)
  let ?ys = "xs @ map ((XOR) c) xs"
  have c: "c = f (push_bit m 1)" using Cons.prems(3) [of 0] by simp
  have ys: "?ys ! i = K XOR f (word_of_nat i)" if "i < 2 ^ Suc m" for i
  proof (cases "i < 2 ^ m")
    case False
    obtain k where k: "i = 2 ^ m + k" using False le_Suc_ex [of "2 ^ m" i] by (auto simp: not_less)
    then have k: "i = 2 ^ m + k" "k < 2 ^ m" using that by simp_all
    have m: "m < 32" using Cons.prems(4) by simp
    have "?ys ! i = c XOR (K XOR f (word_of_nat k))"
      using Cons.prems(1,2) k by (simp add: nth_append)
    also have "\<dots> = K XOR f (push_bit m 1 XOR word_of_nat k)"
      by (simp add: c f ac_simps)
    also have "f (push_bit m 1 XOR word_of_nat k) = f (word_of_nat i)"
      unfolding k(1) word_of_nat_upper [OF k(2) m] ..
    finally show ?thesis .
  qed (use Cons.prems in \<open>simp add: nth_append\<close>)
  have "cs ! j = f (push_bit (Suc m + j) 1)" if "j < length cs" for j
    using Cons.prems(3) [of "Suc j"] that by simp
  with Cons.IH [of ?ys "Suc m"] ys Cons.prems show ?case by simp
qed simp

lemma xtab_nth:
  fixes f :: "u32 \<Rightarrow> u32"
  assumes "\<And>a b. f (a XOR b) = f a XOR f b" and "cs = map (\<lambda>j. f (push_bit j 1)) [0..<8]" and "n < 256"
    and f0: "f 0 = 0"
  shows "xtab [K] cs ! n = K XOR f (word_of_nat n)"
  using xtab_nth_aux [of f "[K]" 0 K cs n] assms by simp

section \<open>Computing with the operators\<close>

text \<open>The same steps on natural numbers, which the simplifier evaluates.\<close>

definition stepn :: "nat \<Rightarrow> nat" where
  "stepn c = (if odd c then (c div 2) XOR 0x82f63b78 else c div 2)"

fun itersn :: "nat list \<Rightarrow> nat \<Rightarrow> nat list" where
  "itersn [] v = []"
| "itersn (k # ks) v = v # itersn ks (stepn v)"

fun muln :: "nat list \<Rightarrow> nat \<Rightarrow> nat \<Rightarrow> nat" where
  "muln [] a v = 0"
| "muln (k # ks) a v = (if bit a k then v else 0) XOR muln ks a (stepn v)"

definition is_word :: "u32 \<Rightarrow> nat \<Rightarrow> bool" where
  "is_word c n \<longleftrightarrow> c = word_of_nat n \<and> n < 2 ^ 32"

lemma nat_xor_less: "(a :: nat) < 2 ^ k \<Longrightarrow> b < 2 ^ k \<Longrightarrow> a XOR b < 2 ^ k"
  by (metis take_bit_nat_eq_self take_bit_nat_less_exp take_bit_xor)

lemma is_word_xor: "is_word c m \<Longrightarrow> is_word d n \<Longrightarrow> is_word (c XOR d) (m XOR n)"
  using nat_xor_less [of m 32 n]
  by (auto simp: is_word_def bit_of_nat_iff bit_simps intro!: bit_word_eqI)

lemma is_word_0: "is_word 0 0"
  by (simp add: is_word_def)

lemma is_word_step:
  assumes "is_word c n"
  shows "is_word (crc_bit c) (stepn n)"
proof -
  have c: "c = word_of_nat n" and n: "n < 2 ^ 32" using assms by (auto simp: is_word_def)
  have "unat c = n" using n by (simp add: c unsigned_of_nat take_bit_nat_eq_self)
  then have half: "unat (drop_bit 1 c) = n div 2" unfolding unat_drop_bit_eq by (simp add: drop_bit_eq_div)
  then have d: "is_word (drop_bit 1 c) (n div 2)"
    using n unsigned_less [of "drop_bit 1 c"] by (simp add: is_word_def flip: half)
  have "odd c \<longleftrightarrow> odd n" unfolding c by (metis even_of_nat_iff) 
  with d is_word_xor [OF d, of "0x82f63b78" "0x82f63b78"] show ?thesis
    by (simp add: crc_bit_def stepn_def is_word_def)
qed

lemma mulk_list: "mulk k a v = foldr (\<lambda>j g v. (if bit a j then v else 0) XOR g (crc_bit v)) (rev [0..<k]) (\<lambda>v. 0) v"
  by (induction k arbitrary: v) simp_all

lemma is_word_bit: "is_word a n \<Longrightarrow> j < 32 \<Longrightarrow> bit a j \<longleftrightarrow> bit n j"
  by (simp add: is_word_def bit_of_nat_iff)

lemma is_word_mulk:
  assumes "is_word a n" "is_word v m"
  shows "is_word (mulk 32 a v) (muln (rev [0..<32]) n m)"
proof -
  have "is_word (mulk k a v) (muln (rev [0..<k]) n m)" if "k \<le> 32" "is_word v m" for k v m
    using that
  proof (induction k arbitrary: v m)
    case (Suc k)
    have "is_word (if bit a k then v else 0) (if bit n k then m else 0)"
      using Suc.prems is_word_bit [OF assms(1), of k] is_word_0 by simp
    with is_word_xor [OF this Suc.IH [of "crc_bit v" "stepn m"]] Suc.prems is_word_step show ?case by simp
  qed (simp add: is_word_0)
  then show ?thesis using assms(2) by simp
qed

lemma is_word_iters:
  assumes "is_word v m" "j < length ks"
  shows "is_word ((crc_bit ^^ j) v) (itersn ks m ! j)"
  using assms
proof (induction ks arbitrary: v m j)
  case (Cons k ks)
  then show ?case
    using Cons.IH [OF is_word_step [OF Cons.prems(1)]] by (cases j) (simp_all add: funpow_swap1)
qed simp

lemma length_itersn [simp]: "length (itersn ks v) = length ks"
  by (induction ks arbitrary: v) simp_all

definition crc_top :: "nat \<Rightarrow> u32" where "crc_top n = zeros n 0x80000000"

lemma top_double: "is_word (crc_top n) v \<Longrightarrow> is_word (crc_top (n + n)) (muln (rev [0..<32]) v v)"
  using is_word_mulk zeros_double [OF refl, of n] by (simp add: crc_top_def)

lemma top_Suc: "is_word (crc_top n) v \<Longrightarrow> is_word (crc_top (Suc n)) (itersn [0..<9] v ! 8)"
proof -
  assume "is_word (crc_top n) v"
  from is_word_iters [OF this, of 8 "[0..<9]"]
  have "is_word ((crc_bit ^^ 8) (crc_top n)) (itersn [0..<9] v ! 8)" by simp
  moreover have "(crc_bit ^^ 8) (crc_top n) = crc_top (Suc n)"
    using zeros_add [of 1 n] by (simp add: crc_top_def zeros_def)
  ultimately show ?thesis by simp
qed

lemma top_power:
  assumes "is_word (crc_top n) v" "j < 32"
  shows "is_word (zeros n (push_bit j 1)) (rev (itersn [0..<32] v) ! j)"
proof -
  have "zeros n (push_bit j 1) = (crc_bit ^^ (31 - j)) (crc_top n)"
    using zeros_power [of j n] assms(2) by (simp add: crc_top_def)
  then show ?thesis
    using is_word_iters [OF assms(1), of "31 - j" "[0..<32]"] assms(2) by (simp add: rev_nth)
qed

lemma table_op:
  assumes "t = xtab [K] cs" and v: "is_word (crc_top N) v" and L: "rev (itersn [0..<32] v) = L"
    and cs: "cs = map (\<lambda>j. word_of_nat (L ! (8 * k + j))) [0..<8]" and "k < 4" "n < 256"
  shows "t ! n = K XOR zeros N (push_bit (8 * k) (word_of_nat n))"
proof -
  let ?f = "\<lambda>c. zeros N (push_bit (8 * k) c)"
  have "word_of_nat (L ! (8 * k + j)) = ?f (push_bit j 1)" if "j < 8" for j
  proof -
    have "8 * k + j < 32" using that \<open>k < 4\<close> by simp
    from top_power [OF v this] show ?thesis unfolding L is_word_def push_bit_push_bit by simp
  qed
  then have "cs = map (\<lambda>j. ?f (push_bit j 1)) [0..<8]" unfolding cs by simp
  from xtab_nth [OF _ this \<open>n < 256\<close>] show ?thesis
    using assms(1) by (simp add: zeros_xor)
qed

text \<open>The values at the highest power of two.\<close>

lemma index_lists:
  "[0..<9] = [0, 1, 2, 3, 4, 5, 6, 7, 8]"
  "[0..<32] = [0, 1, 2, 3, 4, 5, 6, 7, 8, 9, 10, 11, 12, 13, 14, 15, 16, 17, 18, 19, 20, 21, 22, 23, 24, 25, 26,
     27, 28, 29, 30, 31]"
  by (simp_all add: upt_rec)

lemma bit_one: "bit (Suc 0) 0"
  by (simp add: bit_0)

lemmas table_eval = index_lists stepn_def bit_one

lemma crc_top_0: "is_word (crc_top 0) 0x80000000"
  by (simp add: is_word_def crc_top_def)

lemma crc_top_1: "is_word (crc_top 1) 0x00800000"
  using top_Suc [OF crc_top_0] by (simp add: table_eval)

lemma crc_top_2: "is_word (crc_top 2) 0x00008000"
  using top_Suc [OF crc_top_1] by (simp add: table_eval flip: numeral_2_eq_2)

lemma crc_top_3: "is_word (crc_top 3) 0x00000080"
  using top_Suc [OF crc_top_2] by (simp add: table_eval)

lemma crc_top_4: "is_word (crc_top 4) 0x82f63b78"
  using top_Suc [OF crc_top_3] by (simp add: table_eval)

lemma crc_top_5: "is_word (crc_top 5) 0xfbc3faf9"
  using top_Suc [OF crc_top_4] by (simp add: table_eval)

lemma crc_top_6: "is_word (crc_top 6) 0x8b277743"
  using top_Suc [OF crc_top_5] by (simp add: table_eval)

lemma crc_top_7: "is_word (crc_top 7) 0x52a0c93f"
  using top_Suc [OF crc_top_6] by (simp add: table_eval)

lemma crc_top_8: "is_word (crc_top 8) 0x6ea2d55c"
  using top_Suc [OF crc_top_7] by (simp add: table_eval)

lemma crc_top_16: "is_word (crc_top 16) 0x18b8ea18"
  using top_double [OF crc_top_8] by (simp add: table_eval)

lemma crc_top_32: "is_word (crc_top 32) 0x510ac59a"
  using top_double [OF crc_top_16] by (simp add: table_eval)

lemma crc_top_64: "is_word (crc_top 64) 0xb82be955"
  using top_double [OF crc_top_32] by (simp add: table_eval)

lemma crc_top_128: "is_word (crc_top 128) 0xb8fdb1e7"
  using top_double [OF crc_top_64] by (simp add: table_eval)

lemma crc_top_256: "is_word (crc_top 256) 0x88e56f72"
  using top_double [OF crc_top_128] by (simp add: table_eval)

lemma crc_top_512: "is_word (crc_top 512) 0x74c360a4"
  using top_double [OF crc_top_256] by (simp add: table_eval)

lemma crc_top_1024: "is_word (crc_top 1024) 0xe4172b16"
  using top_double [OF crc_top_512] by (simp add: table_eval)

lemma crc_top_2048: "is_word (crc_top 2048) 0x0d65762a"
  using top_double [OF crc_top_1024] by (simp add: table_eval)

lemma crc_top_4096: "is_word (crc_top 4096) 0x35d73a62"
  using top_double [OF crc_top_2048] by (simp add: table_eval)

lemma crc_top_8192: "is_word (crc_top 8192) 0x28461564"
  using top_double [OF crc_top_4096] by (simp add: table_eval)

text \<open>Every entry of the tables.\<close>

lemma crc32c_table0_nth: "n < 256 \<Longrightarrow> crc32c_table0 ! n = 0x527d5351 XOR zeros 1 (word_of_nat n)"
  using table_op [OF crc32c_table0_gen crc_top_1, of _ 0 n] by (simp add: table_eval upt_rec)

lemma crc32c_table1_nth: "n < 256 \<Longrightarrow> crc32c_table1 ! n = 0xa31c2483 XOR zeros 2 (word_of_nat n)"
  using table_op [OF crc32c_table1_gen crc_top_2, of _ 0 n] by (simp add: table_eval upt_rec)

lemma crc32c_table2_nth: "n < 256 \<Longrightarrow> crc32c_table2 ! n = 0x9105d4a8 XOR zeros 3 (word_of_nat n)"
  using table_op [OF crc32c_table2_gen crc_top_3, of _ 0 n] by (simp add: table_eval upt_rec)

lemma crc32c_table3_nth: "n < 256 \<Longrightarrow> crc32c_table3 ! n = 0x2803e8bd XOR zeros 4 (word_of_nat n)"
  using table_op [OF crc32c_table3_gen crc_top_4, of _ 0 n] by (simp add: table_eval upt_rec)

lemma crc32c_table4_nth: "n < 256 \<Longrightarrow> crc32c_table4 ! n = 0x0d153df2 XOR zeros 5 (word_of_nat n)"
  using table_op [OF crc32c_table4_gen crc_top_5, of _ 0 n] by (simp add: table_eval upt_rec)

lemma crc32c_table5_nth: "n < 256 \<Longrightarrow> crc32c_table5 ! n = 0x12580abf XOR zeros 6 (word_of_nat n)"
  using table_op [OF crc32c_table5_gen crc_top_6, of _ 0 n] by (simp add: table_eval upt_rec)

lemma crc32c_table6_nth: "n < 256 \<Longrightarrow> crc32c_table6 ! n = 0xec1416e7 XOR zeros 7 (word_of_nat n)"
  using table_op [OF crc32c_table6_gen crc_top_7, of _ 0 n] by (simp add: table_eval upt_rec)

lemma crc32c_table7_nth: "n < 256 \<Longrightarrow> crc32c_table7 ! n = 0x3716d8e7 XOR zeros 8 (word_of_nat n)"
  using table_op [OF crc32c_table7_gen crc_top_8, of _ 0 n] by (simp add: table_eval upt_rec)

lemma crc32c_long0_nth: "n < 256 \<Longrightarrow> crc32c_long0 ! n = zeros 8192 (push_bit 0 (word_of_nat n))"
  using table_op [OF crc32c_long0_gen crc_top_8192, of _ 0 n] by (simp add: table_eval upt_rec)

lemma crc32c_long1_nth: "n < 256 \<Longrightarrow> crc32c_long1 ! n = zeros 8192 (push_bit 8 (word_of_nat n))"
  using table_op [OF crc32c_long1_gen crc_top_8192, of _ 1 n] by (simp add: table_eval upt_rec)

lemma crc32c_long2_nth: "n < 256 \<Longrightarrow> crc32c_long2 ! n = zeros 8192 (push_bit 16 (word_of_nat n))"
  using table_op [OF crc32c_long2_gen crc_top_8192, of _ 2 n] by (simp add: table_eval upt_rec)

lemma crc32c_long3_nth: "n < 256 \<Longrightarrow> crc32c_long3 ! n = zeros 8192 (push_bit 24 (word_of_nat n))"
  using table_op [OF crc32c_long3_gen crc_top_8192, of _ 3 n] by (simp add: table_eval upt_rec)

lemma crc32c_short0_nth: "n < 256 \<Longrightarrow> crc32c_short0 ! n = zeros 256 (push_bit 0 (word_of_nat n))"
  using table_op [OF crc32c_short0_gen crc_top_256, of _ 0 n] by (simp add: table_eval upt_rec)

lemma crc32c_short1_nth: "n < 256 \<Longrightarrow> crc32c_short1 ! n = zeros 256 (push_bit 8 (word_of_nat n))"
  using table_op [OF crc32c_short1_gen crc_top_256, of _ 1 n] by (simp add: table_eval upt_rec)

lemma crc32c_short2_nth: "n < 256 \<Longrightarrow> crc32c_short2 ! n = zeros 256 (push_bit 16 (word_of_nat n))"
  using table_op [OF crc32c_short2_gen crc_top_256, of _ 2 n] by (simp add: table_eval upt_rec)

lemma crc32c_short3_nth: "n < 256 \<Longrightarrow> crc32c_short3 ! n = zeros 256 (push_bit 24 (word_of_nat n))"
  using table_op [OF crc32c_short3_gen crc_top_256, of _ 3 n] by (simp add: table_eval upt_rec)

end
