(* ===== verification/CRC32.thy ===== *)
theory CRC32
  imports CRC32_Algebra
begin

text \<open>
  \<open>src/utility/CRC32.cpp\<close>: CRC-32C by table lookup (\<open>crc32c_sw\<close>) and by the processor's
  instruction with three interleaved streams (\<open>crc32c_hw\<close>), both proved equal to the
  bit-by-bit definition of the code. A buffer is its address and the list of its bytes; the
  instructions \<open>crc32b\<close> and \<open>crc32q\<close> are parameters.
\<close>

section \<open>The software version\<close>

text \<open>Bytes up to an eight-byte boundary: what is computed with \<open>step\<close> and the bytes that are left.\<close>

fun align_loop :: "('c \<Rightarrow> u8 \<Rightarrow> 'c) \<Rightarrow> u64 \<Rightarrow> 'c \<Rightarrow> u8 list \<Rightarrow> 'c \<times> u8 list" where
  "align_loop step a c [] = (c, [])"
| "align_loop step a c (b # bs) = (if a AND 7 \<noteq> 0 then align_loop step (a + 1) (step c b) bs else (c, b # bs))"

text \<open>\<open>n\<close> words of eight bytes, little-endian.\<close>

fun word_loop :: "('c \<Rightarrow> u64 \<Rightarrow> 'c) \<Rightarrow> nat \<Rightarrow> 'c \<Rightarrow> u8 list \<Rightarrow> 'c \<times> u8 list" where
  "word_loop step 0 c bs = (c, bs)"
| "word_loop step (Suc n) c bs = word_loop step n (step c (le_word (take 8 bs))) (drop 8 bs)"

definition sw_byte :: "u32 \<Rightarrow> u8 \<Rightarrow> u32" where
  "sw_byte crc b = drop_bit 8 crc XOR crc32c_table ! 0 ! unat ((crc XOR ucast b) AND 0xff)"

definition sw_word :: "u32 \<Rightarrow> u64 \<Rightarrow> u32" where
  "sw_word crc w =
     (let word = ucast crc XOR w
      in crc32c_table ! 7 ! unat (word AND 0xff) XOR crc32c_table ! 6 ! unat (drop_bit 8 word AND 0xff)
         XOR crc32c_table ! 5 ! unat (drop_bit 16 word AND 0xff) XOR crc32c_table ! 4 ! unat (drop_bit 24 word AND 0xff)
         XOR crc32c_table ! 3 ! unat (drop_bit 32 word AND 0xff) XOR crc32c_table ! 2 ! unat (drop_bit 40 word AND 0xff)
         XOR crc32c_table ! 1 ! unat (drop_bit 48 word AND 0xff) XOR crc32c_table ! 0 ! unat (drop_bit 56 word))"

definition crc32c_sw :: "u32 \<Rightarrow> u64 \<Rightarrow> u8 list \<Rightarrow> u32" where
  "crc32c_sw crc buf bs =
     (if buf = 0 then 0
      else let (crc, bs) = align_loop sw_byte buf crc bs;
               (crc, bs) = word_loop sw_word (length bs div 8) crc bs
           in foldl sw_byte crc bs)"

text \<open>Any pair of loops whose steps are the reference steps on a decoded state computes the reference.\<close>

lemma align_loop_ref:
  assumes "\<And>c b. dec (step c b) = crc_step (dec c) b" and "align_loop step a c bs = (c', rest)"
  shows "crc_bytes (dec c) bs = crc_bytes (dec c') rest"
  using assms(2)
proof (induction bs arbitrary: a c)
  case (Cons b bs)
  then show ?case using Cons.IH [of "a + 1" "step c b"] assms(1) by (auto split: if_splits)
qed simp

lemma word_loop_ref:
  assumes "\<And>c w. dec (step c w) = crc_bytes (dec c) (le_bytes 8 w)" and "8 * n \<le> length bs"
    and "word_loop step n c bs = (c', rest)"
  shows "crc_bytes (dec c) bs = crc_bytes (dec c') rest \<and> rest = drop (8 * n) bs"
  using assms(2,3)
proof (induction n arbitrary: c bs)
  case (Suc n)
  let ?w = "le_word (take 8 bs) :: u64"
  have "le_bytes 8 ?w = take 8 bs" using Suc.prems(1) le_bytes_le_word [of "take 8 bs", where 'a = 64] by simp
  then have "dec (step c ?w) = crc_bytes (dec c) (take 8 bs)" using assms(1) by simp
  then have "crc_bytes (dec c) bs = crc_bytes (dec (step c ?w)) (drop 8 bs)"
    using crc_bytes_simps(3) [of "dec c" "take 8 bs" "drop 8 bs"] by simp
  with Suc.IH [of "drop 8 bs" "step c ?w"] Suc.prems show ?case by (simp add: drop_drop add.commute)
qed simp

lemma foldl_step_ref:
  assumes "\<And>c b. dec (step c b) = crc_step (dec c) b"
  shows "dec (foldl step c bs) = crc_bytes (dec c) bs"
  by (induction bs arbitrary: c) (simp_all add: assms)

subsection \<open>One byte and one word\<close>

lemma unat_byte_lt: "unat (x AND 0xff :: u32) < 256" "unat (y AND 0xff :: u64) < 256"
  using take_bit_nat_less_exp [of 8 "unat x"] take_bit_nat_less_exp [of 8 "unat y"]
  by (simp_all add: ff_mask unsigned_take_bit_eq flip: take_bit_eq_mask)

lemma sw_byte_ref: "NOT (sw_byte crc b) = crc_step (NOT crc) b"
proof -
  let ?n = "(crc XOR ucast b) AND 0xff :: u32"
  have ff: "is_word (zeros 1 0xff) 0xad7d5351"
    using is_word_iters [of "0xff" "0xff" 8 "[0..<9]"] by (simp add: is_word_def zeros_def table_eval)
  then have z: "zeros 1 0xff = 0xad7d5351" by (simp add: is_word_def)
  have hi: "(0xff000000 :: u32) = push_bit 24 (mask 8)" by (simp add: mask_eq_exp_minus_1 push_bit_eq_mult)
  have "crc_step (NOT crc) b = zeros 1 (NOT crc XOR ucast b)" by (simp add: crc_step_def)
  also have "\<dots> = drop_bit 8 (NOT crc XOR ucast b) XOR zeros 1 ((NOT crc XOR ucast b) AND 0xff)"
    by (rule zeros_1_split)
  also have "drop_bit 8 (NOT crc XOR ucast b) = 0xff000000 XOR NOT (drop_bit 8 crc)"
    unfolding hi by (rule bit_word_eqI) (auto simp: bit_simps dest: bit_imp_le_length)
  also have "(NOT crc XOR ucast b) AND 0xff = ?n XOR 0xff"
    unfolding ff_mask by (rule bit_word_eqI) (auto simp: bit_simps)
  finally have "crc_step (NOT crc) b = 0xff000000 XOR NOT (drop_bit 8 crc) XOR (zeros 1 ?n XOR 0xad7d5351)"
    unfolding zeros_xor z by (simp only: xor.assoc)
  moreover have "sw_byte crc b = drop_bit 8 crc XOR (0x527d5351 XOR zeros 1 ?n)"
    using crc32c_table0_nth [OF unat_byte_lt(1)] by (simp add: sw_byte_def crc32c_table_def)
  moreover have "(0xad7d5351 :: u32) = 0xff000000 XOR 0x527d5351" by simp
  moreover have "NOT (x XOR y) = NOT x XOR y" for x y :: u32 by (rule bit_word_eqI) (auto simp: bit_simps)
  moreover have "h XOR d XOR (z XOR (h XOR k)) = d XOR (k XOR z)" for h d z k :: u32
    by (rule bit_word_eqI) (auto simp: bit_simps)
  ultimately show ?thesis by (simp only:)
qed

text \<open>The bytes of a word and what they contribute.\<close>

definition byte_of :: "nat \<Rightarrow> u64 \<Rightarrow> u32" where
  "byte_of k w = ucast (drop_bit (8 * k) w AND 0xff)"

definition word_sum :: "u64 \<Rightarrow> u32" where
  "word_sum w = zeros 8 (byte_of 0 w) XOR zeros 7 (byte_of 1 w) XOR zeros 6 (byte_of 2 w) XOR zeros 5 (byte_of 3 w)
     XOR zeros 4 (byte_of 4 w) XOR zeros 3 (byte_of 5 w) XOR zeros 2 (byte_of 6 w) XOR zeros 1 (byte_of 7 w)"

lemma byte_of_xor: "byte_of k (a XOR b) = byte_of k a XOR byte_of k b"
  unfolding byte_of_def by (rule bit_word_eqI) (auto simp: bit_simps)

lemma word_sum_xor: "word_sum (a XOR b) = word_sum a XOR word_sum b"
  by (simp only: word_sum_def byte_of_xor zeros_xor xor.assoc xor.commute xor.left_commute)

lemma crc_bytes_zero_Cons: "crc_bytes 0 (b # bs) = zeros (Suc (length bs)) (ucast b) XOR crc_bytes 0 bs"
  using crc_bytes_split [of "crc_step 0 b" bs] zeros_add [of "length bs" 1 "ucast b"] by (simp add: crc_step_def)

lemma word_sum_bytes: "crc_bytes 0 (le_bytes 8 w) = word_sum w"
proof -
  have "ucast (ucast (drop_bit (8 * k) w) :: u8) = byte_of k w" for k
    unfolding byte_of_def ff_mask by (rule bit_word_eqI) (auto simp: bit_simps)
  note b = this [of 0] this [of 1] this [of 2] this [of 3] this [of 4] this [of 5] this [of 6] this [of 7]
  have l: "le_bytes 8 w = map (\<lambda>k. ucast (drop_bit (8 * k) w)) [0, 1, 2, 3, 4, 5, 6, 7]"
    by (simp add: le_bytes_def upt_rec)
  have n: "zeros 2 = zeros (Suc (Suc 0))"
    "zeros 3 = zeros (Suc (Suc (Suc 0)))"
    "zeros 4 = zeros (Suc (Suc (Suc (Suc 0))))"
    "zeros 5 = zeros (Suc (Suc (Suc (Suc (Suc 0)))))"
    "zeros 6 = zeros (Suc (Suc (Suc (Suc (Suc (Suc 0))))))"
    "zeros 7 = zeros (Suc (Suc (Suc (Suc (Suc (Suc (Suc 0)))))))"
    "zeros 8 = zeros (Suc (Suc (Suc (Suc (Suc (Suc (Suc (Suc 0))))))))"
    by (simp_all add: eval_nat_numeral)
  show ?thesis
    unfolding l list.map crc_bytes_zero_Cons b word_sum_def by (simp add: n)
qed

lemma zeros_push:
  assumes "\<And>i. bit x i \<Longrightarrow> i < 8" "k < 4"
  shows "zeros (k + m) (push_bit (8 * k) x) = zeros m x"
proof -
  have "zeros k (push_bit (8 * k) x) = drop_bit (8 * k) (push_bit (8 * k) x)"
    unfolding zeros_def by (rule funpow_crc_bit_shift) (simp add: bit_simps)
  also have "\<dots> = x"
  proof (rule bit_word_eqI)
    fix n show "bit (drop_bit (8 * k) (push_bit (8 * k) x)) n = bit x n"
      using assms(1) [of n] assms(2) by (cases "bit x n") (simp_all add: bit_simps)
  qed
  finally show ?thesis using zeros_add [of m k "push_bit (8 * k) x"] by (simp add: add.commute)
qed

lemma bit_byte_of: "bit (byte_of k w) i \<longleftrightarrow> i < 8 \<and> bit w (8 * k + i)"
  unfolding byte_of_def ff_mask by (auto simp: bit_simps)

lemma zeros_8_word: "zeros 8 c = word_sum (ucast c)"
proof -
  have c: "c = push_bit (8 * 0) (byte_of 0 (ucast c)) XOR push_bit (8 * 1) (byte_of 1 (ucast c))
      XOR push_bit (8 * 2) (byte_of 2 (ucast c)) XOR push_bit (8 * 3) (byte_of 3 (ucast c))" (is "c = ?c")
  proof (rule bit_word_eqI)
    fix i assume i: "i < LENGTH(32)"
    then consider "i < 8" | "8 \<le> i" "i < 16" | "16 \<le> i" "i < 24" | "24 \<le> i" by linarith
    then show "bit c i \<longleftrightarrow> bit ?c i"
      using i by cases (simp_all add: bit_simps bit_byte_of, arith+)
  qed
  have z: "zeros 8 (push_bit (8 * k) (byte_of k (ucast c))) = zeros (8 - k) (byte_of k (ucast c))" if "k < 4" for k
    using zeros_push [of "byte_of k (ucast c)" k "8 - k"] that bit_byte_of by simp
  have h: "byte_of k (ucast c) = 0" if "4 \<le> k" for k
    using that by (intro bit_word_eqI) (auto simp: bit_byte_of bit_simps dest: bit_imp_le_length)
  have "zeros 8 (push_bit (8 * 0) (byte_of 0 (ucast c))) = zeros 8 (byte_of 0 (ucast c))"
    "zeros 8 (push_bit (8 * 1) (byte_of 1 (ucast c))) = zeros 7 (byte_of 1 (ucast c))"
    "zeros 8 (push_bit (8 * 2) (byte_of 2 (ucast c))) = zeros 6 (byte_of 2 (ucast c))"
    "zeros 8 (push_bit (8 * 3) (byte_of 3 (ucast c))) = zeros 5 (byte_of 3 (ucast c))"
    using z [of 0] z [of 1] z [of 2] z [of 3] by simp_all
  moreover have "byte_of 4 (ucast c) = 0" "byte_of 5 (ucast c) = 0" "byte_of 6 (ucast c) = 0" "byte_of 7 (ucast c) = 0"
    using h by simp_all
  ultimately show ?thesis
    by (subst c) (simp only: word_sum_def zeros_xor zeros_0 xor.right_neutral)
qed

lemma table_byte:
  assumes "\<And>n. n < 256 \<Longrightarrow> t ! n = K XOR zeros m (word_of_nat n)"
  shows "t ! unat (drop_bit (8 * j) w AND 0xff :: u64) = K XOR zeros m (byte_of j w)"
  using assms [OF unat_byte_lt(2), of "drop_bit (8 * j) w"] by (simp add: byte_of_def)

lemma sw_word_sum: "sw_word crc w = 0x8c28b28a XOR word_sum (ucast crc XOR w)"
proof -
  define v where "v = ucast crc XOR w"
  have "drop_bit 56 v = drop_bit (8 * 7) v AND 0xff"
    unfolding ff_mask by (rule bit_word_eqI) (auto simp: bit_simps dest: bit_imp_le_length)
  then have "sw_word crc w =
      crc32c_table7 ! unat (drop_bit (8 * 0) v AND 0xff) XOR crc32c_table6 ! unat (drop_bit (8 * 1) v AND 0xff)
      XOR crc32c_table5 ! unat (drop_bit (8 * 2) v AND 0xff) XOR crc32c_table4 ! unat (drop_bit (8 * 3) v AND 0xff)
      XOR crc32c_table3 ! unat (drop_bit (8 * 4) v AND 0xff) XOR crc32c_table2 ! unat (drop_bit (8 * 5) v AND 0xff)
      XOR crc32c_table1 ! unat (drop_bit (8 * 6) v AND 0xff) XOR crc32c_table0 ! unat (drop_bit (8 * 7) v AND 0xff)"
    by (simp add: sw_word_def crc32c_table_def Let_def flip: v_def)
  also have "\<dots> = 0x3716d8e7 XOR 0xec1416e7 XOR 0x12580abf XOR 0x0d153df2 XOR 0x2803e8bd XOR 0x9105d4a8
      XOR 0xa31c2483 XOR 0x527d5351 XOR word_sum v"
    by (simp only: table_byte [of crc32c_table7, OF crc32c_table7_nth] table_byte [of crc32c_table6, OF crc32c_table6_nth]
        table_byte [of crc32c_table5, OF crc32c_table5_nth] table_byte [of crc32c_table4, OF crc32c_table4_nth]
        table_byte [of crc32c_table3, OF crc32c_table3_nth] table_byte [of crc32c_table2, OF crc32c_table2_nth]
        table_byte [of crc32c_table1, OF crc32c_table1_nth] table_byte [of crc32c_table0, OF crc32c_table0_nth]
        word_sum_def xor.assoc xor.commute xor.left_commute)
  also have "\<dots> = (0x3716d8e7 XOR 0xec1416e7 XOR 0x12580abf XOR 0x0d153df2 XOR 0x2803e8bd XOR 0x9105d4a8
      XOR 0xa31c2483 XOR 0x527d5351) XOR word_sum v"
    by (simp only: xor.assoc)
  finally show ?thesis by (simp add: v_def)
qed

lemma sw_word_ref: "NOT (sw_word crc w) = crc_bytes (NOT crc) (le_bytes 8 w)"
proof -
  have n: "NOT c = c XOR 0xffffffff" for c :: u32
  proof -
    have m: "(0xffffffff :: u32) = - 1" by simp
    show ?thesis unfolding m by (rule bit_word_eqI) (simp add: bit_simps)
  qed
  have "is_word (zeros 8 0xffffffff) 0x73d74d75"
    using is_word_mulk [of "0xffffffff" "0xffffffff", OF _ crc_top_8] zeros_mulk [of 8 "0xffffffff"]
    by (simp add: is_word_def crc_top_def table_eval)
  then have ones: "zeros 8 0xffffffff = 0x73d74d75" by (simp add: is_word_def)
  have "crc_bytes (NOT crc) (le_bytes 8 w) = zeros 8 (NOT crc) XOR word_sum w"
    using crc_bytes_split [of "NOT crc" "le_bytes 8 w"] by (simp add: word_sum_bytes)
  also have "\<dots> = 0x73d74d75 XOR word_sum (ucast crc XOR w)"
    unfolding n zeros_xor ones word_sum_xor zeros_8_word [of crc] by (simp only: ac_simps)
  also have "\<dots> = NOT (0x8c28b28a XOR word_sum (ucast crc XOR w))"
  proof -
    have "(0x8c28b28a XOR x) XOR 0xffffffff = (0x8c28b28a XOR 0xffffffff) XOR x" for x :: u32
      by (simp only: ac_simps)
    then show ?thesis unfolding n by simp
  qed
  finally show ?thesis by (simp add: sw_word_sum)
qed

lemma crc32c_sw_ref:
  assumes "buf \<noteq> 0"
  shows "crc32c_sw crc buf bs = crc32c_ref crc bs"
proof -
  obtain c1 r1 where a: "align_loop sw_byte buf crc bs = (c1, r1)" by fastforce
  obtain c2 r2 where w: "word_loop sw_word (length r1 div 8) c1 r1 = (c2, r2)" by fastforce
  have "NOT (foldl sw_byte c2 r2) = crc_bytes (NOT c2) r2" by (rule foldl_step_ref) (rule sw_byte_ref)
  also have "\<dots> = crc_bytes (NOT c1) r1"
    using word_loop_ref [of "\<lambda>c. NOT c" sw_word, OF sw_word_ref _ w] by simp
  also have "\<dots> = crc_bytes (NOT crc) bs"
    using align_loop_ref [of "\<lambda>c. NOT c" sw_byte, OF sw_byte_ref a] by simp
  finally have "NOT (foldl sw_byte c2 r2) = crc_bytes (NOT crc) bs" .
  then have "foldl sw_byte c2 r2 = crc32c_ref crc bs" unfolding crc32c_ref_def by (metis bit.double_compl)
  then show ?thesis using assms by (simp add: crc32c_sw_def a w)
qed

text \<open>
  C15. The table-driven code computes CRC-32C: for every buffer (not null), at any alignment and
  of any length, \<open>crc32c_sw\<close> equals the bit-by-bit definition.
\<close>

theorem crc32c_sw_correct:
  assumes "buf \<noteq> 0"
  shows "crc32c_sw crc buf bs = crc32c_ref crc bs"
  using assms by (rule crc32c_sw_ref)

theorem crc32c_sw_correct_witness:
  "crc32c_sw 0 0x1001 [0x31, 0x32, 0x33] = crc32c_ref 0 [0x31, 0x32, 0x33]"
  by (rule crc32c_sw_correct) simp

section \<open>The hardware version\<close>

text \<open>
  The instructions \<open>crc32b\<close> and \<open>crc32q\<close> work on a 64-bit register. What the processor
  manual documents: the low 32 bits are the code, the operand's bytes are added in order (with
  the same polynomial), and the upper half of the result is zero.
\<close>

definition crc32_instructions :: "(u64 \<Rightarrow> u8 \<Rightarrow> u64) \<Rightarrow> (u64 \<Rightarrow> u64 \<Rightarrow> u64) \<Rightarrow> bool" where
  "crc32_instructions crc32b crc32q \<longleftrightarrow>
     (\<forall>r b. crc32b r b = ucast (crc_step (ucast r) b))
   \<and> (\<forall>r w. crc32q r w = ucast (crc_bytes (ucast r) (le_bytes 8 w)))"

definition crc32c_shift :: "u32 list list \<Rightarrow> u32 \<Rightarrow> u32" where
  "crc32c_shift zs crc =
     zs ! 0 ! unat (crc AND 0xff) XOR zs ! 1 ! unat (drop_bit 8 crc AND 0xff)
     XOR zs ! 2 ! unat (drop_bit 16 crc AND 0xff) XOR zs ! 3 ! unat (drop_bit 24 crc)"

definition LONG :: nat where "LONG = 8192"
definition SHORT :: nat where "SHORT = 256"

text \<open>
  The inner loop (\<open>do ... while (next < end)\<close>): three streams at distance \<open>L\<close>; \<open>i\<close> is the
  offset of \<open>next\<close> in the block.
\<close>

definition word_at :: "u8 list \<Rightarrow> nat \<Rightarrow> u64" where
  "word_at bs i = le_word (take 8 (drop i bs))"

function three_way :: "(u64 \<Rightarrow> u64 \<Rightarrow> u64) \<Rightarrow> nat \<Rightarrow> nat \<Rightarrow> u8 list \<Rightarrow> u64 \<times> u64 \<times> u64 \<Rightarrow> u64 \<times> u64 \<times> u64" where
  "three_way crc32q L i bs (crc0, crc1, crc2) =
     (let cs = (crc32q crc0 (word_at bs i), crc32q crc1 (word_at bs (i + L)), crc32q crc2 (word_at bs (i + 2 * L)))
      in if i + 8 < L then three_way crc32q L (i + 8) bs cs else cs)"
  by pat_completeness auto
termination
  by (relation "measure (\<lambda>(q, L, i, bs, cs). L - i)") auto

text \<open>
  The outer loop over blocks of \<open>3 * L\<close> bytes, for \<open>L\<close> both \<open>LONG\<close> and \<open>SHORT\<close> (never 0).
\<close>

definition three_blocks :: "(u64 \<Rightarrow> u64 \<Rightarrow> u64) \<Rightarrow> u32 list list \<Rightarrow> nat \<Rightarrow> u8 list \<Rightarrow> u64 \<Rightarrow> u64" where
  "three_blocks crc32q zs L bs crc0 =
     (case three_way crc32q L 0 bs (crc0, 0, 0) of (crc0, crc1, crc2) \<Rightarrow>
        let crc0 = ucast (crc32c_shift zs (ucast crc0)) XOR crc1
        in ucast (crc32c_shift zs (ucast crc0)) XOR crc2)"

function block_loop :: "(u64 \<Rightarrow> u64 \<Rightarrow> u64) \<Rightarrow> u32 list list \<Rightarrow> nat \<Rightarrow> u64 \<Rightarrow> u8 list \<Rightarrow> u64 \<times> u8 list" where
  "block_loop crc32q zs L crc0 bs =
     (if 0 < L \<and> 3 * L \<le> length bs
      then block_loop crc32q zs L (three_blocks crc32q zs L bs crc0) (drop (3 * L) bs)
      else (crc0, bs))"
  by pat_completeness auto
termination
  by (relation "measure (\<lambda>(q, zs, L, c, bs). length bs)") auto

declare three_way.simps [simp del] block_loop.simps [simp del]

definition crc32c_hw ::
  "(u64 \<Rightarrow> u8 \<Rightarrow> u64) \<Rightarrow> (u64 \<Rightarrow> u64 \<Rightarrow> u64) \<Rightarrow> u32 \<Rightarrow> u64 \<Rightarrow> u8 list \<Rightarrow> u32" where
  "crc32c_hw crc32b crc32q crc buf bs =
     (if buf = 0 then 0
      else let crc0 = ucast (crc XOR 0xffffffff);
               (crc0, bs) = align_loop crc32b buf crc0 bs;
               (crc0, bs) = block_loop crc32q crc32c_long LONG crc0 bs;
               (crc0, bs) = block_loop crc32q crc32c_short SHORT crc0 bs;
               (crc0, bs) = word_loop crc32q (length bs div 8) crc0 bs
           in NOT (ucast (foldl crc32b crc0 bs)))"

text \<open>\<open>crc32c\<close> asks the processor; \<open>calculate_crc32\<close> is the 64-bit build.\<close>

definition crc32c :: "bool \<Rightarrow> (u64 \<Rightarrow> u8 \<Rightarrow> u64) \<Rightarrow> (u64 \<Rightarrow> u64 \<Rightarrow> u64) \<Rightarrow> u32 \<Rightarrow> u64 \<Rightarrow> u8 list \<Rightarrow> u32" where
  "crc32c sse42 crc32b crc32q crc buf bs =
     (if sse42 then crc32c_hw crc32b crc32q crc buf bs else crc32c_sw crc buf bs)"

definition calculate_crc32 :: "(u64 \<Rightarrow> u8 \<Rightarrow> u64) \<Rightarrow> (u64 \<Rightarrow> u64 \<Rightarrow> u64) \<Rightarrow> u64 \<Rightarrow> u8 list \<Rightarrow> u32" where
  "calculate_crc32 crc32b crc32q s bs = crc32c_hw crc32b crc32q 0xabcdef s bs"

subsection \<open>Shifting by a table\<close>

lemma crc32c_shift_zeros:
  assumes t: "\<And>n. n < 256 \<Longrightarrow> zs ! 0 ! n = zeros N (push_bit 0 (word_of_nat n))"
    "\<And>n. n < 256 \<Longrightarrow> zs ! 1 ! n = zeros N (push_bit 8 (word_of_nat n))"
    "\<And>n. n < 256 \<Longrightarrow> zs ! 2 ! n = zeros N (push_bit 16 (word_of_nat n))"
    "\<And>n. n < 256 \<Longrightarrow> zs ! 3 ! n = zeros N (push_bit 24 (word_of_nat n))"
  shows "crc32c_shift zs c = zeros N c"
proof -
  have c: "push_bit 0 (c AND 0xff) XOR push_bit 8 (drop_bit 8 c AND 0xff) XOR push_bit 16 (drop_bit 16 c AND 0xff)
      XOR push_bit 24 (drop_bit 24 c AND 0xff) = c" (is "?c = c")
  proof (rule bit_word_eqI)
    fix i assume i: "i < LENGTH(32)"
    then consider "i < 8" | "8 \<le> i" "i < 16" | "16 \<le> i" "i < 24" | "24 \<le> i" by linarith
    then show "bit ?c i \<longleftrightarrow> bit c i"
      unfolding ff_mask using i by cases (simp_all add: bit_simps, arith+)
  qed
  have "drop_bit 24 c = drop_bit 24 c AND 0xff"
    unfolding ff_mask by (rule bit_word_eqI) (auto simp: bit_simps dest: bit_imp_le_length)
  then have "crc32c_shift zs c = zs ! 0 ! unat (c AND 0xff) XOR zs ! 1 ! unat (drop_bit 8 c AND 0xff)
     XOR zs ! 2 ! unat (drop_bit 16 c AND 0xff) XOR zs ! 3 ! unat (drop_bit 24 c AND 0xff)"
    by (simp add: crc32c_shift_def)
  also have "\<dots> = zeros N ?c"
    unfolding t(1) [OF unat_byte_lt(1)] t(2) [OF unat_byte_lt(1)] t(3) [OF unat_byte_lt(1)] t(4) [OF unat_byte_lt(1)]
      zeros_xor by simp
  finally show ?thesis by (simp only: c)
qed

lemma shift_long: "crc32c_shift crc32c_long c = zeros LONG c"
  unfolding LONG_def
  by (rule crc32c_shift_zeros)
    (simp_all add: crc32c_long_def crc32c_long0_nth crc32c_long1_nth crc32c_long2_nth crc32c_long3_nth)

lemma shift_short: "crc32c_shift crc32c_short c = zeros SHORT c"
  unfolding SHORT_def
  by (rule crc32c_shift_zeros)
    (simp_all add: crc32c_short_def crc32c_short0_nth crc32c_short1_nth crc32c_short2_nth crc32c_short3_nth)

subsection \<open>Three streams\<close>

lemma crc32qD: "crc32_instructions crc32b crc32q \<Longrightarrow> crc32q r w = ucast (crc_bytes (ucast r) (le_bytes 8 w))"
  and crc32bD: "crc32_instructions crc32b crc32q \<Longrightarrow> crc32b r b = ucast (crc_step (ucast r) b)"
  by (simp_all add: crc32_instructions_def)

lemma u32_register [simp]: "ucast (ucast (x :: u32) :: u64) = x"
  by (rule bit_word_eqI) (simp add: bit_simps)

lemma word_at_bytes: "j + 8 \<le> length bs \<Longrightarrow> le_bytes 8 (word_at bs j) = take 8 (drop j bs)"
  using le_bytes_le_word [of "take 8 (drop j bs)", where 'a = 64] by (simp add: word_at_def)

lemma stream_step:
  assumes "crc32_instructions crc32b crc32q" "j + n \<le> length bs" "8 \<le> n"
  shows "crc_bytes (ucast (crc32q r (word_at bs j))) (take (n - 8) (drop (j + 8) bs)) = crc_bytes (ucast r) (take n (drop j bs))"
proof -
  have "take n (drop j bs) = take 8 (drop j bs) @ take (n - 8) (drop (j + 8) bs)"
    using assms(3) take_add [of 8 "n - 8" "drop j bs"] by (simp add: add.commute)
  moreover have "le_bytes 8 (word_at bs j) = take 8 (drop j bs)" using assms(2,3) by (intro word_at_bytes) simp
  ultimately show ?thesis by (simp add: crc32qD [OF assms(1)])
qed

lemma three_way_ref:
  assumes q: "crc32_instructions crc32b crc32q"
    and "i < L" "8 dvd i" "8 dvd L" "3 * L \<le> length bs"
  shows "three_way crc32q L i bs (c0, c1, c2) =
     (ucast (crc_bytes (ucast c0) (take (L - i) (drop i bs))),
      ucast (crc_bytes (ucast c1) (take (L - i) (drop (i + L) bs))),
      ucast (crc_bytes (ucast c2) (take (L - i) (drop (i + 2 * L) bs))))"
  using assms(2-)
proof (induction "L - i" arbitrary: i c0 c1 c2 rule: less_induct)
  case less
  let ?q = "\<lambda>c j. crc32q c (word_at bs j)"
  have i: "i + 8 \<le> L" using less.prems by (auto elim!: dvdE)
  have run: "three_way crc32q L i bs (c0, c1, c2) = (if i + 8 < L
      then three_way crc32q L (i + 8) bs (?q c0 i, ?q c1 (i + L), ?q c2 (i + 2 * L))
      else (?q c0 i, ?q c1 (i + L), ?q c2 (i + 2 * L)))"
    by (subst three_way.simps) (simp add: Let_def)
  note st = stream_step [OF q, of _ "L - i" bs]
  show ?case
  proof (cases "i + 8 < L")
    case True
    have "three_way crc32q L (i + 8) bs (?q c0 i, ?q c1 (i + L), ?q c2 (i + 2 * L)) =
       (ucast (crc_bytes (ucast (?q c0 i)) (take (L - (i + 8)) (drop (i + 8) bs))),
        ucast (crc_bytes (ucast (?q c1 (i + L))) (take (L - (i + 8)) (drop (i + 8 + L) bs))),
        ucast (crc_bytes (ucast (?q c2 (i + 2 * L))) (take (L - (i + 8)) (drop (i + 8 + 2 * L) bs))))"
      using less.hyps [of "i + 8"] less.prems True by simp
    then show ?thesis
      using st [of i c0] st [of "i + L" c1] st [of "i + 2 * L" c2] i less.prems True run by (simp add: ac_simps)
  next
    case False
    then have L: "L - i = 8" using i by simp
    have "?q c j = ucast (crc_bytes (ucast c) (take 8 (drop j bs)))" if "j + 8 \<le> length bs" for c j
      using crc32qD [OF q] word_at_bytes [OF that] by simp
    then show ?thesis using run False L less.prems i by simp
  qed
qed

lemma three_blocks_ref:
  assumes q: "crc32_instructions crc32b crc32q" and zs: "\<And>c. crc32c_shift zs c = zeros L c"
    and L: "0 < L" "8 dvd L" "3 * L \<le> length bs"
  shows "ucast (three_blocks crc32q zs L bs r) = crc_bytes (ucast r) (take (3 * L) bs)"
proof -
  let ?a = "take L bs" and ?b = "take L (drop L bs)" and ?c = "take L (drop (2 * L) bs)"
  have run: "three_way crc32q L 0 bs (r, 0, 0) = (ucast (crc_bytes (ucast r) ?a), ucast (crc_bytes 0 ?b), ucast (crc_bytes 0 ?c))"
    using three_way_ref [OF q, of 0 L bs r 0 0] L by simp
  have "take (3 * L) bs = take L bs @ take (L + L) (drop L bs)"
    using take_add [of L "L + L" bs] by (simp add: numeral_3_eq_3)
  also have "take (L + L) (drop L bs) = ?b @ ?c" using take_add [of L L "drop L bs"] by (simp add: mult_2)
  finally have bs: "take (3 * L) bs = (?a @ ?b) @ ?c" by simp
  have u: "ucast (x XOR y :: u64) = (ucast x XOR ucast y :: u32)" for x y by (rule bit_word_eqI) (auto simp: bit_simps)
  have "ucast (three_blocks crc32q zs L bs r) = zeros L (zeros L (crc_bytes (ucast r) ?a) XOR crc_bytes 0 ?b) XOR crc_bytes 0 ?c"
    by (simp add: three_blocks_def run Let_def zs u)
  also have "\<dots> = crc_bytes (ucast r) (take (3 * L) bs)"
    unfolding bs crc_bytes_two_blocks using L by simp
  finally show ?thesis .
qed

lemma block_loop_ref:
  assumes q: "crc32_instructions crc32b crc32q" and zs: "\<And>c. crc32c_shift zs c = zeros L c" and L: "0 < L" "8 dvd L"
    and run: "block_loop crc32q zs L r bs = (r', rest)"
  shows "crc_bytes (ucast r) bs = crc_bytes (ucast r') rest"
  using run
proof (induction "length bs" arbitrary: r bs rule: less_induct)
  case less
  show ?case
  proof (cases "3 * L \<le> length bs")
    case True
    let ?r = "three_blocks crc32q zs L bs r"
    have "block_loop crc32q zs L ?r (drop (3 * L) bs) = (r', rest)"
      using less.prems True L by (subst (asm) block_loop.simps) simp
    with less.hyps [of "drop (3 * L) bs" ?r] True L
    have "crc_bytes (ucast ?r) (drop (3 * L) bs) = crc_bytes (ucast r') rest" by simp
    then show ?thesis
      using three_blocks_ref [OF q zs L True, of r] crc_bytes_simps(3) [of "ucast r" "take (3 * L) bs" "drop (3 * L) bs"] by simp
  next
    case False
    then show ?thesis using less.prems by (subst (asm) block_loop.simps) simp
  qed
qed

lemma crc32c_hw_ref:
  assumes q: "crc32_instructions crc32b crc32q" and "buf \<noteq> 0"
  shows "crc32c_hw crc32b crc32q crc buf bs = crc32c_ref crc bs"
proof -
  let ?d = "\<lambda>r :: u64. ucast r :: u32"
  have b: "?d (crc32b r x) = crc_step (?d r) x" for r x using crc32bD [OF q] by simp
  have w: "?d (crc32q r x) = crc_bytes (?d r) (le_bytes 8 x)" for r x using crc32qD [OF q] by simp
  let ?c0 = "ucast (crc XOR 0xffffffff) :: u64"
  obtain c1 r1 where 1: "align_loop crc32b buf ?c0 bs = (c1, r1)" by fastforce
  obtain c2 r2 where 2: "block_loop crc32q crc32c_long LONG c1 r1 = (c2, r2)" by fastforce
  obtain c3 r3 where 3: "block_loop crc32q crc32c_short SHORT c2 r2 = (c3, r3)" by fastforce
  obtain c4 r4 where 4: "word_loop crc32q (length r3 div 8) c3 r3 = (c4, r4)" by fastforce
  have "?d (foldl crc32b c4 r4) = crc_bytes (?d c4) r4" by (rule foldl_step_ref) (rule b)
  also have "\<dots> = crc_bytes (?d c3) r3" using word_loop_ref [of ?d crc32q, OF w _ 4] by simp
  also have "\<dots> = crc_bytes (?d c2) r2"
    using block_loop_ref [OF q shift_short _ _ 3] by (simp add: SHORT_def)
  also have "\<dots> = crc_bytes (?d c1) r1"
    using block_loop_ref [OF q shift_long _ _ 2] by (simp add: LONG_def)
  also have "\<dots> = crc_bytes (?d ?c0) bs" using align_loop_ref [of ?d crc32b, OF b 1] by simp
  also have "?d ?c0 = NOT crc"
  proof -
    have m: "(0xffffffff :: u32) = - 1" by simp
    show ?thesis unfolding u32_register m by (rule bit_word_eqI) (simp add: bit_simps)
  qed
  finally have "?d (foldl crc32b c4 r4) = crc_bytes (NOT crc) bs" .
  then show ?thesis using assms(2) by (simp add: crc32c_hw_def crc32c_ref_def 1 2 3 4)
qed

text \<open>
  C14. The three-way hardware code computes CRC-32C: with instructions that behave as documented,
  for every buffer (not null), at any alignment and of any length, \<open>crc32c_hw\<close> equals the
  bit-by-bit definition; in particular the choice that \<open>crc32c\<close> makes by the processor never
  changes its result.
\<close>

theorem crc32c_hw_correct:
  assumes "crc32_instructions crc32b crc32q" and "buf \<noteq> 0"
  shows "crc32c_hw crc32b crc32q crc buf bs = crc32c_ref crc bs
     \<and> crc32c True crc32b crc32q crc buf bs = crc32c False crc32b crc32q crc buf bs"
  using assms by (simp add: crc32c_def crc32c_hw_ref crc32c_sw_ref)

text \<open>Instructions that do what the manual says.\<close>

definition demo_crc32b :: "u64 \<Rightarrow> u8 \<Rightarrow> u64" where
  "demo_crc32b r b = ucast (crc_step (ucast r) b)"

definition demo_crc32q :: "u64 \<Rightarrow> u64 \<Rightarrow> u64" where
  "demo_crc32q r w = ucast (crc_bytes (ucast r) (le_bytes 8 w))"

lemma demo_instructions: "crc32_instructions demo_crc32b demo_crc32q"
  by (simp add: crc32_instructions_def demo_crc32b_def demo_crc32q_def)

theorem crc32c_hw_correct_witness:
  "crc32c_hw demo_crc32b demo_crc32q 5 0x1003 (replicate 1000 7) = crc32c_ref 5 (replicate 1000 7)
     \<and> crc32c True demo_crc32b demo_crc32q 5 0x1003 (replicate 1000 7) = crc32c False demo_crc32b demo_crc32q 5 0x1003 (replicate 1000 7)"
  by (rule crc32c_hw_correct [OF demo_instructions]) simp

text \<open>
  C39. Checksums can be computed piece by piece: the code of a buffer is the code of its second
  part started with the code of the first, wherever the parts lie and whichever version
  computes each of them; a null buffer gives 0.
\<close>

theorem crc32c_incremental:
  assumes "crc32_instructions crc32b crc32q" and "a \<noteq> 0" and "b \<noteq> 0" and "c \<noteq> 0"
  shows "crc32c s crc32b crc32q (crc32c t crc32b crc32q crc a xs) b ys = crc32c u crc32b crc32q crc c (xs @ ys)
     \<and> crc32c s crc32b crc32q crc 0 xs = 0"
proof -
  have r: "crc32c v crc32b crc32q x p bs = (if p = 0 then 0 else crc32c_ref x bs)" for v x p bs
    using assms(1) by (simp add: crc32c_def crc32c_hw_ref crc32c_sw_ref crc32c_hw_def [of _ _ _ 0] crc32c_sw_def [of _ 0])
  show ?thesis using assms(2-) unfolding r by (simp add: crc32c_ref_def)
qed

theorem crc32c_incremental_witness:
  "crc32c True demo_crc32b demo_crc32q (crc32c False demo_crc32b demo_crc32q 0 1 [1, 2]) 2 [3]
     = crc32c True demo_crc32b demo_crc32q 0 9 ([1, 2] @ [3]) \<and> crc32c True demo_crc32b demo_crc32q 0 0 [1, 2] = 0"
  by (rule crc32c_incremental [OF demo_instructions]) simp_all

end
