(* ===== verification/Rpc_Call.thy ===== *)
theory Rpc_Call
  imports DSM
begin

text \<open>
  A remote procedure call from one node to another: the caller appends items to a message,
  \<open>ud_rpc_call\<close> copies it into a send buffer with the extra data behind it, the network carries
  as many bytes as the message announces, and the receiver reads them in its own buffer, of
  which 40 bytes are taken by the header of the datagram.
\<close>

definition GRH_SIZE :: nat where "GRH_SIZE = 40"

text \<open>The receive buffer behind the datagram header, after \<open>b\<close> has arrived in it.\<close>

definition arrive :: "RpcMessage \<Rightarrow> u8 list \<Rightarrow> RpcMessage option" where
  "arrive b buf = Option.bind (write_at buf 0 (take (rpc_size b) (bytes_of_rpc b))) rpc_of_bytes"

lemma arrive_eq:
  assumes "rpc_wf b" "rpc_size b \<le> length buf" "length buf < 2 ^ 16"
  obtains r where "arrive b buf = Some r" "rpc_wf r" "payload r = payload b" "node_id r = node_id b" "t_id r = t_id b" "rtype r = rtype b"
proof -
  let ?n = "rpc_size b" and ?r = "b\<lparr>msg := payload b @ drop (rpc_size b) buf\<rparr>"
  have n: "?n = 6 + unat (msg_size b)" by (simp add: rpc_size_def sizeof_RpcMessage_def)
  have len: "?n \<le> length (bytes_of_rpc b)" using assms(1) by (simp add: n bytes_of_rpc_def rpc_wf_def)
  have p: "length (payload b) = unat (msg_size b)" by (rule length_payload [OF assms(1)])
  have "write_at buf 0 (take ?n (bytes_of_rpc b)) = Some (take ?n (bytes_of_rpc b) @ drop ?n buf)"
    using assms(2) len by (simp add: write_at_def min_absorb2)
  then have "write_at buf 0 (take ?n (bytes_of_rpc b)) = Some (bytes_of_rpc ?r)"
    unfolding take_bytes_of_rpc .
  then have "arrive b buf = Some ?r" by (simp add: arrive_def rpc_of_bytes_of_rpc)
  moreover have "rpc_wf ?r" using assms(2,3) n p by (simp add: rpc_wf_def) linarith
  moreover have "payload ?r = payload b" using p by (simp add: payload_def)
  ultimately show thesis by (intro that [of ?r]) simp_all
qed

text \<open>
  C18. A call arrives as it was made. When the items, the extra data and the header fit in a
  receive buffer, the caller's appends and the building of the call succeed and the receiver
  reads every item, then the extra data as a string, and the identity of the caller.
\<close>

theorem rpc_call_arrives:
  assumes "length (msg m0) = MESSAGE_SIZE - 6" and "length old = MESSAGE_SIZE" and "length buf = MESSAGE_SIZE - GRH_SIZE"
    and "6 + items_length its + 4 + length data \<le> MESSAGE_SIZE - GRH_SIZE"
  shows "\<exists>m b r cur. add_items (rpc_clear m0) its = Some m
     \<and> build_call d t m (Slice_mk data (length data)) old = Some b
     \<and> arrive b buf = Some r
     \<and> get_items r Cursor_mk (map shape_of its @ [SStr]) = Some (its @ [IStr data], cur)
     \<and> node_id r = ucast (my_node_id d) \<and> t_id r = word_of_int (thread_id t) \<and> rtype r = rtype m0"
proof -
  let ?ib = "concat (map item_bytes its)" and ?db = "le_bytes 4 (word_of_nat (length data) :: u32) @ data"
  have nums: "MESSAGE_SIZE = 4096" "GRH_SIZE = 40" by (simp_all add: MESSAGE_SIZE_def GRH_SIZE_def)
  have il: "length ?ib = items_length its" by (simp add: items_length_def)
  have wf0: "rpc_wf (rpc_clear m0)" using assms(1) nums by (intro rpc_wf_clear) simp
  have "\<exists>m. put_bytes (rpc_clear m0) ?ib = Some m"
    unfolding put_bytes_defined using assms(1,4) nums il by (simp add: rpc_clear_def)
  then obtain m where m: "put_bytes (rpc_clear m0) ?ib = Some m" by blast
  note pm = put_bytes_Some [OF wf0 m]
  have add: "add_items (rpc_clear m0) its = Some m"
    using add_items_put [OF wf0, of its] assms(4) nums m by simp
  have pay: "payload m = ?ib" "rpc_size m = 6 + items_length its" "rtype m = rtype m0"
    using pm il by (simp_all add: rpc_clear_def payload_def rpc_size_def sizeof_RpcMessage_def same_header_def)
  have x: "sl_s (Slice_mk data (length data)) = Some data" "sl_len (Slice_mk data (length data)) = length data"
    by (simp_all add: Slice_mk_def)
  have fits: "rpc_size m + 40 < MESSAGE_SIZE" using assms(4) unfolding nums pay(2) by simp
  obtain b0 where b0: "build_call d t m (Slice_mk data (length data)) old = add_string_slice b0 (Slice_mk data (length data))"
    "rpc_wf b0" "payload b0 = payload m" "length (msg b0) = MESSAGE_SIZE - 6" "msg_size b0 = msg_size m"
    "node_id b0 = ucast (my_node_id d)" "t_id b0 = word_of_int (thread_id t)" "rtype b0 = rtype m"
    using build_call_start [OF pm(1) fits assms(2), of d t "Slice_mk data (length data)"] x(1) by auto
  have put: "add_string_slice b0 (Slice_mk data (length data)) = put_bytes b0 ?db"
    using add_string_slice_put [OF b0(2) x(1)] x(2) assms(4) nums by simp
  have "\<exists>b. put_bytes b0 ?db = Some b"
    unfolding put_bytes_defined using b0(4,5) pay(2) assms(4) nums by (simp add: rpc_size_def sizeof_RpcMessage_def)
  then obtain b where b: "put_bytes b0 ?db = Some b" by blast
  note pb = put_bytes_Some [OF b0(2) b]
  have sz: "rpc_size b = 6 + items_length its + 4 + length data"
    using pb(4) b0(5) pay(2) by (simp add: rpc_size_def sizeof_RpcMessage_def)
  have room: "rpc_size b \<le> length buf" "length buf < 2 ^ 16" using sz assms(3,4) unfolding nums by simp_all
  obtain r where r: "arrive b buf = Some r" "rpc_wf r" "payload r = payload b" "node_id r = node_id b" "t_id r = t_id b" "rtype r = rtype b"
    using arrive_eq [OF pb(1) room] .
  have "payload r = [] @ concat (map item_bytes (its @ [IStr data])) @ []"
    using r(3) pb(2) b0(3) pay(1) by simp
  from get_items_payload [OF r(2) this, of Cursor_mk]
  obtain cur where "get_items r Cursor_mk (map shape_of its @ [SStr]) = Some (its @ [IStr data], cur)"
    by (auto simp: Cursor_mk_def)
  then show ?thesis
    using add b0(1) put b r pb(3) b0(6-8) pay(3) by (auto simp: same_header_def)
qed

theorem rpc_call_arrives_witness:
  "\<exists>m b r cur. add_items (rpc_clear (demo_call 77)) [IU32 5, IU8 9] = Some m
     \<and> build_call demo_dsm (fresh_thread\<lparr>thread_id := 3\<rparr>) m (Slice_mk [104, 105] 2) (replicate MESSAGE_SIZE 0) = Some b
     \<and> arrive b (replicate (MESSAGE_SIZE - GRH_SIZE) 7) = Some r
     \<and> get_items r Cursor_mk [SU32, SU8, SStr] = Some ([IU32 5, IU8 9, IStr [104, 105]], cur) \<and> node_id r = 1 \<and> t_id r = 3"
proof -
  have l: "length (msg (demo_call 77)) = MESSAGE_SIZE - 6" "length (replicate MESSAGE_SIZE (0 :: u8)) = MESSAGE_SIZE"
    "length (replicate (MESSAGE_SIZE - GRH_SIZE) (7 :: u8)) = MESSAGE_SIZE - GRH_SIZE"
    by (simp_all only: demo_call_def RpcMessage.simps length_replicate) (simp add: MESSAGE_SIZE_def)
  have "6 + items_length [IU32 5, IU8 9] + 4 + length [104, 105 :: u8] \<le> MESSAGE_SIZE - GRH_SIZE"
    by (simp add: items_length_def MESSAGE_SIZE_def GRH_SIZE_def)
  from rpc_call_arrives [OF l this, of demo_dsm "fresh_thread\<lparr>thread_id := 3\<rparr>"]
  show ?thesis by (auto simp: demo_dsm_def fresh_thread_def numeral_2_eq_2 simp del: add_items.simps get_items.simps)
qed

section \<open>Dumping a message\<close>

text \<open>
  \<open>print\<close> writes the header in decimal and the characters of the message, each with a dash; it
  reads behind the block when the size is too large.
\<close>

definition rpc_print :: "RpcMessage \<Rightarrow> string option" where
  "rpc_print m =
     (let num = (\<lambda>n. to_string n) in
      map_option (\<lambda>bs. ''type '' @ num (unat (rtype m)) @ '', ['' @ num (unat (node_id m)) @ '' '' @ num (unat (t_id m)) @ ''] ''
          @ ''[size: '' @ num (unat (msg_size m)) @ ''] '' @ concat (map (\<lambda>b. [char_of (unat b), CHR ''-'']) bs) @ [CHR 0x0A])
        (read_at (msg m) 0 (unat (msg_size m))))"

lemma rpc_print_total: "rpc_print m \<noteq> None \<longleftrightarrow> unat (msg_size m) \<le> length (msg m)"
  by (simp add: rpc_print_def read_at_def)

end
