(* ===== verification/Client_Program.thy ===== *)
theory Client_Program
  imports Rowan_Client Message_Send
begin

text \<open>
  \<open>test/rowan_client.cpp\<close>: a client thread keeps six messages in flight. It takes a buffer,
  marks it and sends it, first six times and then after every completion, while the network
  card transmits the buffers. The server (\<open>Rowan_Server\<close>) relies on the first byte of each
  message not being zero.
\<close>

section \<open>The program\<close>

datatype client_pc = Take | Mark u64 | Send u64 | Await

record client_prog =
  cpc :: client_pc
  client :: RowanClient
  batch :: nat
  tp_counter :: u64

text \<open>
  The card of the client: memory, the sends posted and not finished (oldest first), the
  completions not yet polled, and the messages transmitted.
\<close>

record client_nic =
  cmem :: "u64 \<Rightarrow> u8"
  flight :: "ibv_send_wr list"
  completed :: nat
  sent :: "u8 list list"

definition post_rc :: "client_nic rc_post_fn" where
  "post_rc qp wrs n = (0, n\<lparr>flight := flight n @ wrs\<rparr>)"

definition success_wc :: ibv_wc where
  "success_wc = \<lparr>wc_id = 0, wc_status = IBV_WC_SUCCESS, wc_is_recv = False\<rparr>"

definition poll_rc :: "client_nic poll_fn" where
  "poll_rc n = (if completed n = 0 then (0, None, n)
     else (1, Some success_wc, n\<lparr>completed := completed n - 1\<rparr>))"

definition kBatchSize :: nat where "kBatchSize = 6"

text \<open>\<open>request->size()\<close> reads the size field of the message in the buffer.\<close>

definition request_size :: "(u64 \<Rightarrow> u8) \<Rightarrow> u64 \<Rightarrow> u64" where
  "request_size mem a = 6 + le_word [mem (a + 4), mem (a + 5)]"

text \<open>
  What follows a send: the rest of the first batch, or the wait for a completion; in the loop
  the send is counted.
\<close>

definition after_send :: "client_prog \<Rightarrow> client_prog" where
  "after_send cp =
     (if 1 < batch cp then cp\<lparr>cpc := Take, batch := batch cp - 1\<rparr>
      else if batch cp = 1 then cp\<lparr>cpc := Await, batch := 0\<rparr>
      else cp\<lparr>cpc := Await, tp_counter := tp_counter cp + 1\<rparr>)"

text \<open>One statement; \<open>None\<close> is a missing connection, or a poll while nothing has completed.\<close>

fun client_step :: "dsm \<Rightarrow> dsm_thread \<Rightarrow> ibv_wc \<Rightarrow> client_prog \<times> client_nic \<Rightarrow> (client_prog \<times> client_nic) option" where
  "client_step d t wc (cp, n) =
     (case cpc cp of
        Take \<Rightarrow> (case get_send_buf (client cp, cmem n) of (request, c, m) \<Rightarrow>
          Some (cp\<lparr>cpc := Mark request, client := c\<rparr>, n\<lparr>cmem := m\<rparr>))
      | Mark request \<Rightarrow> Some (cp\<lparr>cpc := Send request\<rparr>, n\<lparr>cmem := (cmem n)(request := 1)\<rparr>)
      | Send request \<Rightarrow>
          map_option (\<lambda>(_, n). (after_send cp, n))
            (dsm_send post_rc d t request (request_size (cmem n) request) 0 True n)
      | Await \<Rightarrow> map_option (\<lambda>n. (cp\<lparr>cpc := Take\<rparr>, n)) (poll_rdma_cq poll_rc wc 1 n))"

definition test_rowan ::
  "'s post_recv_fn \<Rightarrow> dsm \<Rightarrow> 's \<Rightarrow> (client_prog \<times> dsm \<times> dsm_thread \<times> 's) option" where
  "test_rowan post_recv d s =
     map_option (\<lambda>(c, d, t, s). (\<lparr>cpc = Take, client = c, batch = kBatchSize, tp_counter = 0\<rparr>, d, t, s))
       (mk_RowanClient post_recv d fresh_thread s)"

text \<open>The card transmits the oldest send, reading the buffer now.\<close>

definition message_at :: "(u64 \<Rightarrow> u8) \<Rightarrow> ibv_send_wr \<Rightarrow> u8 list" where
  "message_at mem w = map (\<lambda>i. mem (wr_addr w + word_of_nat i)) [0..<unat (sge_length (hd (sg_list w)))]"

inductive transmit :: "client_nic \<Rightarrow> client_nic \<Rightarrow> bool" where
  transmit: "flight n = w # ws \<Longrightarrow>
     transmit n (n\<lparr>flight := ws, sent := sent n @ [message_at (cmem n) w],
                   completed := completed n + (if signaled w then 1 else 0)\<rparr>)"

inductive client_sys :: "dsm \<Rightarrow> dsm_thread \<Rightarrow> ibv_wc \<Rightarrow> client_prog \<times> client_nic \<Rightarrow> client_prog \<times> client_nic \<Rightarrow> bool"
  for d t wc where
  program: "client_step d t wc x = Some y \<Longrightarrow> client_sys d t wc x y"
| card: "transmit n n' \<Longrightarrow> client_sys d t wc (cp, n) (cp, n')"

definition client_start :: "client_prog \<Rightarrow> client_prog \<times> client_nic \<Rightarrow> bool" where
  "client_start cp0 x \<longleftrightarrow> (case x of (cp, n) \<Rightarrow> cp = cp0 \<and> flight n = [] \<and> completed n = 0 \<and> sent n = [])"

section \<open>The invariant\<close>

interpretation send_ring: slot_ring MESSAGE_SIZE kBufferCnt
  by unfold_locales (simp_all add: MESSAGE_SIZE_def kBufferCnt_def)

definition buf_slot :: "u64 \<Rightarrow> nat \<Rightarrow> u64" where
  "buf_slot base i = slot_addr base MESSAGE_SIZE (i mod kBufferCnt)"

lemma get_send_buf_at:
  assumes "send_buf c = base" "cur_send c = word_of_nat (i mod kBufferCnt)"
  shows "get_send_buf (c, m) = (buf_slot base i, c\<lparr>cur_send := word_of_nat (Suc i mod kBufferCnt)\<rparr>,
     m(buf_slot base i + 4 := 0, buf_slot base i + 5 := 0))"
proof -
  have "(word_of_nat (i mod kBufferCnt) + 1) mod word_of_nat kBufferCnt = (word_of_nat (Suc i mod kBufferCnt) :: u64)"
    by (rule cur_send_Suc)
  then show ?thesis using assms by (simp add: get_send_buf_def Let_def buf_slot_def slot_addr_def)
qed

text \<open>A message in the buffer at \<open>a\<close>: marked, and of size 0.\<close>

definition empty_at :: "(u64 \<Rightarrow> u8) \<Rightarrow> u64 \<Rightarrow> bool" where
  "empty_at m a \<longleftrightarrow> m (a + 4) = 0 \<and> m (a + 5) = 0"

definition request_at :: "(u64 \<Rightarrow> u8) \<Rightarrow> u64 \<Rightarrow> bool" where
  "request_at m a \<longleftrightarrow> m a = 1 \<and> empty_at m a"

definition request_wr :: "u64 \<Rightarrow> nat \<Rightarrow> ibv_send_wr \<Rightarrow> bool" where
  "request_wr base i w \<longleftrightarrow> wr_addr w = buf_slot base i \<and> sge_length (hd (sg_list w)) = 6 \<and> signaled w"

text \<open>
  \<open>s\<close> messages have been sent, \<open>f\<close> of them transmitted and \<open>p\<close> of those polled.
\<close>

definition client_at :: "u64 \<Rightarrow> client_prog \<times> client_nic \<Rightarrow> nat \<Rightarrow> nat \<Rightarrow> nat \<Rightarrow> bool" where
  "client_at base x s f p \<longleftrightarrow> (case x of (cp, n) \<Rightarrow>
     unat base + kBufferCnt * MESSAGE_SIZE \<le> 2 ^ 64
     \<and> send_buf (client cp) = base
     \<and> p \<le> f \<and> f \<le> s \<and> completed n = f - p
     \<and> length (flight n) = s - f \<and> (\<forall>i < s - f. request_wr base (f + i) (flight n ! i))
     \<and> (\<forall>i. f \<le> i \<longrightarrow> i < s \<longrightarrow> request_at (cmem n) (buf_slot base i))
     \<and> (\<forall>bs \<in> set (sent n). length bs = 6 \<and> bs ! 0 = 1 \<and> bs ! 4 = 0 \<and> bs ! 5 = 0)
     \<and> (if batch cp = 0 then s + (if cpc cp = Await then 0 else 1) = p + kBatchSize
        else s + batch cp = kBatchSize \<and> p = 0)
     \<and> (case cpc cp of
          Take \<Rightarrow> cur_send (client cp) = word_of_nat (s mod kBufferCnt)
        | Mark a \<Rightarrow> cur_send (client cp) = word_of_nat (Suc s mod kBufferCnt) \<and> a = buf_slot base s \<and> empty_at (cmem n) a
        | Send a \<Rightarrow> cur_send (client cp) = word_of_nat (Suc s mod kBufferCnt) \<and> a = buf_slot base s \<and> request_at (cmem n) a
        | Await \<Rightarrow> cur_send (client cp) = word_of_nat (s mod kBufferCnt) \<and> batch cp = 0))"

lemma unat_buf_slot:
  assumes "unat base + kBufferCnt * MESSAGE_SIZE \<le> 2 ^ 64"
  shows "unat (buf_slot base i) + MESSAGE_SIZE \<le> 2 ^ 64"
  using send_ring.slot_in_region(2) [OF assms, of "i mod kBufferCnt"] assms
  by (simp add: buf_slot_def kBufferCnt_def)

lemma buf_slots_disjoint:
  assumes "unat base + kBufferCnt * MESSAGE_SIZE \<le> 2 ^ 64" "i < j" "j < i + kBufferCnt"
  shows "disjoint_bufs MESSAGE_SIZE (buf_slot base i) (buf_slot base j)"
  using send_ring.window_disjoint [OF assms] by (simp add: buf_slot_def)

text \<open>Bytes of different buffers are different.\<close>

lemma unat_in_buf:
  assumes "unat (a :: u64) + MESSAGE_SIZE \<le> 2 ^ 64" "k < MESSAGE_SIZE"
  shows "unat (a + word_of_nat k) = unat a + k"
proof -
  have k: "unat (word_of_nat k :: u64) = k" using assms by (simp add: unat_of_nat MESSAGE_SIZE_def)
  then show ?thesis using assms by (simp add: unat_word_ariths)
qed

lemma bytes_apart:
  assumes "disjoint_bufs MESSAGE_SIZE a b \<or> disjoint_bufs MESSAGE_SIZE b a"
    and "unat a + MESSAGE_SIZE \<le> 2 ^ 64" "unat b + MESSAGE_SIZE \<le> 2 ^ 64" "k < MESSAGE_SIZE" "l < MESSAGE_SIZE"
  shows "a + word_of_nat k \<noteq> b + word_of_nat l"
proof
  assume "a + word_of_nat k = b + word_of_nat l"
  then have "unat a + k = unat b + l" using unat_in_buf assms by metis
  then show False using assms by (auto simp: disjoint_bufs_def)
qed

lemma header_apart:
  assumes "unat base + kBufferCnt * MESSAGE_SIZE \<le> 2 ^ 64" "i < j" "j < i + kBufferCnt"
    and "x \<in> {buf_slot base i, buf_slot base i + 4, buf_slot base i + 5}"
    and "y \<in> {buf_slot base j, buf_slot base j + 4, buf_slot base j + 5}"
  shows "x \<noteq> y"
proof -
  note ap = bytes_apart [OF disjI1 [OF buf_slots_disjoint [OF assms(1-3)]] unat_buf_slot [OF assms(1)] unat_buf_slot [OF assms(1)]]
  obtain k where k: "k < MESSAGE_SIZE" "x = buf_slot base i + word_of_nat k"
    using assms(4) by (auto simp: MESSAGE_SIZE_def intro: that [of 0] that [of 4] that [of 5])
  obtain l where l: "l < MESSAGE_SIZE" "y = buf_slot base j + word_of_nat l"
    using assms(5) by (auto simp: MESSAGE_SIZE_def intro: that [of 0] that [of 4] that [of 5])
  show ?thesis unfolding k l by (rule ap [OF k(1) l(1)])
qed

text \<open>Writing the header of buffer \<open>j\<close> leaves the messages of the buffers before it alone.\<close>

lemma request_at_other:
  assumes "unat base + kBufferCnt * MESSAGE_SIZE \<le> 2 ^ 64" "i < j" "j < i + kBufferCnt"
    and "\<forall>x. x \<notin> {buf_slot base j, buf_slot base j + 4, buf_slot base j + 5} \<longrightarrow> m' x = m x"
  shows "request_at m' (buf_slot base i) = request_at m (buf_slot base i)"
proof -
  have "m' x = m x" if "x \<in> {buf_slot base i, buf_slot base i + 4, buf_slot base i + 5}" for x
    using assms(4) header_apart [OF assms(1-3) that] by blast
  then show ?thesis by (simp add: request_at_def empty_at_def)
qed

lemma header_offsets:
  fixes a :: u64
  shows "a + 4 \<noteq> a" "a + 5 \<noteq> a" "a \<noteq> a + 4" "a \<noteq> a + 5"
  by simp_all

lemma poll_rc_eq:
  "poll_rdma_cq poll_rc wc 1 n = (if completed n = 0 then None else Some (n\<lparr>completed := completed n - 1\<rparr>))"
proof (cases "completed n = 0")
  case True
  then have idle: "poll_turn poll_rc (0, wc, n) = (0, wc, n)" by (simp add: poll_rc_def)
  have "turns poll_rc m (0, wc, n) = (0, wc, n)" for m by (induction m) (simp_all add: idle del: poll_turn.simps)
  then have "poll_loop poll_rc 1 (0, wc, n) = None"
    using poll_loop_SomeD [of poll_rc 1 "(0, wc, n)"]
    by (cases "poll_loop poll_rc 1 (0, wc, n)") (auto simp: stops_after_def)
  then show ?thesis using True by (simp add: poll_rdma_cq_def pollWithCQ_def)
next
  case False
  then show ?thesis
    by (simp add: poll_rdma_cq_def pollWithCQ_def, subst poll_loop.simps) (simp add: poll_rc_def Let_def)
qed

lemma dsm_send_flight:
  assumes "dsm_send post_rc d t a sz nid True n = Some (ok, n')"
  shows "\<exists>w. n' = n\<lparr>flight := flight n @ [w]\<rparr> \<and> wr_addr w = a \<and> sge_length (hd (sg_list w)) = ucast sz \<and> signaled w"
  using assms
  by (auto simp: dsm_send_def bind_eq_Some_conv rdmaSend_def post_wr_def post_rc_def rc_send_wr_def Let_def
      fillSgeWr_send_def mk_sge_def wr_addr_def signaled_def split: prod.splits)

lemma request_size_6: "empty_at m a \<Longrightarrow> request_size m a = 6"
  by (simp add: empty_at_def request_size_def)

text \<open>One statement keeps the invariant; a send makes one more message sent, a poll one more polled.\<close>

lemma take_at:
  assumes "client_at base (cp, n) s f p" "cpc cp = Take" "get_send_buf (client cp, cmem n) = (a, c, m)"
  shows "client_at base (cp\<lparr>cpc := Mark a, client := c\<rparr>, n\<lparr>cmem := m\<rparr>) s f p"
proof -
  from assms(1,2) have room: "unat base + kBufferCnt * MESSAGE_SIZE \<le> 2 ^ 64" and c: "send_buf (client cp) = base"
    "cur_send (client cp) = word_of_nat (s mod kBufferCnt)"
    and few: "p \<le> f" "s < p + kBufferCnt"
    by (auto simp: client_at_def kBatchSize_def kBufferCnt_def split: if_splits)
  have eq: "a = buf_slot base s" "c = (client cp)\<lparr>cur_send := word_of_nat (Suc s mod kBufferCnt)\<rparr>"
    "m = (cmem n)(a + 4 := 0, a + 5 := 0)"
    using assms(3) get_send_buf_at [OF c, of "cmem n"] by auto
  have "request_at m (buf_slot base i) = request_at (cmem n) (buf_slot base i)" if "f \<le> i" "i < s" for i
    by (rule request_at_other [OF room that(2)]) (use that few in \<open>auto simp: eq\<close>)
  moreover have "empty_at m a" by (simp add: empty_at_def eq(3))
  ultimately show ?thesis using assms(1,2) eq(1,2) by (simp add: client_at_def split: if_splits)
qed

lemma mark_at:
  assumes "client_at base (cp, n) s f p" "cpc cp = Mark a"
  shows "client_at base (cp\<lparr>cpc := Send a\<rparr>, n\<lparr>cmem := (cmem n)(a := 1)\<rparr>) s f p"
proof -
  let ?m = "(cmem n)(a := 1)"
  from assms have room: "unat base + kBufferCnt * MESSAGE_SIZE \<le> 2 ^ 64" and a: "a = buf_slot base s" "empty_at (cmem n) a"
    and few: "p \<le> f" "s < p + kBufferCnt"
    by (auto simp: client_at_def kBatchSize_def kBufferCnt_def split: if_splits)
  have "request_at ?m (buf_slot base i) = request_at (cmem n) (buf_slot base i)" if "f \<le> i" "i < s" for i
    by (rule request_at_other [OF room that(2)]) (use that few in \<open>auto simp: a(1)\<close>)
  moreover have "request_at ?m a" using a(2) by (simp add: request_at_def empty_at_def)
  ultimately show ?thesis using assms by (simp add: client_at_def split: if_splits)
qed

lemma send_at:
  assumes "client_at base (cp, n) s f p" "cpc cp = Send a"
    and "dsm_send post_rc d t a (request_size (cmem n) a) 0 True n = Some (ok, n')"
  shows "client_at base (after_send cp, n') (Suc s) f p"
proof -
  from assms(1,2) have a: "a = buf_slot base s" "request_at (cmem n) a" and f: "f \<le> s" "length (flight n) = s - f"
    by (auto simp: client_at_def)
  obtain w where w: "n' = n\<lparr>flight := flight n @ [w]\<rparr>" "wr_addr w = a" "sge_length (hd (sg_list w)) = ucast (request_size (cmem n) a)" "signaled w"
    using dsm_send_flight [OF assms(3)] by blast
  have "request_size (cmem n) a = 6" using a(2) by (intro request_size_6) (simp add: request_at_def)
  then have new: "request_wr base s w" using w a(1) by (simp add: request_wr_def)
  have "request_wr base (f + i) ((flight n @ [w]) ! i)" if "i < Suc s - f" for i
    using that new f assms(1) by (cases "i < s - f") (auto simp: client_at_def nth_append less_Suc_eq Suc_diff_le)
  then show ?thesis
    using assms(1,2) f a w(1) by (auto simp: client_at_def after_send_def less_Suc_eq kBatchSize_def split: if_splits)
qed

lemma await_at:
  assumes "client_at base (cp, n) s f p" "cpc cp = Await" "poll_rdma_cq poll_rc wc 1 n = Some n'"
  shows "client_at base (cp\<lparr>cpc := Take\<rparr>, n') s f (Suc p)"
  using assms by (auto simp: client_at_def poll_rc_eq split: if_splits)

lemma client_step_at:
  assumes "client_at base x s f p" "client_step d t wc x = Some y"
  shows "\<exists>s f p. client_at base y s f p"
proof -
  obtain cp n where x: "x = (cp, n)" by (cases x)
  show ?thesis
  proof (cases "cpc cp")
    case Take
    obtain a c m where g: "get_send_buf (client cp, cmem n) = (a, c, m)" by (cases "get_send_buf (client cp, cmem n)")
    show ?thesis using take_at [OF assms(1) [unfolded x] Take g] assms(2) by (auto simp: x Take g)
  next
    case (Mark a)
    show ?thesis using mark_at [OF assms(1) [unfolded x] Mark] assms(2) by (auto simp: x Mark)
  next
    case (Send a)
    then obtain ok n' where "dsm_send post_rc d t a (request_size (cmem n) a) 0 True n = Some (ok, n')" "y = (after_send cp, n')"
      using assms(2) by (auto simp: x)
    then show ?thesis using send_at [OF assms(1) [unfolded x] Send] by blast
  next
    case Await
    then obtain n' where "poll_rdma_cq poll_rc wc 1 n = Some n'" "y = (cp\<lparr>cpc := Take\<rparr>, n')" using assms(2) by (auto simp: x)
    then show ?thesis using await_at [OF assms(1) [unfolded x] Await] by blast
  qed
qed

lemma transmit_at:
  assumes "client_at base (cp, n) s f p" "transmit n n'"
  shows "client_at base (cp, n') s (Suc f) p"
  using assms(2)
proof cases
  case (transmit w ws)
  from assms(1) transmit have len: "f < s" "length ws = s - Suc f" and w: "request_wr base f w"
    and ws: "\<forall>i < s - Suc f. request_wr base (Suc f + i) (ws ! i)"
    and m: "request_at (cmem n) (buf_slot base f)"
    by (auto simp: client_at_def) (metis Suc_less_eq add_Suc_right add_Suc_shift diff_Suc_Suc less_Suc_eq_0_disj nth_Cons_Suc nth_Cons_0 Suc_diff_Suc add_0_right zero_less_diff)+
  have "length (message_at (cmem n) w) = 6 \<and> message_at (cmem n) w ! 0 = 1 \<and> message_at (cmem n) w ! 4 = 0 \<and> message_at (cmem n) w ! 5 = 0"
    using w m by (simp add: message_at_def request_wr_def request_at_def empty_at_def)
  then show ?thesis
    using assms(1) len w ws by (auto simp: client_at_def transmit request_wr_def split: if_splits client_pc.splits)
qed

definition client_inv :: "u64 \<Rightarrow> client_prog \<times> client_nic \<Rightarrow> bool" where
  "client_inv base x \<longleftrightarrow> (\<exists>s f p. client_at base x s f p)"

text \<open>Clients that \<open>test_rowan\<close> may start from: a fresh ring of buffers inside the address space.\<close>

definition client_begin :: "u64 \<Rightarrow> client_prog \<times> client_nic \<Rightarrow> bool" where
  "client_begin base x \<longleftrightarrow> unat base + kBufferCnt * MESSAGE_SIZE \<le> 2 ^ 64
     \<and> (\<exists>tp. client_start \<lparr>cpc = Take, client = \<lparr>send_buf = base, cur_send = 0, send_counter = 0\<rparr>, batch = kBatchSize, tp_counter = tp\<rparr> x)"

interpretation client_run: invariant_system "client_begin base" "client_sys d t wc" "client_inv base" for base d t wc
proof
  show "client_inv base x" if "client_begin base x" for x
    using that
    by (auto simp: client_inv_def client_begin_def client_start_def client_at_def kBatchSize_def intro!: exI [of _ 0])
next
  show "client_inv base y" if "client_sys d t wc x y" "client_inv base x" for x y
    using that(1)
  proof cases
    case program
    then show ?thesis using that(2) unfolding client_inv_def by (blast dest: client_step_at)
  next
    case card
    then show ?thesis using that(2) unfolding client_inv_def by (blast dest: transmit_at)
  qed
qed

text \<open>What \<open>test_rowan\<close> starts is such a client.\<close>

lemma test_rowan_begin:
  assumes "test_rowan post_recv d0 s0 = Some (cp0, d, t, s1)" "client_start cp0 x"
    and "unat (send_buf (client cp0)) + kBufferCnt * MESSAGE_SIZE \<le> 2 ^ 64"
  shows "client_begin (send_buf (client cp0)) x"
  using assms by (auto simp: test_rowan_def mk_RowanClient_def client_begin_def)

lemma reachable_mono: "reachable S step x \<Longrightarrow> (\<And>x. S x \<Longrightarrow> T x) \<Longrightarrow> reachable T step x"
  by (induction rule: reachable.induct) (auto intro: reachable.intros)

lemma client_reachable_at:
  assumes "test_rowan post_recv d0 s0 = Some (cp0, d, t, s1)"
    and "unat (send_buf (client cp0)) + kBufferCnt * MESSAGE_SIZE \<le> 2 ^ 64"
    and "reachable (client_start cp0) (client_sys d t wc) x"
  obtains s f p where "client_at (send_buf (client cp0)) x s f p"
proof -
  have "reachable (client_begin (send_buf (client cp0))) (client_sys d t wc) x"
    using assms(3) by (rule reachable_mono) (rule test_rowan_begin [OF assms(1) _ assms(2)])
  then have "client_inv (send_buf (client cp0)) x" by (rule client_run.reachable_inv)
  then show thesis using that unfolding client_inv_def by blast
qed

lemma client_at_counts:
  assumes "client_at base (cp, n) s f p"
  shows "p \<le> f" "f \<le> s" "length (flight n) = s - f" "completed n = f - p" "s \<le> p + kBatchSize"
    and "cpc cp = Await \<Longrightarrow> s = p + kBatchSize" "cpc cp \<in> {Mark a, Send a} \<Longrightarrow> s < p + kBatchSize \<and> a = buf_slot base s"
  using assms by (auto simp: client_at_def kBatchSize_def split: if_splits)

section \<open>The connection\<close>

lemma conn_to_message: "conn_to (tc\<lparr>message := m\<rparr>) dir nid = conn_to tc dir nid"
  by (simp add: conn_to_def)

lemma iCon_SomeD:
  "iCon d t = Some tc \<Longrightarrow> 0 \<le> thread_id t \<and> nat (thread_id t) < length (thCon (dsm_node d)) \<and> tc = thCon (dsm_node d) ! nat (thread_id t)"
  unfolding iCon_def by (simp split: if_split_asm)

text \<open>On a node whose connections were built the thread finds the server.\<close>

lemma test_rowan_connected:
  assumes "creates_rc dev" "build_connections dev mp_srq d0 s = Some (d1, s')"
    and "dsm_mapping d0 = mk_RCMapping mc" "unat (machine_cnt (conf d0)) = unat mc" "unat (my_node_id d0) < unat mc"
    and "0 \<le> appID d1" "appID d1 < int kMaxNetThread"
    and "test_rowan post_recv d1 u = Some (cp0, d, t, u')"
  shows "dsm_send post d t a sz 0 sg n \<noteq> None"
proof -
  let ?t = "fresh_thread\<lparr>thread_id := appID d1\<rparr>"
  obtain tc where tc: "iCon d1 ?t = Some tc" "\<And>nid. conn_to tc (unat (target_dirID tc)) nid = None \<longleftrightarrow> \<not> unat nid < unat mc"
    using registered_connection [OF assms(1-5), of ?t] assms(6,7) by auto
  from assms(8) obtain sz where r: "register_thread post_recv sz d1 fresh_thread u = Some (d, t, u')"
    by (auto simp: test_rowan_def mk_RowanClient_def)
  have lt: "nat (appID d1) < length (thCon (dsm_node d1))" "0 \<le> appID d1"
    using iCon_SomeD [OF tc(1)] by simp_all
  have "iCon (d1\<lparr>appID := appID d1 + 1\<rparr>) ?t = Some tc" using tc(1) by (simp only: iCon_appID)
  with r obtain m where "d = set_iCon (d1\<lparr>appID := appID d1 + 1\<rparr>) ?t (tc\<lparr>message := m\<rparr>)" "thread_id t = appID d1"
    by (auto simp: register_thread_def fresh_thread_def Let_def split: prod.splits)
  then have "iCon d t = Some (tc\<lparr>message := m\<rparr>)" using lt by (simp add: iCon_def set_iCon_def)
  moreover have "conn_to (tc\<lparr>message := m\<rparr>) (unat (target_dirID (tc\<lparr>message := m\<rparr>))) 0 \<noteq> None"
  proof -
    have "unat (0 :: u16) < unat mc" using assms(5) by simp
    then show ?thesis using tc(2) [of 0] by (simp add: conn_to_message)
  qed
  ultimately show ?thesis by (auto simp: dsm_send_def)
qed

section \<open>A client of two nodes\<close>

text \<open>The registered memory of the demonstration node starts at address 0.\<close>

lemma demo_client:
  obtains d1 s' cp0 d t where "build_connections demo_device demo_mp_srq demo_ready () = Some (d1, s')"
    "test_rowan (\<lambda>b s. (0, s)) d1 () = Some (cp0, d, t, ())" "appID d1 = 0" "send_buf (client cp0) = 0" "cpc cp0 = Take"
proof -
  obtain d' s0 where "build_connections demo_device demo_mp_srq demo_dsm () = Some (d', s0)" using demo_build by blast
  then obtain d1 s' where b: "build_connections demo_device demo_mp_srq demo_ready () = Some (d1, s')"
    by (auto simp: build_connections_def demo_ready_def Let_def bind_eq_Some_conv)
  then have d1: "appID d1 = 0" "buf_addr (conf d1) = 0"
    by (auto simp: build_connections_def demo_ready_def demo_dsm_def mk_DSMConfig_def Let_def bind_eq_Some_conv)
  have c: "dsm_mapping demo_ready = mk_RCMapping 2" "unat (machine_cnt (conf demo_ready)) = unat (2 :: u16)"
    "unat (my_node_id demo_ready) < unat (2 :: u16)"
    by (simp_all add: demo_ready_def demo_dsm_def mk_DSMConfig_def mk_ClusterInfo_def)
  have t: "0 \<le> thread_id (fresh_thread\<lparr>thread_id := 0\<rparr>)" "thread_id (fresh_thread\<lparr>thread_id := 0\<rparr>) < int kMaxNetThread"
    by (simp_all add: kMaxNetThread_def)
  obtain tc where "iCon d1 (fresh_thread\<lparr>thread_id := 0\<rparr>) = Some tc"
    using registered_connection [OF demo_device_creates b c t] by blast
  then have "iCon (d1\<lparr>appID := 1\<rparr>) (fresh_thread\<lparr>thread_id := 0\<rparr>) = Some tc" by (simp only: iCon_appID)
  then have "\<exists>cp0 d t. test_rowan (\<lambda>b s. (0, s)) d1 () = Some (cp0, d, t, ()) \<and> send_buf (client cp0) = 0 \<and> cpc cp0 = Take"
    using d1 by (auto simp: test_rowan_def mk_RowanClient_def register_thread_def fresh_thread_def Let_def split: prod.splits)
  then show thesis using that b d1(1) by blast
qed

definition idle_nic :: client_nic where
  "idle_nic = \<lparr>cmem = (\<lambda>_. 7), flight = [], completed = 0, sent = []\<rparr>"

lemma demo_ready_facts:
  "dsm_mapping demo_ready = mk_RCMapping 2" "unat (machine_cnt (conf demo_ready)) = unat (2 :: u16)"
  "unat (my_node_id demo_ready) < unat (2 :: u16)"
  by (simp_all add: demo_ready_def demo_dsm_def mk_DSMConfig_def mk_ClusterInfo_def)

text \<open>The first message is taken, marked, sent and transmitted.\<close>

lemma demo_first_message:
  assumes "test_rowan post_recv d1 u = Some (cp0, d, t, u')" "\<And>a sz n. dsm_send post_rc d t a sz 0 True n \<noteq> None"
  shows "\<exists>cp n bs. reachable (client_start cp0) (client_sys d t wc) (cp, n) \<and> sent n = [bs]"
proof -
  let ?R = "reachable (client_start cp0) (client_sys d t wc)"
  have cp0: "cpc cp0 = Take" using assms(1) by (auto simp: test_rowan_def)
  obtain a c m where g: "get_send_buf (client cp0, cmem idle_nic) = (a, c, m)" by (cases "get_send_buf (client cp0, cmem idle_nic)")
  let ?c1 = "cp0\<lparr>cpc := Mark a, client := c\<rparr>" and ?n1 = "idle_nic\<lparr>cmem := m\<rparr>"
  let ?c2 = "?c1\<lparr>cpc := Send a\<rparr>" and ?n2 = "?n1\<lparr>cmem := m(a := 1)\<rparr>"
  obtain ok n3 where s: "dsm_send post_rc d t a (request_size (cmem ?n2) a) 0 True ?n2 = Some (ok, n3)"
    using assms(2) by (metis not_None_eq surj_pair)
  obtain w where n3: "n3 = ?n2\<lparr>flight := [w]\<rparr>"
    using dsm_send_flight [OF s] by (auto simp: idle_nic_def)
  have "?R (cp0, idle_nic)" by (rule reach_start) (simp add: client_start_def idle_nic_def)
  then have "?R (?c1, ?n1)" by (rule reach_step) (rule program, simp add: cp0 g)
  then have "?R (?c2, ?n2)" by (rule reach_step) (rule program, simp)
  then have "?R (after_send ?c2, n3)" by (rule reach_step) (rule program, use s in simp)
  moreover have "client_sys d t wc (after_send ?c2, n3) (after_send ?c2, n3\<lparr>flight := [], sent := sent n3 @ [message_at (cmem n3) w],
      completed := completed n3 + (if signaled w then 1 else 0)\<rparr>)" by (rule card, rule transmit.intros) (simp add: n3)
  ultimately have "?R (after_send ?c2, n3\<lparr>flight := [], sent := sent n3 @ [message_at (cmem n3) w],
      completed := completed n3 + (if signaled w then 1 else 0)\<rparr>)" by (rule reach_step)
  then show ?thesis by (intro exI) (auto simp: n3 idle_nic_def)
qed

section \<open>Properties\<close>

text \<open>
  C8. The client program is safe. In every reachable state of a client thread and its card at
  most six sends are unfinished and their buffers do not overlap each other or the buffer that
  is being filled, so that every message is transmitted as it was made: six bytes, the
  first of them 1 (which is what the server waits for) and the size 0.
\<close>

theorem client_program_safe:
  assumes "test_rowan post_recv d0 s0 = Some (cp0, d, t, s1)"
    and "unat (send_buf (client cp0)) + kBufferCnt * MESSAGE_SIZE \<le> 2 ^ 64"
    and "reachable (client_start cp0) (client_sys d t wc) (cp, n)"
  shows "length (flight n) \<le> kBatchSize
     \<and> (\<forall>j < length (flight n). \<forall>i < j. disjoint_bufs MESSAGE_SIZE (wr_addr (flight n ! i)) (wr_addr (flight n ! j)))
     \<and> (\<forall>a. cpc cp \<in> {Mark a, Send a} \<longrightarrow> (\<forall>w \<in> set (flight n). disjoint_bufs MESSAGE_SIZE (wr_addr w) a))
     \<and> (\<forall>bs \<in> set (sent n). length bs = 6 \<and> bs ! 0 = 1 \<and> bs ! 4 = 0 \<and> bs ! 5 = 0)"
proof -
  let ?b = "send_buf (client cp0)"
  obtain s f p where at: "client_at ?b (cp, n) s f p" by (rule client_reachable_at [OF assms])
  note cnt = client_at_counts [OF at]
  have wr: "wr_addr (flight n ! i) = buf_slot ?b (f + i)" if "i < length (flight n)" for i
    using at that by (auto simp: client_at_def request_wr_def)
  have "disjoint_bufs MESSAGE_SIZE (wr_addr (flight n ! i)) (wr_addr (flight n ! j))" if "j < length (flight n)" "i < j" for i j
    using buf_slots_disjoint [OF assms(2), of "f + i" "f + j"] that wr [of i] wr [of j] cnt by (simp add: kBatchSize_def kBufferCnt_def)
  moreover have "disjoint_bufs MESSAGE_SIZE (wr_addr w) a" if pc: "cpc cp \<in> {Mark a, Send a}" and w: "w \<in> set (flight n)" for a w
  proof -
    obtain i where i: "i < length (flight n)" "w = flight n ! i" using w by (auto simp: in_set_conv_nth)
    show ?thesis
      using buf_slots_disjoint [OF assms(2), of "f + i" s] cnt(1-5) cnt(7) [OF pc] i wr [of i] by (simp add: kBatchSize_def kBufferCnt_def)
  qed
  moreover have "length (flight n) \<le> kBatchSize" using cnt by simp
  moreover have "\<forall>bs \<in> set (sent n). length bs = 6 \<and> bs ! 0 = 1 \<and> bs ! 4 = 0 \<and> bs ! 5 = 0" using at by (simp add: client_at_def)
  ultimately show ?thesis by blast
qed

text \<open>
  C25. The client program never gets stuck. On a node of the cluster, in every reachable state
  the program can go on (in particular its sends find the connection to the server), or it
  waits for a completion and the card has a message to transmit.
\<close>

theorem client_program_goes_on:
  assumes "creates_rc dev" and "build_connections dev mp_srq d0 s = Some (d1, s')"
    and "dsm_mapping d0 = mk_RCMapping mc" and "unat (machine_cnt (conf d0)) = unat mc" and "unat (my_node_id d0) < unat mc"
    and "0 \<le> appID d1" and "appID d1 < int kMaxNetThread"
    and "test_rowan post_recv d1 u = Some (cp0, d, t, u')"
    and "unat (send_buf (client cp0)) + kBufferCnt * MESSAGE_SIZE \<le> 2 ^ 64"
    and "reachable (client_start cp0) (client_sys d t wc) (cp, n)"
  shows "client_step d t wc (cp, n) \<noteq> None \<or> cpc cp = Await \<and> (\<exists>n'. transmit n n')"
proof -
  obtain s f p where at: "client_at (send_buf (client cp0)) (cp, n) s f p" by (rule client_reachable_at [OF assms(8-10)])
  note cnt = client_at_counts [OF at]
  have send: "dsm_send post_rc d t a sz 0 True n \<noteq> None" for a sz by (rule test_rowan_connected [OF assms(1-8)])
  show ?thesis
  proof (cases "cpc cp")
    case Await
    show ?thesis
    proof (cases "completed n = 0")
      case True
      then have "flight n \<noteq> []" using cnt(1-5) cnt(6) [OF Await] by (auto simp: kBatchSize_def)
      then obtain w ws where "flight n = w # ws" by (cases "flight n") auto
      then show ?thesis using Await transmit.intros by blast
    qed (simp add: Await poll_rc_eq)
  qed (use send in \<open>auto simp: split: prod.splits\<close>)
qed

theorem client_program_safe_witness:
  "\<exists>d t cp0 cp n bs. reachable (client_start cp0) (client_sys d t success_wc) (cp, n) \<and> sent n = [bs]
     \<and> length bs = 6 \<and> bs ! 0 = 1 \<and> length (flight n) \<le> kBatchSize"
proof -
  obtain d1 s' cp0 d t where b: "build_connections demo_device demo_mp_srq demo_ready () = Some (d1, s')"
    and c: "test_rowan (\<lambda>b s. (0, s)) d1 () = Some (cp0, d, t, ())" "appID d1 = 0" "send_buf (client cp0) = 0"
    by (rule demo_client)
  have id: "0 \<le> appID d1" "appID d1 < int kMaxNetThread" using c(2) by (simp_all add: kMaxNetThread_def)
  obtain cp n bs where r: "reachable (client_start cp0) (client_sys d t success_wc) (cp, n)" "sent n = [bs]"
    using demo_first_message [OF c(1) test_rowan_connected [OF demo_device_creates b demo_ready_facts id c(1)]] by blast
  have "unat (send_buf (client cp0)) + kBufferCnt * MESSAGE_SIZE \<le> 2 ^ 64" by (simp add: c(3) kBufferCnt_def MESSAGE_SIZE_def)
  from client_program_safe [OF c(1) this r(1)] r(2)
  have "length bs = 6" "bs ! 0 = 1" "length (flight n) \<le> kBatchSize" by simp_all
  with r show ?thesis by blast
qed

theorem client_program_goes_on_witness:
  "\<exists>d t cp0 cp n. cpc cp = Take \<and> reachable (client_start cp0) (client_sys d t success_wc) (cp, n)
     \<and> client_step d t success_wc (cp, n) \<noteq> None"
proof -
  obtain d1 s' cp0 d t where b: "build_connections demo_device demo_mp_srq demo_ready () = Some (d1, s')"
    and c: "test_rowan (\<lambda>b s. (0, s)) d1 () = Some (cp0, d, t, ())" "appID d1 = 0" "send_buf (client cp0) = 0" "cpc cp0 = Take"
    by (rule demo_client)
  have id: "0 \<le> appID d1" "appID d1 < int kMaxNetThread" using c(2) by (simp_all add: kMaxNetThread_def)
  have room: "unat (send_buf (client cp0)) + kBufferCnt * MESSAGE_SIZE \<le> 2 ^ 64" by (simp add: c(3) kBufferCnt_def MESSAGE_SIZE_def)
  have r: "reachable (client_start cp0) (client_sys d t success_wc) (cp0, idle_nic)"
    by (rule reach_start) (simp add: client_start_def idle_nic_def)
  from client_program_goes_on [OF demo_device_creates b demo_ready_facts id c(1) room r] c(4)
  have "client_step d t success_wc (cp0, idle_nic) \<noteq> None" by simp
  with r c(4) show ?thesis by blast
qed

end
