(* ===== verification/Cluster_Start.thy ===== *)
theory Cluster_Start
  imports DSM
begin

text \<open>
  The start of a node in its cluster: \<open>run\<close> of the keeper (\<open>include/dsm/DSMKeeper.h\<close>) waits
  until all nodes have entered and connects this node to each of them and to itself. This
  theory joins the loop of \<open>Keeper\<close>, the exchange of records of \<open>DSM_Keeper\<close> and the transitions
  of \<open>Rdma_QP\<close>.
\<close>

section \<open>What the store holds\<close>

text \<open>The record that a node has stored for the node \<open>r\<close>.\<close>

definition cluster_record :: "u16 \<Rightarrow> node \<Rightarrow> ExchangeMeta" where
  "cluster_record r nd = localMeta (setDataToRemote r (initLocalMeta nd))"

text \<open>
  The nodes \<open>peer 0 \<dots> peer (n - 1)\<close> as their constructors build them; the address of a port has
  sixteen bytes.
\<close>

definition cluster :: "u16 \<Rightarrow> (nat \<Rightarrow> node) \<Rightarrow> bool" where
  "cluster n peer \<longleftrightarrow>
     (\<forall>b < unat n. node_ok n (peer b) \<and> my_id (peer b) = word_of_nat b \<and> 16 \<le> length (gid (th_ctx (thCon (peer b) ! 0))))"

text \<open>
  memcached while \<open>n\<close> nodes enter: \<open>num\<close> is the counter of entered nodes, which is read as a
  number and reaches \<open>n\<close> after at most \<open>left\<close> further reads; a set succeeds, and a get for the
  record of a peer returns when the peer has stored it. The nodes that act meanwhile may change
  the store in any other way; the device is not touched.
\<close>

definition cluster_store ::
  "('k \<times> 's) memcached \<Rightarrow> ('k \<Rightarrow> bool) \<Rightarrow> ('k \<Rightarrow> nat) \<Rightarrow> ('k \<Rightarrow> nat) \<Rightarrow> u16 \<Rightarrow> u16 \<Rightarrow> (nat \<Rightarrow> node) \<Rightarrow> bool" where
  "cluster_store mc ready num left n me peer \<longleftrightarrow>
     (\<forall>k s. ready k \<longrightarrow> num k \<le> unat n
        \<and> (\<exists>r k'. mc_get mc SERVER_NUM_KEY (k, s) = (r, k', s) \<and> ready k' \<and> num k \<le> num k'
             \<and> (r = None \<or> r = Some (ascii (to_string (num k'))))
             \<and> (r \<noteq> None \<and> num k' = unat n \<or> left k' < left k))
        \<and> (\<forall>b < unat n. b \<noteq> unat me \<longrightarrow>
             (\<forall>v. \<exists>k'. memSet mc (setKey me (word_of_nat b)) v (k, s) = Some (k', s)
                \<and> ready k' \<and> num k \<le> num k' \<and> left k' \<le> left k)
           \<and> (\<exists>k'. memGet mc (getKey me (word_of_nat b)) (k, s) = Some (meta_bytes (cluster_record me (peer b)), k', s)
                \<and> ready k' \<and> num k \<le> num k' \<and> left k' \<le> left k)))"

lemma cluster_store_get:
  assumes "cluster_store mc ready num left n me peer" "ready k"
  obtains r k' where "mc_get mc SERVER_NUM_KEY (k, s) = (r, k', s)" "ready k'" "num k \<le> num k'" "num k' \<le> unat n"
    "r = None \<or> r = Some (ascii (to_string (num k')))" "r \<noteq> None \<and> num k' = unat n \<or> left k' < left k"
  using assms unfolding cluster_store_def by metis

lemma cluster_store_exchange:
  assumes "cluster_store mc ready num left n me peer" "ready k" "b < unat n" "b \<noteq> unat me"
  obtains k1 k2 where "memSet mc (setKey me (word_of_nat b)) v (k, s) = Some (k1, s)"
    "memGet mc (getKey me (word_of_nat b)) (k1, s) = Some (meta_bytes (cluster_record me (peer b)), k2, s)"
    "ready k2" "num k \<le> num k2" "left k2 \<le> left k"
proof -
  obtain k1 where 1: "memSet mc (setKey me (word_of_nat b)) v (k, s) = Some (k1, s)" "ready k1" "num k \<le> num k1" "left k1 \<le> left k"
    using assms unfolding cluster_store_def by metis
  moreover obtain k2 where "memGet mc (getKey me (word_of_nat b)) (k1, s) = Some (meta_bytes (cluster_record me (peer b)), k2, s)"
    "ready k2" "num k1 \<le> num k2" "left k2 \<le> left k1"
    using assms(1,3,4) 1(2) unfolding cluster_store_def by metis
  ultimately show thesis using that [of k1 k2] by linarith
qed

section \<open>The queue pairs towards a peer\<close>

definition peer_nums :: "node \<Rightarrow> nat \<Rightarrow> u32 list" where
  "peer_nums nd b = qp_nums (dir_pairs nd (word_of_nat b) (localMeta nd) @ app_pairs nd (word_of_nat b) (localMeta nd))"

lemma qp_nums_fst: "map fst ps = map fst qs \<Longrightarrow> qp_nums ps = qp_nums qs"
proof (induction ps arbitrary: qs)
  case (Cons p ps)
  then obtain q qs' where "qs = q # qs'" "fst p = fst q" "map fst ps = map fst qs'" by (cases qs) auto
  then show ?case using Cons.IH [of qs'] by (cases p; cases q; cases "fst q") auto
qed simp

lemma pairs_numbers:
  assumes "thCon nd = thCon a" "dirCon nd = dirCon a"
  shows "qp_nums (dir_pairs nd (word_of_nat b) m @ app_pairs nd (word_of_nat b) m) = peer_nums a b"
  unfolding peer_nums_def using assms by (intro qp_nums_fst) (simp add: dir_pairs_def app_pairs_def case_prod_unfold)

lemma initLocalMeta_keeps [simp]:
  "my_id (initLocalMeta nd) = my_id nd" "thCon (initLocalMeta nd) = thCon nd" "dirCon (initLocalMeta nd) = dirCon nd"
  "remoteCon (initLocalMeta nd) = remoteCon nd"
  by (simp_all add: initLocalMeta_def)

lemma node_ok_cong: "my_id a = my_id b \<Longrightarrow> thCon a = thCon b \<Longrightarrow> dirCon a = dirCon b \<Longrightarrow> node_ok n a = node_ok n b"
  by (simp add: node_ok_def)

lemma connected_to_cong:
  assumes "my_id a = my_id a'" "thCon a = thCon a'" "dirCon a = dirCon a'"
    and "my_id b = my_id b'" "thCon b = thCon b'" "dirCon b = dirCon b'"
  shows "connected_to st dest n a b s = connected_to st dest n a' b' s"
  using assms by (simp add: connected_to_def)

text \<open>A connection only depends on the queue pairs towards the peer.\<close>

lemma connected_to_frame:
  assumes c: "connected_to st dest n a b s" and id: "my_id b = word_of_nat k"
    and f: "\<And>x. x \<in> set (peer_nums a k) \<Longrightarrow> st s' x = st s x \<and> dest s' x = dest s x"
  shows "connected_to st dest n a b s'"
proof -
  have n: "qp_num qp \<in> set (peer_nums a k)" if "t < kMaxNetThread" "d < NR_DIRECTORY"
    "qp_data (thCon a ! t) ! d ! unat (my_id b) = Some qp \<or> data2app (dirCon a ! d) ! t ! unat (my_id b) = Some qp" for t d qp
    unfolding peer_nums_def qp_nums_simps set_append Un_iff id [symmetric]
    using app_pairs_mem [OF that(2,1), of a "my_id b" "localMeta a"] dir_pairs_mem [OF that(2,1), of a "my_id b" "localMeta a"] that(3)
    by (metis qp_nums_mem)
  show ?thesis
    unfolding connected_to_def
  proof (intro allI impI conjI)
    fix t d assume td: "t < kMaxNetThread" "d < NR_DIRECTORY"
    show "\<exists>qp peer. qp_data (thCon a ! t) ! d ! unat (my_id b) = Some qp \<and> data2app (dirCon b ! d) ! t ! unat (my_id a) = Some peer
        \<and> st s' (qp_num qp) = IBV_QPS_RTS \<and> dest s' (qp_num qp) = qp_num peer" if r: "rc_target n (unat (my_id a)) t = d"
    proof -
      obtain qp peer where q: "qp_data (thCon a ! t) ! d ! unat (my_id b) = Some qp" "data2app (dirCon b ! d) ! t ! unat (my_id a) = Some peer"
        "st s (qp_num qp) = IBV_QPS_RTS" "dest s (qp_num qp) = qp_num peer"
        using c td r unfolding connected_to_def by blast
      with f [OF n [OF td disjI1 [OF q(1)]]] show ?thesis by simp
    qed
    show "\<exists>qp peer. data2app (dirCon a ! d) ! t ! unat (my_id b) = Some qp \<and> qp_data (thCon b ! t) ! d ! unat (my_id a) = Some peer
        \<and> st s' (qp_num qp) = IBV_QPS_RTS \<and> dest s' (qp_num qp) = qp_num peer" if r: "rc_target n (unat (my_id b)) t = d"
    proof -
      obtain qp peer where q: "data2app (dirCon a ! d) ! t ! unat (my_id b) = Some qp" "qp_data (thCon b ! t) ! d ! unat (my_id a) = Some peer"
        "st s (qp_num qp) = IBV_QPS_RTS" "dest s (qp_num qp) = qp_num peer"
        using c td r unfolding connected_to_def by blast
      with f [OF n [OF td disjI2 [OF q(1)]]] show ?thesis by simp
    qed
  qed
qed

lemma word_of_nat_less: "b < unat (n :: u16) \<Longrightarrow> unat (word_of_nat b :: u16) = b"
  using unsigned_less [of n, where 'a = nat] by (simp add: unsigned_of_nat take_bit_nat_eq_self_iff)

section \<open>The constructors build such nodes\<close>

lemma built_node_ok:
  assumes dev: "creates_rc dev" and bc: "build_connections dev mp_srq d s = Some (d1, s1)"
    and map: "dsm_mapping d = mk_RCMapping n" and mc: "unat (machine_cnt (conf d)) = unat n" and me: "unat (my_node_id d) < unat n"
    and id: "my_id (dsm_node d) = ucast (my_node_id d)"
  shows "node_ok n (dsm_node d1)"
proof -
  let ?f = "\<lambda>i. mk_ThreadConnection dev (ucast (my_node_id d)) (word_of_nat i) (buf_addr (conf d)) (buf_size (conf d))
      (machine_cnt (conf d)) (nic_name (conf d)) (mk_RCMapping n)"
  let ?g = "\<lambda>i. mk_DirectoryConnection dev mp_srq (word_of_nat i) (dsm_addr (conf d)) (dsm_size (conf d)) (machine_cnt (conf d))
      (buf_addr (conf d)) (buf_size (conf d)) (nic_name (conf d)) (mk_RCMapping n)"
  from bc obtain ts ds s2 where ts: "build_each ?f [0..<kMaxNetThread] s = Some (ts, s2)" and ds: "build_each ?g [0..<NR_DIRECTORY] s2 = Some (ds, s1)"
    and d1: "thCon (dsm_node d1) = ts" "dirCon (dsm_node d1) = ds" "my_id (dsm_node d1) = my_id (dsm_node d)"
    unfolding build_connections_def Let_def map bind_eq_Some_conv by auto
  note tn = build_each_nth [OF ts] and dn = build_each_nth [OF ds]
  have n: "unat (ucast (my_node_id d) :: u16) < unat n"
    using me unsigned_less [of n, where 'a = nat] by (simp add: unsigned_ucast_eq take_bit_nat_eq_self)
  have w: "unat (word_of_nat t :: u16) = t" if "t < kMaxNetThread" for t
    using that by (simp add: unsigned_of_nat take_bit_nat_eq_self kMaxNetThread_def)
  have th: "if rc_target n (unat (ucast (my_node_id d) :: u16)) t = j then rc_created (qp_data (ts ! t) ! j ! k) else qp_data (ts ! t) ! j ! k = None"
    if t: "t < kMaxNetThread" "j < NR_DIRECTORY" "k < unat n" for t j k
  proof -
    obtain u v where "?f t u = Some (ts ! t, v)" using tn t(1) by auto
    from mk_ThreadConnection_qps [OF dev this n _ mc t(2,3)] show ?thesis using w [OF t(1)] t(1) by simp
  qed
  have di: "if rc_target n k t = j then rc_created (data2app (ds ! j) ! t ! k) else data2app (ds ! j) ! t ! k = None"
    if t: "t < kMaxNetThread" "j < NR_DIRECTORY" "k < unat n" for t j k
  proof -
    obtain u v where g: "?g j u = Some (ds ! j, v)" using dn t(2) by auto
    have j: "unat (word_of_nat j :: u16) = j" using t(2) by (simp add: NR_DIRECTORY_def)
    have k: "unat (word_of_nat k :: u16) = k" using t(3) by (rule word_of_nat_less)
    from mk_DirectoryConnection_qps [OF dev g, of "word_of_nat k" "word_of_nat t"] show ?thesis
      unfolding get_qp_def w [OF t(1)] j k using t mc by simp
  qed
  show ?thesis using n tn th di id unfolding node_ok_def d1 by simp
qed

section \<open>Joining one peer after the other\<close>

text \<open>What \<open>RemoteConnection\<close> holds about a peer.\<close>

definition knows :: "ExchangeMeta \<Rightarrow> RemoteConnection \<Rightarrow> bool" where
  "knows m r \<longleftrightarrow> dsmBase r = ex_dsmBase m \<and> dsmRKey r = dirTh m \<and> appMessageQPN r = appUdQpn m
     \<and> length (appAh r) = kMaxNetThread"

text \<open>
  The node \<open>nd\<close>, which began as \<open>a\<close>, has been connected to the peers in \<open>C\<close>; its queue pairs
  towards the others are still in reset.
\<close>

definition joined ::
  "('s \<Rightarrow> u32 \<Rightarrow> ibv_qp_state) \<Rightarrow> ('s \<Rightarrow> u32 \<Rightarrow> u32) \<Rightarrow> u16 \<Rightarrow> node \<Rightarrow> (nat \<Rightarrow> node) \<Rightarrow> nat set \<Rightarrow> node \<Rightarrow> 's \<Rightarrow> bool" where
  "joined st dest n a peer C nd s \<longleftrightarrow>
     my_id nd = my_id a \<and> thCon nd = thCon a \<and> dirCon nd = dirCon a \<and> length (remoteCon nd) = unat n
   \<and> (\<forall>r. localMeta (setDataToRemote r nd) = cluster_record r a)
   \<and> (\<forall>b < unat n.
        if b \<in> C then connected_to st dest n a (peer b) s \<and> knows (cluster_record (my_id a) (peer b)) (remoteCon nd ! b)
        else \<forall>x \<in> set (peer_nums a b). st s x = IBV_QPS_RESET)"

definition numbers_distinct :: "u16 \<Rightarrow> node \<Rightarrow> bool" where
  "numbers_distinct n a \<longleftrightarrow> distinct (concat (map (peer_nums a) [0..<unat n]))"

lemma numbers_distinctD:
  assumes "numbers_distinct n a" "b < unat n"
  shows "distinct (peer_nums a b)" and "c < unat n \<Longrightarrow> c \<noteq> b \<Longrightarrow> set (peer_nums a c) \<inter> set (peer_nums a b) = {}"
proof -
  let ?xs = "map (peer_nums a) [0..<unat n]"
  have d: "distinct (concat ?xs)" using assms(1) by (simp add: numbers_distinct_def)
  show "distinct (peer_nums a b)" using d assms(2) by (auto simp: distinct_concat_iff)
  assume c: "c < unat n" "c \<noteq> b"
  have "distinct (concat (map f xs)) \<Longrightarrow> distinct xs \<Longrightarrow> i \<in> set xs \<Longrightarrow> j \<in> set xs \<Longrightarrow> i \<noteq> j \<Longrightarrow> set (f i) \<inter> set (f j) = {}"
    for f :: "nat \<Rightarrow> u32 list" and xs i j
    by (induction xs) auto
  from this [OF d] show "set (peer_nums a c) \<inter> set (peer_nums a b) = {}" using c assms(2) by simp
qed

lemma record_of_update:
  "localMeta (setDataToRemote r (nd\<lparr>remoteCon := x\<rparr>)) = localMeta (setDataToRemote r nd)"
  "localMeta (setDataToRemote r (setDataToRemote r' nd)) = localMeta (setDataToRemote r nd)"
  by (simp_all add: setDataToRemote_def)

lemma cluster_record_wf: "cluster n peer \<Longrightarrow> b < unat n \<Longrightarrow> meta_wf (cluster_record r (peer b))"
  unfolding cluster_record_def by (intro initLocalMeta_wf) (simp add: cluster_def)

lemma setDataFromRemote_joins:
  assumes v: "verbs_modify (dev_modify_qp dev) st dest" and ah: "makes_ahs dev st dest"
    and cl: "cluster n peer" and i: "i < unat n" and dist: "numbers_distinct n (peer i)"
    and j: "joined st dest n (peer i) peer C nd s" and b: "b < unat n" "b \<notin> C"
  shows "\<exists>nd' s'. setDataFromRemote dev (word_of_nat b) (cluster_record (word_of_nat i) (peer b)) nd s = Some (nd', s')
     \<and> joined st dest n (peer i) peer (insert b C) nd' s'"
proof -
  let ?a = "peer i" and ?b = "initLocalMeta (peer b)" and ?m = "cluster_record (word_of_nat i) (peer b)"
  have id: "my_id nd = word_of_nat i" "my_id ?a = word_of_nat i" "my_id (peer b) = word_of_nat b"
    using j cl i b(1) by (simp_all add: joined_def cluster_def)
  have th: "thCon nd = thCon ?a" "dirCon nd = dirCon ?a" "my_id nd = my_id ?a" using j by (simp_all add: joined_def)
  have ok: "node_ok n nd" "node_ok n ?b"
    using node_ok_cong [OF th(3,1,2)] node_ok_cong [of ?b "peer b"] cl i b(1) by (auto simp: cluster_def)
  have m: "?m = localMeta (setDataToRemote (my_id nd) ?b)" by (simp add: cluster_record_def id)
  have ns: "qp_nums (dir_pairs nd (my_id ?b) ?m @ app_pairs nd (my_id ?b) ?m) = peer_nums ?a b"
    using pairs_numbers [OF th(1,2), of b ?m] id(3) by simp
  have reset: "\<forall>x \<in> set (peer_nums ?a b). st s x = IBV_QPS_RESET" using j b by (simp add: joined_def)
  from setDataFromRemote_connects [OF v ah ok m, unfolded ns, OF numbers_distinctD(1) [OF dist b(1)] reset]
  obtain ahs s' where s': "setDataFromRemote dev (my_id ?b) ?m nd s =
       Some (nd\<lparr>remoteCon := (remoteCon nd)[unat (my_id ?b) := (remoteCon nd ! unat (my_id ?b))\<lparr>dsmBase := ex_dsmBase ?m,
         dsmRKey := dirTh ?m, appMessageQPN := appUdQpn ?m, appAh := ahs\<rparr>]\<rparr>, s')"
    and ahs: "length ahs = kMaxNetThread" and con: "connected_to st dest n nd ?b s'"
    and frame: "\<And>x. x \<notin> set (peer_nums ?a b) \<Longrightarrow> st s' x = st s x \<and> dest s' x = dest s x" by blast
  let ?r = "(remoteCon nd ! b)\<lparr>dsmBase := ex_dsmBase ?m, dsmRKey := dirTh ?m, appMessageQPN := appUdQpn ?m, appAh := ahs\<rparr>"
  let ?nd = "nd\<lparr>remoteCon := (remoteCon nd)[b := ?r]\<rparr>"
  have ub: "unat (my_id ?b) = b" using id(3) word_of_nat_less [OF b(1)] by simp
  have run: "setDataFromRemote dev (word_of_nat b) ?m nd s = Some (?nd, s')" using s' ub id(3) by simp
  have len: "length (remoteCon nd) = unat n" using j by (simp add: joined_def)
  have "joined st dest n ?a peer (insert b C) ?nd s'"
    unfolding joined_def
  proof (intro conjI allI impI)
    show "localMeta (setDataToRemote r ?nd) = cluster_record r ?a" for r
      using j by (simp add: joined_def record_of_update)
    fix c assume c: "c < unat n"
    have f: "st s' x = st s x \<and> dest s' x = dest s x" if "x \<in> set (peer_nums ?a c)" "c \<noteq> b" for x
      using frame numbers_distinctD(2) [OF dist b(1) c that(2)] that(1) by blast
    show "if c \<in> insert b C then connected_to st dest n ?a (peer c) s' \<and> knows (cluster_record (my_id ?a) (peer c)) (remoteCon ?nd ! c)
        else \<forall>x \<in> set (peer_nums ?a c). st s' x = IBV_QPS_RESET"
    proof (cases "c = b")
      case True
      have "connected_to st dest n ?a (peer b) s'"
        using con connected_to_cong [OF th(3,1,2), of ?b "peer b" st dest n s'] by simp
      then show ?thesis using True len b(1) ahs id by (simp add: knows_def)
    next
      case False
      have old: "if c \<in> C then connected_to st dest n ?a (peer c) s \<and> knows (cluster_record (my_id ?a) (peer c)) (remoteCon nd ! c)
          else \<forall>x \<in> set (peer_nums ?a c). st s x = IBV_QPS_RESET" using j c by (simp add: joined_def)
      have "my_id (peer c) = word_of_nat c" using cl c by (simp add: cluster_def)
      then have "connected_to st dest n ?a (peer c) s' " if "connected_to st dest n ?a (peer c) s"
        using connected_to_frame [OF that] f False by blast
      then show ?thesis using old f False by auto
    qed
  qed (use th len in simp_all)
  with run show ?thesis by blast
qed

lemma joined_setDataToRemote:
  "joined st dest n a peer C nd s \<Longrightarrow> joined st dest n a peer C (setDataToRemote r nd) s"
  by (simp add: joined_def record_of_update) (simp add: setDataToRemote_def)

section \<open>The loop over the nodes\<close>

lemma connectNode_joins:
  assumes v: "verbs_modify (dev_modify_qp dev) st dest" and ah: "makes_ahs dev st dest"
    and cl: "cluster n peer" and i: "i < unat n" and dist: "numbers_distinct n (peer i)"
    and store: "cluster_store mc ready num left n (word_of_nat i) peer" and k: "ready k"
    and j: "joined st dest n (peer i) peer C nd s" and b: "b < unat n" "b \<notin> C" "b \<noteq> i"
  shows "\<exists>nd' k' s'. connectNode mc dev (word_of_nat b) nd (k, s) = Some (nd', k', s') \<and> ready k' \<and> num k \<le> num k' \<and> left k' \<le> left k
     \<and> joined st dest n (peer i) peer (insert b C) nd' s'"
proof -
  let ?nd = "setDataToRemote (word_of_nat b) nd" and ?m = "cluster_record (word_of_nat i) (peer b)"
  have "my_id nd = word_of_nat i" using j cl i by (simp add: joined_def cluster_def)
  moreover have "b \<noteq> unat (word_of_nat i :: u16)" using b(3) word_of_nat_less [OF i] by simp
  from cluster_store_exchange [OF store k b(1) this] obtain k1 k2 where
    "memSet mc (setKey (word_of_nat i) (word_of_nat b)) (meta_bytes (localMeta ?nd)) (k, s) = Some (k1, s)"
    "memGet mc (getKey (word_of_nat i) (word_of_nat b)) (k1, s) = Some (meta_bytes ?m, k2, s)"
    and k2: "ready k2" "num k \<le> num k2" "left k2 \<le> left k" by blast
  moreover obtain nd' s' where "setDataFromRemote dev (word_of_nat b) ?m ?nd s = Some (nd', s')"
    "joined st dest n (peer i) peer (insert b C) nd' s'"
    using setDataFromRemote_joins [OF v ah cl i dist joined_setDataToRemote [OF j] b(1,2)] by blast
  ultimately show ?thesis
    using meta_of_meta_bytes [OF cluster_record_wf [OF cl b(1)]] by (simp add: connectNode_def)
qed

lemma connect_new_joins:
  assumes v: "verbs_modify (dev_modify_qp dev) st dest" and ah: "makes_ahs dev st dest"
    and cl: "cluster n peer" and i: "i < unat n" and dist: "numbers_distinct n (peer i)"
    and store: "cluster_store mc ready num left n (word_of_nat i) peer"
    and k: "ready k" and j: "joined st dest n (peer i) peer ({..<c} - {i}) nd s" and b: "c + d \<le> unat n"
  shows "\<exists>nd' k' s'. connect_new (\<lambda>k (nd, w). connectNode mc dev k nd w) (word_of_nat i) [c..<c + d] (nd, k, s) = Some (nd', k', s')
     \<and> ready k' \<and> num k \<le> num k' \<and> left k' \<le> left k \<and> joined st dest n (peer i) peer ({..<c + d} - {i}) nd' s'"
  using k j b
proof (induction d arbitrary: c nd k s)
  case (Suc d)
  let ?cn = "connect_new (\<lambda>k (nd, w). connectNode mc dev k nd w) (word_of_nat i)"
  have up: "[c..<c + Suc d] = c # [Suc c..<Suc c + d]" by (simp add: upt_conv_Cons del: upt_Suc)
  show ?case
  proof (cases "c = i")
    case True
    then have "{..<Suc c} - {i} = {..<c} - {i}" by auto
    with Suc.prems(2) have "joined st dest n (peer i) peer ({..<Suc c} - {i}) nd s" by simp
    from Suc.IH [OF Suc.prems(1) this] Suc.prems(3) show ?thesis
      unfolding up using True word_of_nat_less [OF i] by (simp del: upt_Suc)
  next
    case False
    then have "insert c ({..<c} - {i}) = {..<Suc c} - {i}" by auto
    moreover have "c < unat n" "c \<notin> {..<c} - {i}" using Suc.prems(3) by simp_all
    ultimately obtain nd1 k1 s1 where 1: "connectNode mc dev (word_of_nat c) nd (k, s) = Some (nd1, k1, s1)"
      "ready k1" "num k \<le> num k1" "left k1 \<le> left k" "joined st dest n (peer i) peer ({..<Suc c} - {i}) nd1 s1"
      using connectNode_joins [OF v ah cl i dist store Suc.prems(1,2) _ _ False] by metis
    from Suc.IH [OF 1(2,5)] Suc.prems(3) obtain nd' k' s' where
      "?cn [Suc c..<Suc c + d] (nd1, k1, s1) = Some (nd', k', s')" "ready k'" "num k1 \<le> num k'" "left k' \<le> left k1"
      "joined st dest n (peer i) peer ({..<Suc c + d} - {i}) nd' s'" by auto
    then show ?thesis
      unfolding up using 1 False word_of_nat_less [OF i] by (auto simp del: upt_Suc)
  qed
qed auto

lemma serverConnect_joins:
  assumes v: "verbs_modify (dev_modify_qp dev) st dest" and ah: "makes_ahs dev st dest"
    and cl: "cluster n peer" and i: "i < unat n" and dist: "numbers_distinct n (peer i)"
    and store: "cluster_store mc ready num left n (word_of_nat i) peer"
    and kp: "maxServer kp = ucast n" "myNodeID kp = word_of_nat i" "unat (curServer kp) \<le> num k"
    and k: "ready k" and j: "joined st dest n (peer i) peer ({..<unat (curServer kp)} - {i}) nd s"
  shows "\<exists>kp' nd' k' s'. serverConnect (with_node mc) (\<lambda>k (nd, w). connectNode mc dev k nd w) kp (nd, k, s) = Some (kp', nd', k', s')
     \<and> ready k' \<and> joined st dest n (peer i) peer ({..<unat n} - {i}) nd' s'"
  using kp k j
proof (induction "left k" arbitrary: kp nd k s rule: less_induct)
  case less
  let ?sc = "serverConnect (with_node mc) (\<lambda>k (nd, w). connectNode mc dev k nd w)"
  have max: "unat (maxServer kp) = unat n" using less.prems(1) by (simp add: unsigned_ucast_eq take_bit_nat_eq_self)
  have stop: "?sc q x = Some (q, x)" if "unat (curServer q) = unat n" "maxServer q = maxServer kp" for q x
    by (subst serverConnect.simps) (simp add: that max)
  obtain r k1 where g: "mc_get mc SERVER_NUM_KEY (k, s) = (r, k1, s)" "ready k1" "num k \<le> num k1" "num k1 \<le> unat n"
    "r = None \<or> r = Some (ascii (to_string (num k1)))" "r \<noteq> None \<and> num k1 = unat n \<or> left k1 < left k"
    by (rule cluster_store_get [OF store less.prems(4)])
  show ?case
  proof (cases "unat (curServer kp) < unat n")
    case False
    then have "unat (curServer kp) = unat n" using less.prems(3) g(3,4) by simp
    then show ?thesis using stop [of kp] less.prems(4,5) by auto
  next
    case lt: True
    show ?thesis
    proof (cases r)
      case None
      then have "?sc kp (nd, k, s) = ?sc kp (nd, k1, s)"
        by (subst serverConnect.simps) (simp add: lt max with_node_def on_world_def g(1))
      moreover have "left k1 < left k" "unat (curServer kp) \<le> num k1" using g None less.prems(3) by auto
      ultimately show ?thesis using less.hyps [OF _ less.prems(1,2) _ g(2) less.prems(5)] by simp
    next
      case (Some bs)
      define c where "c = unat (curServer kp)"
      let ?kp = "kp\<lparr>curServer := ucast (server_num bs)\<rparr>"
      have "num k1 < 2 ^ 16" using g(4) unsigned_less [of n, where 'a = nat] by simp
      then have bs: "unat (server_num bs) = num k1" "unat (curServer ?kp) = num k1"
        using Some g(5) server_num_value by auto
      have le: "c + (num k1 - c) = num k1" using less.prems(3) g(3) c_def by simp
      obtain nd2 k2 s2 where 2: "connect_new (\<lambda>k (nd, w). connectNode mc dev k nd w) (word_of_nat i) [c..<num k1] (nd, k1, s) = Some (nd2, k2, s2)"
        "ready k2" "num k1 \<le> num k2" "left k2 \<le> left k1" "joined st dest n (peer i) peer ({..<num k1} - {i}) nd2 s2"
        using connect_new_joins [OF v ah cl i dist store g(2), of c nd s "num k1 - c"] less.prems(5) g(4) le by (auto simp: c_def)
      have step: "?sc kp (nd, k, s) = ?sc ?kp (nd2, k2, s2)"
        by (subst serverConnect.simps) (use lt max 2(1) bs(1) less.prems(2) Some in \<open>simp add: with_node_def on_world_def g(1) c_def\<close>)
      show ?thesis
      proof (cases "num k1 = unat n")
        case True
        then show ?thesis using step stop [of ?kp] bs(2) 2(2,5) by auto
      next
        case False
        then have "left k2 < left k" using g(6) 2(4) by simp
        from less.hyps [OF this, of ?kp nd2 s2] less.prems(1,2) 2 bs(2) show ?thesis unfolding step by simp
      qed
    qed
  qed
qed

section \<open>Properties\<close>

text \<open>
  C11. A starting node reaches the whole cluster. When the \<open>n\<close> nodes of a cluster enter and store
  their records, \<open>run\<close> of the keeper of node \<open>i\<close> returns, however long it has to wait for the
  others. Then every queue pair of the node towards every node, itself included, is ready to
  send to its partner, and the node knows each node's memory, keys and message queue pairs.
\<close>

theorem keeper_run_connects_cluster:
  assumes "verbs_modify (dev_modify_qp dev) st dest" and "makes_ahs dev st dest"
    and "cluster n peer" and "i < unat n" and "numbers_distinct n (peer i)"
    and "cluster_store mc ready num left n (word_of_nat i) peer" and "ready k"
    and "\<forall>b < unat n. \<forall>x \<in> set (peer_nums (peer i) b). st s x = IBV_QPS_RESET"
    and "length (remoteCon (peer i)) = unat n"
    and "maxServer kp = ucast n" and "myNodeID kp = word_of_nat i" and "curServer kp = 0"
  shows "\<exists>nd k' s'. keeper_run mc dev kp (peer i) (k, s) = Some (nd, k', s')
     \<and> (\<forall>b < unat n. connected_to st dest n (peer i) (peer b) s'
          \<and> knows (cluster_record (word_of_nat i) (peer b)) (remoteCon nd ! b))"
proof -
  have id: "my_id (peer i) = word_of_nat i" using assms(3,4) by (simp add: cluster_def)
  have j0: "joined st dest n (peer i) peer ({..<unat (curServer kp)} - {i}) (initLocalMeta (peer i)) s"
    using assms(8,9,12) by (simp add: joined_def cluster_record_def)
  obtain kp' nd1 k1 s1 where 1:
    "serverConnect (with_node mc) (\<lambda>k (nd, w). connectNode mc dev k nd w) kp (initLocalMeta (peer i), k, s) = Some (kp', nd1, k1, s1)"
    "joined st dest n (peer i) peer ({..<unat n} - {i}) nd1 s1"
    using serverConnect_joins [OF assms(1-6) assms(10,11) _ assms(7) j0] assms(12) by auto
  let ?me = "word_of_nat i :: u16"
  have me: "my_id nd1 = ?me" "localMeta (setDataToRemote ?me nd1) = cluster_record ?me (peer i)"
    using 1(2) id by (simp_all add: joined_def)
  obtain nd s' where "setDataFromRemote dev ?me (cluster_record ?me (peer i)) (setDataToRemote ?me nd1) s1 = Some (nd, s')"
    and j: "joined st dest n (peer i) peer (insert i ({..<unat n} - {i})) nd s'"
    using setDataFromRemote_joins [OF assms(1-5) joined_setDataToRemote [OF 1(2)] assms(4)] by blast
  then have "keeper_run mc dev kp (peer i) (k, s) = Some (nd, k1, s')"
    by (simp add: keeper_run_def 1(1) connectMySelf_def me)
  moreover have "insert i ({..<unat n} - {i}) = {..<unat n}" using assms(4) by auto
  ultimately show ?thesis using j id by (auto simp: joined_def)
qed

section \<open>A cluster of two nodes\<close>

definition demo_peer :: "nat \<Rightarrow> node" where
  "demo_peer b = (demo_node (word_of_nat b))\<lparr>remoteCon :=
     replicate 2 \<lparr>dsmBase = 0, dsmRKey = [], appMessageQPN = [], appAh = []\<rparr>\<rparr>"

lemma demo_cluster: "cluster 2 demo_peer"
proof -
  have "node_ok 2 (demo_peer b) \<and> my_id (demo_peer b) = word_of_nat b \<and> 16 \<le> length (gid (th_ctx (thCon (demo_peer b) ! 0)))"
    if "b < 2" for b
  proof -
    have "(word_of_nat b :: u16) < 2" using that by (cases "b = 0") (auto simp: less_Suc_eq numeral_2_eq_2)
    then have "node_ok 2 (demo_peer b)"
      using demo_node_ok node_ok_cong [of "demo_peer b" "demo_node (word_of_nat b)"] by (simp add: demo_peer_def)
    then show ?thesis by (simp add: demo_peer_def demo_node_def demo_thread_def demo_ctx_def kMaxNetThread_def upt_rec)
  qed
  then show ?thesis by (simp add: cluster_def)
qed

text \<open>The numbers of the queue pairs towards node \<open>b\<close>.\<close>

definition demo_nums :: "nat \<Rightarrow> nat list" where
  "demo_nums b = map (\<lambda>t. 2 * t + 101 + b) [0..<kMaxNetThread] @ map (\<lambda>t. 2 * t + 1 + b) [0..<kMaxNetThread]"

lemma demo_peer_nums:
  assumes "b < 2"
  shows "peer_nums (demo_peer i) b = map word_of_nat (demo_nums b)"
proof -
  let ?nd = "demo_peer i" and ?q = "\<lambda>k t. \<lparr>qp_num = word_of_nat (2 * t + k + b), qp_type = IBV_QPT_RC\<rparr>"
  have b: "b = 0 \<or> b = 1" using assms by auto
  have ub: "unat (word_of_nat b :: u16) = b" using b by auto
  have d: "dir_pairs ?nd (word_of_nat b) m = map (\<lambda>t. (data2app (dirCon ?nd ! 0) ! t ! b,
      dir_ctx (dirCon ?nd ! 0), appRcQpn2dir m ! t ! 0)) [0..<kMaxNetThread]" for m
    by (simp add: dir_pairs_def NR_DIRECTORY_def comp_def ub)
  have one: "concat (map (\<lambda>i. [(i, 0)]) xs) = map (\<lambda>i. (i, 0 :: nat)) xs" for xs :: "nat list"
    by (induction xs) simp_all
  have a: "app_pairs ?nd (word_of_nat b) m = map (\<lambda>t. (qp_data (thCon ?nd ! t) ! 0 ! b,
      th_ctx (thCon ?nd ! t), dirRcQpn2app m ! 0 ! t)) [0..<kMaxNetThread]" for m
    using one by (simp add: app_pairs_def NR_DIRECTORY_def product_concat_map comp_def ub)
  have "qp_nums (dir_pairs ?nd (word_of_nat b) m) = map (\<lambda>t. qp_num (?q 101 t)) [0..<kMaxNetThread]" for m
    unfolding d by (rule qp_nums_map) (use b in \<open>auto simp: demo_peer_def demo_node_def demo_qp_def\<close>)
  moreover have "qp_nums (app_pairs ?nd (word_of_nat b) m) = map (\<lambda>t. qp_num (?q 1 t)) [0..<kMaxNetThread]" for m
    unfolding a by (rule qp_nums_map) (use b in \<open>auto simp: demo_peer_def demo_node_def demo_thread_def demo_qp_def\<close>)
  ultimately show ?thesis unfolding peer_nums_def qp_nums_simps by (simp add: demo_nums_def comp_def)
qed

lemma demo_numbers_distinct: "numbers_distinct 2 (demo_peer i)"
proof -
  have d: "distinct (demo_nums 0 @ demo_nums 1)"
    by (auto simp: demo_nums_def distinct_map inj_on_def kMaxNetThread_def) presburger+
  have lt: "\<forall>x \<in> set (demo_nums 0 @ demo_nums 1). x < 2 ^ 32" by (auto simp: demo_nums_def kMaxNetThread_def)
  have u: "unat (word_of_nat x :: u32) = x" if "x < 2 ^ 32" for x
    using that by (simp add: unsigned_of_nat take_bit_nat_eq_self)
  have "inj_on (word_of_nat :: nat \<Rightarrow> u32) (set (demo_nums 0 @ demo_nums 1))"
    by (rule inj_onI) (metis lt u)
  with d have "distinct (map (word_of_nat :: nat \<Rightarrow> u32) (demo_nums 0 @ demo_nums 1))" unfolding distinct_map by blast
  then show ?thesis by (simp add: numbers_distinct_def upt_rec demo_peer_nums)
qed

text \<open>A store in which both nodes have entered and node 1 has stored its record.\<close>

definition demo_full :: "string \<Rightarrow> u8 list option" where
  "demo_full = [SERVER_NUM_KEY \<mapsto> ascii (to_string 2), setKey 1 0 \<mapsto> meta_bytes (cluster_record 0 (demo_peer 1))]"

lemma demo_cluster_store:
  "cluster_store demo_store (\<lambda>kv. kv SERVER_NUM_KEY = demo_full SERVER_NUM_KEY \<and> kv (setKey 1 0) = demo_full (setKey 1 0))
     (\<lambda>_. 2) (\<lambda>_. 0) 2 0 demo_peer"
proof -
  have keys: "setKey 0 1 \<noteq> setKey 1 0" "setKey 0 1 \<noteq> SERVER_NUM_KEY" "SERVER_NUM_KEY \<noteq> setKey 1 0" "getKey 0 1 = setKey 1 0"
    by (simp_all add: setKey_def getKey_def SERVER_NUM_KEY_def to_string.simps digit_def)
  have set: "memSet demo_store k v (kv, s) = Some (kv(k \<mapsto> v), s)" for k v kv and s :: 'a
    unfolding memSet_def by (subst retry.simps) (simp add: demo_store_def)
  have get: "kv k = Some v \<Longrightarrow> memGet demo_store k (kv, s) = Some (v, kv, s)" for k v kv and s :: 'a
    unfolding memGet_def by (subst retry.simps) (simp add: demo_store_def)
  have full: "demo_full SERVER_NUM_KEY = Some (ascii (to_string 2))" "demo_full (setKey 1 0) = Some (meta_bytes (cluster_record 0 (demo_peer 1)))"
    using keys by (simp_all add: demo_full_def)
  have cnt: "mc_get demo_store SERVER_NUM_KEY (kv, s) = (kv SERVER_NUM_KEY, kv, s)" for kv and s :: 'a by (simp add: demo_store_def)
  show ?thesis
    unfolding cluster_store_def
  proof (intro allI impI conjI)
    fix kv :: "string \<Rightarrow> u8 list option" and s :: 'a
    let ?ready = "\<lambda>kv. kv SERVER_NUM_KEY = demo_full SERVER_NUM_KEY \<and> kv (setKey 1 0) = demo_full (setKey 1 0)"
    assume R: "?ready kv"
    show "\<exists>r k'. mc_get demo_store SERVER_NUM_KEY (kv, s) = (r, k', s) \<and> ?ready k' \<and> (2 :: nat) \<le> 2
        \<and> (r = None \<or> r = Some (ascii (to_string 2))) \<and> (r \<noteq> None \<and> 2 = unat (2 :: u16) \<or> (0 :: nat) < 0)"
      using R by (simp add: cnt full)
    fix b assume "b < unat (2 :: u16)" "b \<noteq> unat (0 :: u16)"
    then have b: "b = 1" by simp
    show "\<exists>k'. memSet demo_store (setKey 0 (word_of_nat b)) v (kv, s) = Some (k', s) \<and> ?ready k' \<and> (2 :: nat) \<le> 2 \<and> (0 :: nat) \<le> 0" for v
      using R keys by (simp add: b set)
    show "\<exists>k'. memGet demo_store (getKey 0 (word_of_nat b)) (kv, s) = Some (meta_bytes (cluster_record 0 (demo_peer b)), k', s)
        \<and> ?ready k' \<and> (2 :: nat) \<le> 2 \<and> (0 :: nat) \<le> 0"
      using R keys full(2) get [of kv "setKey 1 0"] by (simp add: b)
  qed simp
qed

theorem keeper_run_connects_cluster_witness:
  "\<exists>nd kv s'. keeper_run demo_store demo_cluster_device (mk_Keeper 2) (demo_peer 0) (demo_full, \<lambda>_. (IBV_QPS_RESET, 0)) = Some (nd, kv, s')
     \<and> connected_to (\<lambda>s n. fst (s n)) (\<lambda>s n. snd (s n)) 2 (demo_peer 0) (demo_peer 1) s'
     \<and> appMessageQPN (remoteCon nd ! 1) = replicate kMaxNetThread 9"
proof -
  have verbs: "verbs_modify (dev_modify_qp demo_cluster_device) (\<lambda>s n. fst (s n)) (\<lambda>s n. snd (s n))"
    using demo_modify_verbs by (simp add: demo_cluster_device_def)
  have ahs: "makes_ahs demo_cluster_device (\<lambda>s n. fst (s n)) (\<lambda>s n. snd (s n))"
    by (simp add: makes_ahs_def demo_cluster_device_def demo_device_def)
  have facts: "length (remoteCon (demo_peer 0)) = unat (2 :: u16)" "maxServer (mk_Keeper 2) = ucast (2 :: u16)"
    "myNodeID (mk_Keeper 2) = word_of_nat 0" "curServer (mk_Keeper 2) = 0" "0 < unat (2 :: u16)"
    by (simp_all add: demo_peer_def mk_Keeper_def)
  have store: "cluster_store demo_store (\<lambda>kv. kv SERVER_NUM_KEY = demo_full SERVER_NUM_KEY \<and> kv (setKey 1 0) = demo_full (setKey 1 0))
     (\<lambda>_. 2) (\<lambda>_. 0) 2 (word_of_nat 0) demo_peer" using demo_cluster_store by simp
  have "\<exists>nd kv s'. keeper_run demo_store demo_cluster_device (mk_Keeper 2) (demo_peer 0) (demo_full, \<lambda>_. (IBV_QPS_RESET, 0)) = Some (nd, kv, s')
     \<and> (\<forall>b < unat (2 :: u16). connected_to (\<lambda>s n. fst (s n)) (\<lambda>s n. snd (s n)) 2 (demo_peer 0) (demo_peer b) s'
          \<and> knows (cluster_record (word_of_nat 0) (demo_peer b)) (remoteCon nd ! b))"
    by (rule keeper_run_connects_cluster [OF verbs ahs demo_cluster facts(5) demo_numbers_distinct store _ _ facts(1-4)]) simp_all
  then obtain nd kv s' where run: "keeper_run demo_store demo_cluster_device (mk_Keeper 2) (demo_peer 0) (demo_full, \<lambda>_. (IBV_QPS_RESET, 0)) = Some (nd, kv, s')"
    and all: "\<And>b. b < unat (2 :: u16) \<Longrightarrow> connected_to (\<lambda>s n. fst (s n)) (\<lambda>s n. snd (s n)) 2 (demo_peer 0) (demo_peer b) s'
        \<and> knows (cluster_record (word_of_nat 0) (demo_peer b)) (remoteCon nd ! b)" by blast
  have "appUdQpn (cluster_record (word_of_nat 0) (demo_peer 1)) = replicate kMaxNetThread 9"
    by (intro nth_equalityI) (simp_all add: cluster_record_def setDataToRemote_def initLocalMeta_def demo_peer_def demo_node_def
        demo_thread_def demo_msg_def)
  with run all [of 1] show ?thesis by (auto simp: knows_def)
qed

end
