(* ===== verification/Mailbox.thy ===== *)
theory Mailbox
  imports Rowan_Prelude
begin

text \<open>
  A mailbox in two directions, the abstract side of a message connection: what is sent waits
  until it is carried away, what has landed waits until it is taken, first in first out. The
  locale \<open>mailbox\<close> is the contract by which a system with such events implements it, and what
  its runs then have done.
\<close>

datatype ('d, 'm) mail_event = Sent 'd | Carried 'd | Landed 'm | Taken 'm

fun mail_moves :: "('d, 'm) mail_event \<Rightarrow> 'd list \<times> 'm list \<Rightarrow> 'd list \<times> 'm list \<Rightarrow> bool" where
  "mail_moves (Sent p) (ps, qs) b \<longleftrightarrow> b = (ps @ [p], qs)"
| "mail_moves (Carried p) (ps, qs) b \<longleftrightarrow> ps = p # fst b \<and> qs = snd b"
| "mail_moves (Landed q) (ps, qs) b \<longleftrightarrow> b = (ps, qs @ [q])"
| "mail_moves (Taken q) (ps, qs) b \<longleftrightarrow> ps = fst b \<and> qs = q # snd b"

definition sent_in :: "('d, 'm) mail_event list \<Rightarrow> 'd list" where
  "sent_in es = concat (map (\<lambda>e. case e of Sent p \<Rightarrow> [p] | _ \<Rightarrow> []) es)"
definition carried_in :: "('d, 'm) mail_event list \<Rightarrow> 'd list" where
  "carried_in es = concat (map (\<lambda>e. case e of Carried p \<Rightarrow> [p] | _ \<Rightarrow> []) es)"
definition landed_in :: "('d, 'm) mail_event list \<Rightarrow> 'm list" where
  "landed_in es = concat (map (\<lambda>e. case e of Landed q \<Rightarrow> [q] | _ \<Rightarrow> []) es)"
definition taken_in :: "('d, 'm) mail_event list \<Rightarrow> 'm list" where
  "taken_in es = concat (map (\<lambda>e. case e of Taken q \<Rightarrow> [q] | _ \<Rightarrow> []) es)"

lemmas events_in = sent_in_def carried_in_def landed_in_def taken_in_def

inductive mail_run :: "('x \<Rightarrow> ('d, 'm) mail_event \<Rightarrow> 'x \<Rightarrow> bool) \<Rightarrow> 'x \<Rightarrow> ('d, 'm) mail_event list \<Rightarrow> 'x \<Rightarrow> bool" for step x0 where
  run_nil: "mail_run step x0 [] x0"
| run_snoc: "mail_run step x0 es x \<Longrightarrow> step x e y \<Longrightarrow> mail_run step x0 (es @ [e]) y"

text \<open>A condition at the end that holds before a step when it holds after it can be added to the steps.\<close>

lemma mail_run_restrict:
  assumes "mail_run step x0 es x" "P x" "\<And>x e y. step x e y \<Longrightarrow> P y \<Longrightarrow> P x"
  shows "mail_run (\<lambda>x e y. step x e y \<and> P y) x0 es x"
  using assms by (induction rule: mail_run.induct) (auto intro: mail_run.intros)

locale mailbox =
  fixes step :: "'x \<Rightarrow> ('d, 'm) mail_event \<Rightarrow> 'x \<Rightarrow> bool"
    and holds :: "'x \<Rightarrow> 'd list \<times> 'm list \<Rightarrow> bool"
  assumes step_moves: "step x e y \<Longrightarrow> holds x b \<Longrightarrow> \<exists>b'. holds y b' \<and> mail_moves e b b'"
begin

lemma run_accounts:
  assumes "mail_run step x0 es x" "holds x0 ([], [])"
  shows "\<exists>ps qs. holds x (ps, qs) \<and> sent_in es = carried_in es @ ps \<and> landed_in es = taken_in es @ qs"
  using assms
proof (induction rule: mail_run.induct)
  case run_nil
  then show ?case by (intro exI [of _ "[]"]) (simp add: events_in)
next
  case (run_snoc es x e y)
  then obtain ps qs where r: "holds x (ps, qs)" "sent_in es = carried_in es @ ps" "landed_in es = taken_in es @ qs" by blast
  from step_moves [OF run_snoc.hyps(2) r(1)] obtain ps' qs' where "holds y (ps', qs')" "mail_moves e (ps, qs) (ps', qs')" by auto
  with r(2,3) show ?case by (intro exI [of _ ps'] exI [of _ qs'], cases e) (auto simp: events_in)
qed

end

end
