(* ===== verification/Message_Port.thy ===== *)
theory Message_Port
  imports Rpc_Call Client_Program Mailbox
begin

text \<open>
  A message connection with its memory and its queues, seen as a mailbox: the messages that
  wait to be carried, the messages that wait to be taken, and the message taken last. The
  buffers, the batches of receive requests and the signaled sends of
  \<open>AbstractMessageConnection\<close> and \<open>RawMessageConnection\<close> implement it.
\<close>

section \<open>Byte memory by address\<close>

definition load_bytes :: "(u64 \<Rightarrow> u8) \<Rightarrow> u64 \<Rightarrow> nat \<Rightarrow> u8 list" where
  "load_bytes m a n = map (\<lambda>i. m (a + word_of_nat i)) [0..<n]"

definition store_bytes :: "(u64 \<Rightarrow> u8) \<Rightarrow> u64 \<Rightarrow> u8 list \<Rightarrow> u64 \<Rightarrow> u8" where
  "store_bytes m a bs x = (if unat (x - a) < length bs then bs ! unat (x - a) else m x)"

lemma length_load_bytes [simp]: "length (load_bytes m a n) = n"
  by (simp add: load_bytes_def)

lemma load_store_prefix:
  assumes "n \<le> length bs" "length bs < 2 ^ 64"
  shows "load_bytes (store_bytes m a bs) a n = take n bs"
proof (rule nth_equalityI)
  fix i assume "i < length (load_bytes (store_bytes m a bs) a n)"
  then have "i < n" "unat (word_of_nat i :: u64) = i" using assms by (simp_all add: unat_of_nat)
  then show "load_bytes (store_bytes m a bs) a n ! i = take n bs ! i"
    using assms by (simp add: load_bytes_def store_bytes_def)
qed (use assms in simp)

lemma load_store_other:
  assumes "unat a + k \<le> 2 ^ 64" "unat b + n \<le> 2 ^ 64" "length bs \<le> k"
    and "unat a + k \<le> unat b \<or> unat b + n \<le> unat a"
  shows "load_bytes (store_bytes m a bs) b n = load_bytes m b n"
proof (rule nth_equalityI)
  fix i assume "i < length (load_bytes (store_bytes m a bs) b n)"
  then have i: "i < n" by simp
  have "unat (word_of_nat i :: u64) = i" using i assms(2) by (simp add: unat_of_nat)
  then have x: "unat (b + word_of_nat i) = unat b + i"
    using i assms(2) by (simp add: unat_word_ariths)
  have "length bs \<le> unat (b + word_of_nat i - a)"
  proof (cases "unat a + k \<le> unat b")
    case True
    then have "a \<le> b + word_of_nat i" using x by (simp add: word_le_nat_alt)
    then show ?thesis using True assms(3) x by (simp add: unat_sub)
  next
    case False
    then have "unat b + n \<le> unat a" using assms(4) by blast
    then have lt: "unat (b + word_of_nat i) < unat a" using x i by linarith
    have "unat (b + word_of_nat i - a) = unat (b + word_of_nat i) + 2 ^ 64 - unat a"
      using lt by (simp add: unat_sub_if')
    then show ?thesis using assms(1,3) by linarith
  qed
  then show "load_bytes (store_bytes m a bs) b n ! i = load_bytes m b n ! i"
    using i by (simp add: load_bytes_def store_bytes_def)
qed simp

lemma load_bytes_append:
  "load_bytes m a (n + k) = load_bytes m a n @ load_bytes m (a + word_of_nat n) k"
proof -
  have "[0..<n + k] = [0..<n] @ map (\<lambda>i. n + i) [0..<k]"
    using upt_add_eq_append [of 0 n k] by (simp add: map_add_upt add.commute)
  then show ?thesis by (simp add: load_bytes_def add.assoc)
qed

text \<open>\<open>message_at\<close> reads the bytes of the first entry of a request.\<close>

lemma message_at_load: "message_at m w = load_bytes m (wr_addr w) (unat (sge_length (hd (sg_list w))))"
  by (simp add: message_at_def load_bytes_def)

section \<open>The card of a message connection\<close>

text \<open>
  Memory, the receive buffers posted and not filled, those filled and not polled, every send
  ever posted, how many of them have been carried away, and the send completions polled.
\<close>

record ud_card =
  umem :: "u64 \<Rightarrow> u8"
  u_posted :: "u64 list"
  u_filled :: "u64 list"
  u_sends :: "ibv_send_wr list"
  u_gone :: nat
  u_polled :: nat

definition ud_post_recv :: "ud_card post_recv_fn" where
  "ud_post_recv wrs s = (0, s\<lparr>u_posted := u_posted s @ map (\<lambda>w. sge_addr (hd (rsg_list w))) wrs\<rparr>)"

definition ud_post_send :: "ud_card post_send_fn" where
  "ud_post_send qp wrs s = (0, s\<lparr>u_sends := u_sends s @ wrs\<rparr>)"

definition recv_wc :: ibv_wc where
  "recv_wc = \<lparr>wc_id = 1234, wc_status = IBV_WC_SUCCESS, wc_is_recv = True\<rparr>"

definition ud_poll_recv :: "ud_card poll_fn" where
  "ud_poll_recv s = (if u_filled s = [] then (0, None, s) else (1, Some recv_wc, s\<lparr>u_filled := tl (u_filled s)\<rparr>))"

definition ud_poll_send :: "ud_card poll_fn" where
  "ud_poll_send s =
     (if u_polled s < completions_due u_sends u_gone s then (1, Some success_wc, s\<lparr>u_polled := Suc (u_polled s)\<rparr>)
      else (0, None, s))"

text \<open>
  A datagram: address handle, queue pair number and bytes. The card carries the oldest send
  away, reading the buffer at that moment, later than an inline send is read.
\<close>

type_synonym datagram = "u64 \<times> u32 \<times> u8 list"

definition datagram_of :: "(u64 \<Rightarrow> u8) \<Rightarrow> ibv_send_wr \<Rightarrow> datagram" where
  "datagram_of m w = (case arm w of WR_UD ah qpn _ \<Rightarrow> (ah, qpn, message_at m w) | _ \<Rightarrow> (0, 0, message_at m w))"

definition ud_carry :: "ud_card \<Rightarrow> (datagram \<times> ud_card) option" where
  "ud_carry s = (if u_gone s < length (u_sends s)
     then Some (datagram_of (umem s) (u_sends s ! u_gone s), s\<lparr>u_gone := Suc (u_gone s)\<rparr>) else None)"

text \<open>
  A datagram arrives with its header of 40 bytes in the oldest posted buffer; when none is
  posted, or the datagram is longer than the buffer, it is lost.
\<close>

definition ud_land :: "u8 list \<Rightarrow> u8 list \<Rightarrow> ud_card \<Rightarrow> ud_card" where
  "ud_land hdr bs s = (case u_posted s of
       [] \<Rightarrow> s
     | b # rest \<Rightarrow> if length hdr + length bs \<le> MESSAGE_SIZE
         then s\<lparr>umem := store_bytes (umem s) b (hdr @ bs), u_posted := rest, u_filled := u_filled s @ [b]\<rparr> else s)"

lemma ud_recv_laws: "recv_queue_laws ud_post_recv u_posted u_filled"
  by (simp add: recv_queue_laws_def ud_post_recv_def)

lemma ud_send_post_laws: "send_post_laws ud_post_send u_sends u_gone u_polled"
  by (simp add: send_post_laws_def ud_post_send_def)

lemma ud_send_poll_laws: "send_poll_laws ud_poll_send u_sends u_gone u_polled"
  by (auto simp: send_poll_laws_def poll_ok_def ud_poll_send_def sq_ok_def completions_due_def split: if_splits)

section \<open>The connection as a mailbox\<close>

text \<open>The two pools of the constructor, one behind the other, for datagrams behind a 40-byte header.\<close>

definition port_layout :: "MsgConn \<Rightarrow> bool" where
  "port_layout c \<longleftrightarrow> pool_ok c \<and> 64 \<le> unat (messageNR c)
     \<and> sendPool c = slot_addr (messagePool c) MESSAGE_SIZE (unat (messageNR c))
     \<and> unat (messagePool c) + 2 * unat (messageNR c) * MESSAGE_SIZE \<le> 2 ^ 64
     \<and> sendPadding c = 0 \<and> recvPadding c = word_of_nat GRH_SIZE"

text \<open>The constructor lays the two pools out this way, when the block it gets does not wrap around.\<close>

lemma mk_RawMessageConnection_layout:
  assumes mk: "mk_RawMessageConnection dev context cq (word_of_nat RPC_QUEUE_SIZE) s = Some (c, s')"
    and room: "unat (messagePool c) + 2 * RPC_QUEUE_SIZE * MESSAGE_SIZE \<le> 2 ^ 64"
  shows "port_layout c \<and> curMessage c = 0 \<and> curSend c = 0 \<and> sendCounter c = 0 \<and> unat (messageNR c) = RPC_QUEUE_SIZE"
proof -
  from mk have c: "messageNR c = 128" "sendPool c = messagePool c + 524288" "curMessage c = 0" "curSend c = 0" "sendCounter c = 0"
    "sendPadding c = 0" "recvPadding c = 40"
    by (auto simp: mk_RawMessageConnection_def mk_MsgConn_def Let_def case_prod_unfold bind_eq_Some_conv RPC_QUEUE_SIZE_def MESSAGE_SIZE_def
        split: if_splits)
  then show ?thesis
    using room by (simp add: port_layout_def pool_ok_def kBatchCount_def slot_addr_def MESSAGE_SIZE_def RPC_QUEUE_SIZE_def GRH_SIZE_def)
qed

text \<open>The buffer at \<open>b\<close> holds the message \<open>bs\<close> behind the header.\<close>

definition holds_msg :: "(u64 \<Rightarrow> u8) \<Rightarrow> u64 \<Rightarrow> u8 list \<Rightarrow> bool" where
  "holds_msg m b bs \<longleftrightarrow> GRH_SIZE + length bs \<le> MESSAGE_SIZE
     \<and> load_bytes m (b + word_of_nat GRH_SIZE) (length bs) = bs"

definition waiting_sends :: "ud_card \<Rightarrow> datagram list" where
  "waiting_sends s = map (datagram_of (umem s)) (drop (u_gone s) (u_sends s))"

definition inbox_at :: "MsgConn \<times> ud_card \<Rightarrow> nat \<Rightarrow> nat \<Rightarrow> u8 list list \<Rightarrow> (u64 \<times> u8 list) option \<Rightarrow> bool" where
  "inbox_at x g d inb held \<longleftrightarrow> (case x of (c, s) \<Rightarrow>
     recv_at u_posted u_filled (c, s) g d
     \<and> list_all2 (holds_msg (umem s)) (map (recv_slot c) [g..<d]) inb
     \<and> (\<forall>a bs. held = Some (a, bs) \<longrightarrow> 0 < g \<and> a = recv_slot c (g - 1) + word_of_nat GRH_SIZE
           \<and> holds_msg (umem s) (recv_slot c (g - 1)) bs))"

text \<open>
  The mailbox: \<open>pend\<close> waits to be carried, \<open>inb\<close> to be taken, and \<open>held\<close> is the message
  taken last with its address.
\<close>

definition port_at :: "MsgConn \<times> ud_card \<Rightarrow> datagram list \<Rightarrow> u8 list list \<Rightarrow> (u64 \<times> u8 list) option \<Rightarrow> bool" where
  "port_at x pend inb held \<longleftrightarrow> (case x of (c, s) \<Rightarrow>
     port_layout c \<and> send_inv u_sends u_gone u_polled (c, s) \<and> length (u_sends s) < 2 ^ 64
     \<and> (\<forall>w \<in> set (u_sends s). unat (sge_length (hd (sg_list w))) \<le> MESSAGE_SIZE)
     \<and> pend = waiting_sends s
     \<and> (\<exists>g d. inbox_at (c, s) g d inb held))"

text \<open>Both pools are one ring of slots: the receive buffers first, then the send buffers.\<close>

lemma port_recv_slot:
  assumes "port_layout c"
  shows "unat (recv_slot c i) = unat (messagePool c) + (i mod unat (messageNR c)) * MESSAGE_SIZE"
    and "unat (recv_slot c i) + MESSAGE_SIZE \<le> unat (messagePool c) + unat (messageNR c) * MESSAGE_SIZE"
    and "unat (recv_slot c i) + MESSAGE_SIZE \<le> 2 ^ 64"
proof -
  let ?N = "unat (messageNR c)"
  have N: "i mod ?N < ?N" "slot_ring MESSAGE_SIZE ?N" and room: "unat (messagePool c) + ?N * MESSAGE_SIZE \<le> 2 ^ 64"
    using assms by (auto simp: port_layout_def pool_ok_def MESSAGE_SIZE_def intro!: slot_ring.intro)
  show "unat (recv_slot c i) = unat (messagePool c) + (i mod ?N) * MESSAGE_SIZE"
    using unat_slot_addr [OF room N(1)] by (simp add: recv_slot_def MESSAGE_SIZE_def)
  show le: "unat (recv_slot c i) + MESSAGE_SIZE \<le> unat (messagePool c) + ?N * MESSAGE_SIZE"
    using slot_ring.slot_in_region(2) [OF N(2) room N(1)] by (simp add: recv_slot_def)
  then show "unat (recv_slot c i) + MESSAGE_SIZE \<le> 2 ^ 64" using room by linarith
qed

lemma port_send_slot:
  assumes "port_layout c"
  shows "unat (messagePool c) + unat (messageNR c) * MESSAGE_SIZE \<le> unat (send_slot c i)"
    and "unat (send_slot c i) + MESSAGE_SIZE \<le> 2 ^ 64"
    and "i < j \<Longrightarrow> j < i + unat (messageNR c) \<Longrightarrow> disjoint_bufs MESSAGE_SIZE (send_slot c i) (send_slot c j)"
proof -
  let ?N = "unat (messageNR c)" and ?k = "i mod unat (messageNR c)"
  have N: "?k < ?N" "?N < 2 * ?N" "slot_ring MESSAGE_SIZE ?N" and room: "unat (messagePool c) + 2 * ?N * MESSAGE_SIZE \<le> 2 ^ 64"
    using assms by (auto simp: port_layout_def pool_ok_def MESSAGE_SIZE_def intro!: slot_ring.intro)
  have base: "unat (sendPool c) = unat (messagePool c) + ?N * MESSAGE_SIZE"
    using assms unat_slot_addr [OF room N(2)] by (simp add: port_layout_def MESSAGE_SIZE_def)
  then have sroom: "unat (sendPool c) + ?N * MESSAGE_SIZE \<le> 2 ^ 64" using room by (simp add: algebra_simps)
  note r = slot_ring.slot_in_region [OF N(3) sroom N(1)]
  show "unat (messagePool c) + ?N * MESSAGE_SIZE \<le> unat (send_slot c i)" using r(1) base by (simp add: send_slot_def)
  show "unat (send_slot c i) + MESSAGE_SIZE \<le> 2 ^ 64" using r(2) sroom unfolding send_slot_def by linarith
  show "disjoint_bufs MESSAGE_SIZE (send_slot c i) (send_slot c j)" if "i < j" "j < i + ?N"
    using slot_ring.window_disjoint [OF N(3) sroom that] by (simp add: send_slot_def)
qed

lemma recv_send_apart:
  assumes "port_layout c"
  shows "unat (recv_slot c i) + MESSAGE_SIZE \<le> unat (send_slot c j)"
  using port_recv_slot(2) [OF assms, of i] port_send_slot(1) [OF assms, of j] by linarith

lemma unat_behind_header:
  assumes "unat (b :: u64) + MESSAGE_SIZE \<le> 2 ^ 64"
  shows "unat (b + word_of_nat GRH_SIZE) = unat b + GRH_SIZE"
proof -
  have "unat (word_of_nat GRH_SIZE :: u64) = GRH_SIZE" by (simp add: GRH_SIZE_def)
  then show ?thesis using assms by (simp add: unat_word_ariths GRH_SIZE_def MESSAGE_SIZE_def)
qed

text \<open>Writing a whole buffer leaves the message of another buffer alone.\<close>

lemma holds_msg_other:
  assumes "unat a + MESSAGE_SIZE \<le> 2 ^ 64" "unat b + MESSAGE_SIZE \<le> 2 ^ 64" "length xs \<le> MESSAGE_SIZE"
    and "disjoint_bufs MESSAGE_SIZE a b \<or> disjoint_bufs MESSAGE_SIZE b a"
  shows "holds_msg (store_bytes m a xs) b bs = holds_msg m b bs"
proof (cases "GRH_SIZE + length bs \<le> MESSAGE_SIZE")
  case True
  note h = unat_behind_header [OF assms(2)]
  have "load_bytes (store_bytes m a xs) (b + word_of_nat GRH_SIZE) (length bs) = load_bytes m (b + word_of_nat GRH_SIZE) (length bs)"
    by (rule load_store_other [OF assms(1) _ assms(3)]) (use True assms(2,4) h in \<open>auto simp: disjoint_bufs_def\<close>)
  then show ?thesis by (simp add: holds_msg_def)
qed (simp add: holds_msg_def)

lemma holds_msg_landed:
  assumes "unat b + MESSAGE_SIZE \<le> 2 ^ 64" "length hdr = GRH_SIZE" "GRH_SIZE + length bs \<le> MESSAGE_SIZE"
  shows "holds_msg (store_bytes m b (hdr @ bs)) b bs"
proof -
  have "length (hdr @ bs) < 2 ^ 64" using assms(2,3) by (simp add: MESSAGE_SIZE_def)
  from load_store_prefix [of "GRH_SIZE + length bs" "hdr @ bs" m b, OF _ this] assms(2)
  have "load_bytes (store_bytes m b (hdr @ bs)) b (GRH_SIZE + length bs) = hdr @ bs" by simp
  then show ?thesis using assms by (simp add: holds_msg_def load_bytes_append)
qed

section \<open>Sending through the mailbox\<close>

text \<open>What every poll leaves alone, polling leaves alone.\<close>

lemma pollWithCQ_frame:
  assumes "pollWithCQ poll k wc s = Some (ex, wc', s')" and "\<And>s. F (snd (snd (poll s))) = F s"
  shows "F s' = F s"
proof -
  have "F (snd (snd (turns poll m x))) = F (snd (snd x))" for m x
  proof (induction m)
    case (Suc m)
    obtain cnt w u where t: "turns poll m x = (cnt, w, u)" by (metis prod_cases3)
    obtain k w' u' where p: "poll u = (k, w', u')" by (metis prod_cases3)
    then have "F u' = F u" using assms(2) [of u] by simp
    with t p Suc show ?case by simp
  qed simp
  moreover obtain m cnt where "(cnt, wc', s') = turns poll m (0, wc, s)"
    using assms(1) by (auto simp: pollWithCQ_def dest!: poll_loop_SomeD)
  ultimately show ?thesis by (metis snd_conv)
qed

lemma await_ud:
  assumes "await_signal ud_poll_send wc c s = Some s1"
  obtains k where "s1 = s\<lparr>u_polled := k\<rparr>"
proof (cases "s1 = s")
  case True
  then show ?thesis using that [of "u_polled s"] by simp
next
  case False
  then obtain ex wc' where p: "pollWithCQ ud_poll_send 1 wc s = Some (ex, wc', s1)"
    using assms by (auto simp: await_signal_def split: if_splits)
  have "s1\<lparr>u_polled := 0\<rparr> = s\<lparr>u_polled := 0\<rparr>"
    by (rule pollWithCQ_frame [OF p, of "\<lambda>s. s\<lparr>u_polled := 0\<rparr>"]) (simp add: ud_poll_send_def)
  then have "s1 = s\<lparr>u_polled := u_polled s1\<rparr>" by (cases s1, cases s) simp
  then show ?thesis by (rule that)
qed

definition raw_send_wr :: "MsgConn \<Rightarrow> u64 \<Rightarrow> RpcMessage \<Rightarrow> u32 \<Rightarrow> u64 \<Rightarrow> ibv_send_wr" where
  "raw_send_wr c a b qpn ah = ud_send_wr (a - ucast (sendPadding c)) (word_of_nat (rpc_size b) + ucast (sendPadding c))
     (messageLkey c) ah qpn (sendCounter c AND SIGNAL_BATCH = 0)"

lemma sendRawMessage_ud:
  assumes "sendRawMessage ud_post_send ud_poll_send wc c a b qpn ah s = Some (c', s')"
  obtains k where "s' = s\<lparr>u_polled := k, u_sends := u_sends s @ [raw_send_wr c a b qpn ah]\<rparr>"
    "c' = c\<lparr>sendCounter := sendCounter c + 1\<rparr>"
proof -
  obtain s1 where aw: "await_signal ud_poll_send wc c s = Some s1"
    and s': "s' = snd (rdmaSend_ud ud_post_send (conn_qp c) (a - ucast (sendPadding c))
      (word_of_nat (rpc_size b) + ucast (sendPadding c)) (messageLkey c) ah qpn (sendCounter c AND SIGNAL_BATCH = 0) s1)"
    and c': "c' = c\<lparr>sendCounter := sendCounter c + 1\<rparr>"
    using assms by (auto simp: sendRawMessage_def)
  from aw obtain k where "s1 = s\<lparr>u_polled := k\<rparr>" by (rule await_ud)
  then have "s' = s\<lparr>u_polled := k, u_sends := u_sends s @ [raw_send_wr c a b qpn ah]\<rparr>"
    by (simp add: s' rdmaSend_ud_def post_wr_def ud_post_send_def raw_send_wr_def)
  then show thesis using c' by (rule that)
qed

lemma raw_send_wr_datagram:
  assumes "sendPadding c = 0" "rpc_wf b" "length (bytes_of_rpc b) = MESSAGE_SIZE"
  shows "datagram_of (store_bytes m a (bytes_of_rpc b)) (raw_send_wr c a b qpn ah)
      = (ah, qpn, take (rpc_size b) (bytes_of_rpc b))"
    and "unat (sge_length (hd (sg_list (raw_send_wr c a b qpn ah)))) = rpc_size b" and "rpc_size b \<le> MESSAGE_SIZE"
    and "wr_addr (raw_send_wr c a b qpn ah) = a"
proof -
  let ?w = "raw_send_wr c a b qpn ah"
  have sz: "rpc_size b \<le> length (bytes_of_rpc b)"
    using assms(2) by (simp add: rpc_size_def rpc_wf_def bytes_of_rpc_def sizeof_RpcMessage_def)
  then show le: "rpc_size b \<le> MESSAGE_SIZE" using assms(3) by simp
  then have "unat (ucast (word_of_nat (rpc_size b) :: u64) :: u32) = rpc_size b"
    by (simp add: unsigned_ucast_eq unat_of_nat take_bit_nat_eq_self_iff MESSAGE_SIZE_def)
  then show len: "unat (sge_length (hd (sg_list ?w))) = rpc_size b"
    using assms(1) by (simp add: raw_send_wr_def ud_send_wr_def fillSgeWr_send_def zero_send_wr_def mk_sge_def Let_def)
  show addr: "wr_addr ?w = a"
    using assms(1) by (simp add: raw_send_wr_def ud_send_wr_def fillSgeWr_send_def zero_send_wr_def mk_sge_def wr_addr_def Let_def)
  have "arm ?w = WR_UD ah qpn UD_PKEY" by (simp add: raw_send_wr_def ud_send_wr_def Let_def)
  then show "datagram_of (store_bytes m a (bytes_of_rpc b)) ?w = (ah, qpn, take (rpc_size b) (bytes_of_rpc b))"
    using load_store_prefix [OF sz, of m a] assms(3)
    by (simp add: datagram_of_def message_at_load addr len MESSAGE_SIZE_def)
qed

text \<open>Writing a send buffer that is in no waiting request leaves the waiting datagrams alone.\<close>

lemma datagram_of_other:
  assumes "unat a + MESSAGE_SIZE \<le> 2 ^ 64" "unat (wr_addr w) + MESSAGE_SIZE \<le> 2 ^ 64" "length xs \<le> MESSAGE_SIZE"
    and "disjoint_bufs MESSAGE_SIZE a (wr_addr w) \<or> disjoint_bufs MESSAGE_SIZE (wr_addr w) a"
    and "unat (sge_length (hd (sg_list w))) \<le> MESSAGE_SIZE"
  shows "datagram_of (store_bytes m a xs) w = datagram_of m w"
proof -
  have "load_bytes (store_bytes m a xs) (wr_addr w) (unat (sge_length (hd (sg_list w))))
      = load_bytes m (wr_addr w) (unat (sge_length (hd (sg_list w))))"
    by (rule load_store_other [OF assms(1) _ assms(3)]) (use assms(2,4,5) in \<open>auto simp: disjoint_bufs_def\<close>)
  then have "message_at (store_bytes m a xs) w = message_at m w" by (simp add: message_at_load)
  then show ?thesis by (simp add: datagram_of_def split: wr_arm.splits)
qed

lemma send_inv_frame:
  assumes "u_sends s' = u_sends s" "u_gone s' = u_gone s" "u_polled s' = u_polled s"
  shows "send_inv u_sends u_gone u_polled (c, s') = send_inv u_sends u_gone u_polled (c, s)"
  using assms by (simp only: send_inv_def sq_ok_def completions_due_def prod.case)

text \<open>
  One send: take a buffer, write the message into it and post it. The message waits behind
  the others; nothing else changes.
\<close>

lemma port_send:
  assumes at: "port_at (c, s) pend inb held"
    and pool: "getSendPool c = (a, c1)"
    and snd: "sendRawMessage ud_post_send ud_poll_send wc c1 a b qpn ah s = Some (c', s')"
    and few: "length (u_sends s') < 2 ^ 64"
    and b: "rpc_wf b" "length (bytes_of_rpc b) = MESSAGE_SIZE"
  shows "port_at (c', s'\<lparr>umem := store_bytes (umem s') a (bytes_of_rpc b)\<rparr>)
     (pend @ [(ah, qpn, take (rpc_size b) (bytes_of_rpc b))]) inb held"
proof -
  let ?n = "length (u_sends s)" and ?xs = "bytes_of_rpc b"
  from at have lay: "port_layout c" and si: "send_inv u_sends u_gone u_polled (c, s)" and n: "?n < 2 ^ 64"
    and lens: "\<forall>w \<in> set (u_sends s). unat (sge_length (hd (sg_list w))) \<le> MESSAGE_SIZE" and pend: "pend = waiting_sends s"
    by (simp_all add: port_at_def)
  note fl = send_inv_flight [OF si n]
  have pad: "sendPadding c = 0" and nr: "64 \<le> unat (messageNR c)" using lay by (simp_all add: port_layout_def)
  have c1: "c1 = c\<lparr>curSend := add_round (curSend c) (messageNR c)\<rparr>" and a: "a = send_slot c ?n"
    using pool pad fl(4) by (auto simp: getSendPool_def send_slot_def)
  let ?w = "raw_send_wr c1 a b qpn ah"
  obtain k where s': "s' = s\<lparr>u_polled := k, u_sends := u_sends s @ [?w]\<rparr>" and c': "c' = c1\<lparr>sendCounter := sendCounter c1 + 1\<rparr>"
    using sendRawMessage_ud [OF snd] .
  let ?m = "store_bytes (umem s) a ?xs" and ?s = "s'\<lparr>umem := store_bytes (umem s') a ?xs\<rparr>"
  have pad1: "sendPadding c1 = 0" by (simp add: c1 pad)
  note w = raw_send_wr_datagram [OF pad1 b]
  have room: "unat a + MESSAGE_SIZE \<le> 2 ^ 64" unfolding a by (rule port_send_slot(2) [OF lay])
  have "send_step ud_post_send ud_poll_send (c, s) (c', s')" by (rule send_step.send [OF pool snd])
  from send_step_inv [OF ud_send_post_laws ud_send_poll_laws this si]
  have "send_inv u_sends u_gone u_polled (c', s')" .
  moreover have "send_inv u_sends u_gone u_polled (c', ?s) = send_inv u_sends u_gone u_polled (c', s')"
    by (rule send_inv_frame) simp_all
  ultimately have si': "send_inv u_sends u_gone u_polled (c', ?s)" by blast
  have lay': "port_layout c'" using lay by (simp add: port_layout_def pool_ok_def c' c1)
  have same: "recv_slot c' = recv_slot c" by (simp add: recv_slot_def fun_eq_iff c' c1)
  have "datagram_of ?m x = datagram_of (umem s) x" if x: "x \<in> set (drop (u_gone s) (u_sends s))" for x
  proof -
    from x obtain i where i: "u_gone s \<le> i" "i < ?n" "x = u_sends s ! i"
      by (auto simp: in_set_conv_nth) (metis le_add1 less_diff_conv add.commute)
    have wa: "wr_addr x = send_slot c i" using fl(3) i by simp
    have "disjoint_bufs MESSAGE_SIZE (wr_addr x) a"
      unfolding wa a by (rule port_send_slot(3) [OF lay i(2)]) (use fl(1) i nr in linarith)
    moreover have "unat (sge_length (hd (sg_list x))) \<le> MESSAGE_SIZE" using lens i by simp
    ultimately show ?thesis
      using datagram_of_other [OF room _ _ _, of x ?xs "umem s"] port_send_slot(2) [OF lay, of i] wa b(2) by simp
  qed
  then have pend': "waiting_sends ?s = pend @ [(ah, qpn, take (rpc_size b) ?xs)]"
    using fl(2) w(1) [of "umem s" a qpn ah] by (simp add: waiting_sends_def pend s')
  have other: "holds_msg ?m (recv_slot c i) = holds_msg (umem s) (recv_slot c i)" for i
    by (rule ext, rule holds_msg_other [OF room port_recv_slot(3) [OF lay]])
      (use b(2) recv_send_apart [OF lay] a in \<open>simp_all add: disjoint_bufs_def\<close>)
  from at obtain g d where ib: "inbox_at (c, s) g d inb held" by (auto simp: port_at_def)
  have rs: "recv_batch c' = recv_batch c" by (simp add: recv_batch_def fun_eq_iff c' c1)
  have "recv_at u_posted u_filled (c', ?s) g d = recv_at u_posted u_filled (c, s) g d"
    by (simp add: recv_at_def recv_ready_def pool_ok_def recv_sub_def posted_upto_def same rs s') (simp add: c' c1)
  then have ib': "inbox_at (c', ?s) g d inb held"
    using ib by (simp add: inbox_at_def same list_all2_map1 s') (simp add: other)
  have "unat (sge_length (hd (sg_list x))) \<le> MESSAGE_SIZE" if "x \<in> set (u_sends ?s)" for x
    using that lens w(2,3) by (auto simp: s')
  then show ?thesis
    unfolding port_at_def prod.case
    using lay' si' few pend' ib' by (intro conjI ballI exI [of _ g] exI [of _ d]) simp_all
qed

section \<open>Carrying, landing and taking\<close>

lemma port_carry:
  assumes at: "port_at (c, s) pend inb held" and carry: "ud_carry s = Some (p, s')"
  shows "\<exists>ps. pend = p # ps \<and> port_at (c, s') ps inb held"
proof -
  have lt: "u_gone s < length (u_sends s)" and p: "p = datagram_of (umem s) (u_sends s ! u_gone s)"
    and s': "s' = s\<lparr>u_gone := Suc (u_gone s)\<rparr>"
    using carry by (auto simp: ud_carry_def split: if_splits)
  from at have si: "send_inv u_sends u_gone u_polled (c, s)" by (simp add: port_at_def)
  have "completions_due u_sends u_gone s \<le> completions_due u_sends u_gone s'"
    using lt by (simp add: completions_due_def s' take_Suc_conv_app_nth)
  then have "send_inv u_sends u_gone u_polled (c, s')"
    using si lt unfolding send_inv_def sq_ok_def prod.case by (simp add: s' Suc_le_eq) linarith
  moreover have "waiting_sends s = p # waiting_sends s'"
    using lt by (simp add: waiting_sends_def p s' Cons_nth_drop_Suc [symmetric])
  moreover have "inbox_at (c, s') g d inb held = inbox_at (c, s) g d inb held" for g d
    by (simp add: inbox_at_def recv_at_def s')
  ultimately show ?thesis using at by (intro exI [of _ "waiting_sends s'"]) (simp add: port_at_def s')
qed

lemma ud_carry_ready: "port_at (c, s) (p # ps) inb held \<Longrightarrow> \<exists>s'. ud_carry s = Some (p, s')"
  by (cases "u_gone s < length (u_sends s)")
    (auto simp: port_at_def waiting_sends_def ud_carry_def Cons_nth_drop_Suc [symmetric])

text \<open>A posted buffer is free, and when another one is left the message taken last stays.\<close>

lemma port_room:
  assumes at: "port_at (c, s) pend inb held" and few: "4 * length inb \<le> 3 * unat (messageNR c)"
  shows "u_posted s \<noteq> [] \<and> length inb + 1 < unat (messageNR c)"
proof -
  from at obtain g d where lay: "port_layout c" and ib: "inbox_at (c, s) g d inb held" by (auto simp: port_at_def)
  have ok: "pool_ok c" and nr: "64 \<le> unat (messageNR c)" using lay by (simp_all add: port_layout_def)
  from ib have gd: "g \<le> d" and rq: "u_posted s = map (recv_slot c) [d..<posted_upto c g]"
    by (auto simp: inbox_at_def recv_at_def)
  have "length inb = d - g" using ib gd by (auto simp: inbox_at_def dest!: list_all2_lengthD)
  then show ?thesis
    using few posted_upto_bounds(1) [OF ok, of g] pool_ok_sub(1) [OF ok] gd nr rq by (auto simp: kBatchCount_def)
qed

lemma port_land:
  assumes at: "port_at (c, s) pend inb held"
    and hdr: "length hdr = GRH_SIZE" "GRH_SIZE + length bs \<le> MESSAGE_SIZE"
    and post: "u_posted s \<noteq> []" and room: "held = None \<or> length inb + 1 < unat (messageNR c)"
  shows "port_at (c, ud_land hdr bs s) pend (inb @ [bs]) held"
proof -
  from at obtain g d where lay: "port_layout c" and si: "send_inv u_sends u_gone u_polled (c, s)"
    and few: "length (u_sends s) < 2 ^ 64" and pend: "pend = waiting_sends s"
    and lens: "\<forall>w \<in> set (u_sends s). unat (sge_length (hd (sg_list w))) \<le> MESSAGE_SIZE"
    and ib: "inbox_at (c, s) g d inb held"
    by (auto simp: port_at_def)
  have ok: "pool_ok c" and nr: "64 \<le> unat (messageNR c)" using lay by (simp_all add: port_layout_def)
  note sub = pool_ok_sub [OF ok] and pb = posted_upto_bounds [OF ok, of g]
  from ib have ra: "recv_at u_posted u_filled (c, s) g d" by (simp add: inbox_at_def)
  then have gd: "g \<le> d" and rq: "u_posted s = map (recv_slot c) [d..<posted_upto c g]" by (auto simp: recv_at_def)
  have "length inb = d - g" using ib gd by (auto simp: inbox_at_def dest!: list_all2_lengthD)
  then have d: "d < posted_upto c g" "held = None \<or> Suc d < g + unat (messageNR c)"
    using room post rq gd by auto
  let ?b = "recv_slot c d" and ?s = "ud_land hdr bs s"
  have pos: "u_posted s = ?b # map (recv_slot c) [Suc d..<posted_upto c g]"
    using rq d(1) by (simp add: upt_conv_Cons)
  then have s': "?s = s\<lparr>umem := store_bytes (umem s) ?b (hdr @ bs), u_posted := map (recv_slot c) [Suc d..<posted_upto c g],
      u_filled := u_filled s @ [?b]\<rparr>"
    using hdr by (simp add: ud_land_def)
  have len: "length (hdr @ bs) \<le> MESSAGE_SIZE" using hdr by simp
  have ra': "recv_at u_posted u_filled (c, ?s) g (Suc d)"
    by (rule deliver_at(1) [OF ra pos]) (simp_all add: s')
  have other: "holds_msg (umem ?s) (recv_slot c i) = holds_msg (umem s) (recv_slot c i)" if "i < d" "d < i + unat (messageNR c)" for i
    using recv_slots_disjoint [OF ok that]
    by (intro ext) (simp add: s' holds_msg_other [OF port_recv_slot(3) [OF lay] port_recv_slot(3) [OF lay] len])
  have "list_all2 (holds_msg (umem s)) (map (recv_slot c) [g..<d]) inb" using ib by (simp add: inbox_at_def)
  then have "list_all2 (holds_msg (umem ?s)) (map (recv_slot c) [g..<d]) inb"
    by (rule list.rel_mono_strong) (use other d(1) pb(2) in auto)
  moreover have "holds_msg (umem ?s) ?b bs"
    using holds_msg_landed [OF port_recv_slot(3) [OF lay] hdr, of "umem s"] by (simp add: s')
  ultimately have "list_all2 (holds_msg (umem ?s)) (map (recv_slot c) [g..<Suc d]) (inb @ [bs])"
    using gd by (simp add: list_all2_appendI)
  moreover have "\<forall>a bs. held = Some (a, bs) \<longrightarrow> 0 < g \<and> a = recv_slot c (g - 1) + word_of_nat GRH_SIZE
      \<and> holds_msg (umem ?s) (recv_slot c (g - 1)) bs"
    using ib other [of "g - 1"] gd d(2) by (auto simp: inbox_at_def)
  ultimately have ib': "inbox_at (c, ?s) g (Suc d) (inb @ [bs]) held" using ra' by (simp add: inbox_at_def)
  have "datagram_of (store_bytes (umem s) ?b (hdr @ bs)) w = datagram_of (umem s) w" if w: "w \<in> set (u_sends s)" for w
  proof -
    obtain i where i: "i < length (u_sends s)" "w = u_sends s ! i" using w by (auto simp: in_set_conv_nth)
    then have wa: "wr_addr w = send_slot c i" using send_inv_flight(3) [OF si few] by simp
    show ?thesis
      by (rule datagram_of_other [OF port_recv_slot(3) [OF lay] _ len])
        (use w lens wa port_send_slot(2) [OF lay] recv_send_apart [OF lay] in \<open>auto simp: disjoint_bufs_def\<close>)
  qed
  then have "waiting_sends ?s = waiting_sends s"
    by (auto simp: waiting_sends_def s' intro!: map_cong dest: in_set_dropD)
  moreover have "send_inv u_sends u_gone u_polled (c, ?s) = send_inv u_sends u_gone u_polled (c, s)"
    by (rule send_inv_frame) (simp_all add: s')
  ultimately show ?thesis using lay si few pend lens ib' by (auto simp: port_at_def s')
qed

lemma pollWithCQ_idle:
  assumes "poll s = (0, None, s)"
  shows "pollWithCQ poll 1 wc s = None"
proof -
  have idle: "poll_turn poll (0, wc, s) = (0, wc, s)" using assms by simp
  have "turns poll m (0, wc, s) = (0, wc, s)" for m by (induction m) (simp_all add: idle del: poll_turn.simps)
  then have "poll_loop poll 1 (0, wc, s) = None"
    using poll_loop_SomeD [of poll 1 "(0, wc, s)"]
    by (cases "poll_loop poll 1 (0, wc, s)") (auto simp: stops_after_def)
  then show ?thesis by (simp add: pollWithCQ_def)
qed

lemma pollWithCQ_once:
  assumes "poll s = (1, Some w, s')"
  shows "\<exists>ex. pollWithCQ poll 1 wc s = Some (ex, w, s')"
  using assms by (simp add: pollWithCQ_def, subst poll_loop.simps) (simp add: Let_def)

lemma port_take:
  assumes at: "port_at (c, s) pend (bs # inb) held"
    and get: "getMessage ud_post_recv c (s\<lparr>u_filled := tl (u_filled s)\<rparr>) = (a, c', s')"
  shows "port_at (c', s') pend inb (Some (a, bs)) \<and> load_bytes (umem s') a (length bs) = bs \<and> messageNR c' = messageNR c"
proof -
  from at obtain g d where lay: "port_layout c" and ib: "inbox_at (c, s) g d (bs # inb) held"
    by (auto simp: port_at_def)
  from ib have ra: "recv_at u_posted u_filled (c, s) g d" and gd: "g < d"
    and h: "list_all2 (holds_msg (umem s)) (map (recv_slot c) [g..<d]) (bs # inb)"
    by (auto simp: inbox_at_def recv_at_def dest: list_all2_lengthD)
  have up: "[g..<d] = g # [Suc g..<d]" using gd by (rule upt_conv_Cons)
  let ?s1 = "s\<lparr>u_filled := tl (u_filled s)\<rparr>"
  have f: "u_filled s = recv_slot c g # map (recv_slot c) [Suc g..<d]" using ra up by (simp add: recv_at_def)
  note gm = getMessage_at [OF ud_recv_laws ra f, of ?s1, OF _ _ get]
  have c': "recv_slot c' = recv_slot c" "port_layout c' = port_layout c" "messageNR c' = messageNR c"
    "send_slot c' = send_slot c" "sendPool c' = sendPool c" "sendCounter c' = sendCounter c" "curSend c' = curSend c"
    and s': "umem s' = umem s" "u_sends s' = u_sends s" "u_gone s' = u_gone s" "u_polled s' = u_polled s"
    using get by (auto simp: getMessage_def Let_def recv_slot_def send_slot_def port_layout_def pool_ok_def post_batch_def ud_post_recv_def
        split: if_splits)
  have "send_inv u_sends u_gone u_polled (c', s') = send_inv u_sends u_gone u_polled (c, s)"
    using c' s' by (simp add: send_inv_def sq_ok_def completions_due_def)
  moreover have "waiting_sends s' = waiting_sends s" by (simp add: waiting_sends_def s')
  moreover have "recv_at u_posted u_filled (c', s') (Suc g) d" by (rule gm(1)) (simp_all add: f)
  moreover have a: "a = recv_slot c g + word_of_nat GRH_SIZE"
    using gm(3) lay by (simp add: f port_layout_def GRH_SIZE_def)
  moreover have hb: "holds_msg (umem s) (recv_slot c g) bs" and "list_all2 (holds_msg (umem s)) (map (recv_slot c) [Suc g..<d]) inb"
    using h up by simp_all
  ultimately have ib': "inbox_at (c', s') (Suc g) d inb (Some (a, bs))"
    by (simp add: inbox_at_def c'(1) s'(1))
  have "load_bytes (umem s') a (length bs) = bs" using hb by (simp add: holds_msg_def a s')
  then show ?thesis
    using ib' at \<open>send_inv u_sends u_gone u_polled (c', s') = _\<close> \<open>waiting_sends s' = _\<close> by (auto simp: port_at_def c' s')
qed

text \<open>When nothing waits to be carried a send does not block.\<close>

lemma port_send_ready:
  assumes at: "port_at (c, s) [] inb held" and cnt: "sendCounter c1 = sendCounter c"
  shows "\<exists>x. sendRawMessage ud_post_send ud_poll_send wc c1 a b qpn ah s = Some x"
proof (cases "sendCounter c AND SIGNAL_BATCH = 0 \<and> 0 < sendCounter c")
  case True
  let ?n = "length (u_sends s)"
  from at have si: "send_inv u_sends u_gone u_polled (c, s)" and n: "?n < 2 ^ 64" and all: "u_gone s = ?n"
    using send_inv_flight(2) [of u_sends u_gone u_polled c s] by (auto simp: port_at_def waiting_sends_def)
  from si n have wrs: "\<forall>i < ?n. signaled (u_sends s ! i) \<longleftrightarrow> i mod 32 = 0"
    and sc: "sendCounter c = word_of_nat ?n" and tk: "u_polled s = (?n - 1) div 32"
    by (simp_all add: send_inv_def)
  have z: "?n mod 32 = 0" "0 < ?n"
    using True signal_batch_mod [OF n] by (auto simp: sc)
  have "completions_due u_sends u_gone s = (?n + 31) div 32"
    using count_signaled [OF wrs] by (simp add: completions_due_def all)
  moreover have "(?n - 1) div 32 < (?n + 31) div 32"
  proof -
    obtain j where "?n = 32 * Suc j" using z by (metis mult_0_right mod_0_imp_dvd dvdE not0_implies_Suc less_not_refl)
    then show ?thesis by simp
  qed
  ultimately have "u_polled s < completions_due u_sends u_gone s" using tk by simp
  then have "ud_poll_send s = (1, Some success_wc, s\<lparr>u_polled := Suc (u_polled s)\<rparr>)" by (simp add: ud_poll_send_def)
  from pollWithCQ_once [of ud_poll_send, OF this] obtain ex where "pollWithCQ ud_poll_send 1 wc s = Some (ex, success_wc, s\<lparr>u_polled := Suc (u_polled s)\<rparr>)" by blast
  then show ?thesis using True cnt by (auto simp: sendRawMessage_def await_signal_def)
qed (use cnt in \<open>auto simp: sendRawMessage_def await_signal_def\<close>)

text \<open>A fresh connection whose receive requests have been posted is an empty mailbox.\<close>

definition ud_fresh :: "ud_card \<Rightarrow> bool" where
  "ud_fresh s \<longleftrightarrow> u_posted s = [] \<and> u_filled s = [] \<and> u_sends s = [] \<and> u_gone s = 0 \<and> u_polled s = 0"

lemma port_start:
  assumes "port_layout c" "curMessage c = 0" "curSend c = 0" "sendCounter c = 0" "ud_fresh s"
    and init: "initRecv ud_post_recv c s = (c', s')"
  shows "port_at (c', s') [] [] None \<and> messageNR c' = messageNR c"
proof -
  have ok: "pool_ok c" "0 < unat (messageNR c)" using assms(1) by (simp_all add: port_layout_def pool_ok_def)
  have posts: "\<exists>ps. fold (post_batch ud_post_recv) bs s = s\<lparr>u_posted := ps\<rparr>" for bs and s :: ud_card
  proof (induction bs arbitrary: s)
    case Nil
    show ?case by (intro exI [of _ "u_posted s"]) simp
  next
    case (Cons b bs)
    let ?s = "post_batch ud_post_recv b s"
    obtain ps where "fold (post_batch ud_post_recv) bs ?s = ?s\<lparr>u_posted := ps\<rparr>" using Cons by blast
    moreover have "?s\<lparr>u_posted := ps\<rparr> = s\<lparr>u_posted := ps\<rparr>" by (simp add: post_batch_def ud_post_recv_def)
    ultimately show ?case by (intro exI [of _ ps]) simp
  qed
  then obtain bs where s': "s' = s\<lparr>u_posted := bs\<rparr>"
    using init posts by (auto simp: initRecv_def Let_def)
  have c': "sendPool c' = sendPool c" "messageNR c' = messageNR c" "port_layout c' = port_layout c"
    "sendCounter c' = sendCounter c" "curSend c' = curSend c" "send_slot c' = send_slot c"
    using init by (auto simp: initRecv_def Let_def port_layout_def pool_ok_def send_slot_def)
  have "recv_at u_posted u_filled (c', s') 0 0"
    using initRecv_at [OF ud_recv_laws ok(1) assms(2), of s] init assms(5) by (simp add: ud_fresh_def)
  then have "inbox_at (c', s') 0 0 [] None" by (simp add: inbox_at_def)
  moreover have "unat (sendPool c) + unat (messageNR c) * MESSAGE_SIZE \<le> 2 ^ 64"
  proof -
    have "unat (sendPool c) = unat (messagePool c) + unat (messageNR c) * MESSAGE_SIZE"
      using assms(1) unat_slot_addr [of "messagePool c" "2 * unat (messageNR c)" MESSAGE_SIZE "unat (messageNR c)"] ok(2)
      by (simp add: port_layout_def MESSAGE_SIZE_def)
    then show ?thesis using assms(1) by (simp add: port_layout_def algebra_simps)
  qed
  ultimately show ?thesis
    using assms ok(2) c' by (auto simp: port_at_def send_inv_def sq_ok_def completions_due_def waiting_sends_def ud_fresh_def s')
qed

section \<open>A mailbox\<close>

text \<open>
  What a receiver takes for the message at \<open>a\<close>: as many bytes as its size field says. The
  network brings messages whose size field is right.
\<close>

definition message_bytes :: "(u64 \<Rightarrow> u8) \<Rightarrow> u64 \<Rightarrow> u8 list" where
  "message_bytes m a = load_bytes m a (unat (request_size m a))"

definition rpc_bytes :: "u8 list \<Rightarrow> bool" where
  "rpc_bytes bs \<longleftrightarrow> 6 \<le> length bs \<and> length bs = unat (6 + le_word [bs ! 4, bs ! 5] :: u64)"

lemma message_bytes_loaded:
  assumes "load_bytes m a (length bs) = bs" "rpc_bytes bs"
  shows "message_bytes m a = bs"
proof -
  have "m (a + word_of_nat i) = bs ! i" if "i < length bs" for i
  proof -
    have "load_bytes m a (length bs) ! i = m (a + word_of_nat i)" using that by (simp add: load_bytes_def)
    then show ?thesis using assms(1) by simp
  qed
  from this [of 4] this [of 5] assms(2) have "m (a + 4) = bs ! 4" "m (a + 5) = bs ! 5"
    by (simp_all add: rpc_bytes_def)
  then have "unat (request_size m a) = length bs" using assms(2) by (simp add: request_size_def rpc_bytes_def)
  then show ?thesis using assms(1) by (simp add: message_bytes_def)
qed

type_synonym port_event = "(datagram, u8 list) mail_event"

inductive port_step :: "ibv_wc \<Rightarrow> MsgConn \<times> ud_card \<Rightarrow> port_event \<Rightarrow> MsgConn \<times> ud_card \<Rightarrow> bool" for wc where
  send: "getSendPool c = (a, c1) \<Longrightarrow>
     sendRawMessage ud_post_send ud_poll_send wc c1 a b qpn ah s = Some (c', s') \<Longrightarrow>
     rpc_wf b \<Longrightarrow> length (bytes_of_rpc b) = MESSAGE_SIZE \<Longrightarrow>
     port_step wc (c, s) (Sent (ah, qpn, take (rpc_size b) (bytes_of_rpc b)))
       (c', s'\<lparr>umem := store_bytes (umem s') a (bytes_of_rpc b)\<rparr>)"
| carry: "ud_carry s = Some (p, s') \<Longrightarrow> port_step wc (c, s) (Carried p) (c, s')"
| land: "u_posted s \<noteq> [] \<Longrightarrow> length hdr = GRH_SIZE \<Longrightarrow> GRH_SIZE + length bs \<le> MESSAGE_SIZE \<Longrightarrow> rpc_bytes bs \<Longrightarrow>
     port_step wc (c, s) (Landed bs) (c, ud_land hdr bs s)"
| take_message: "pollWithCQ ud_poll_recv 1 wc s = Some (ex, w, s1) \<Longrightarrow>
     getMessage ud_post_recv c s1 = (a, c', s') \<Longrightarrow>
     port_step wc (c, s) (Taken (message_bytes (umem s') a)) (c', s')"

lemma port_at_forget: "port_at x pend inb held \<Longrightarrow> port_at x pend inb None"
  by (auto simp: port_at_def inbox_at_def)

lemma ud_poll_recv_once:
  assumes "port_at (c, s) pend inb held" "pollWithCQ ud_poll_recv 1 wc s = Some (ex, w, s1)"
  obtains bs rest where "inb = bs # rest" "w = recv_wc" "s1 = s\<lparr>u_filled := tl (u_filled s)\<rparr>"
proof -
  have ne: "u_filled s \<noteq> []"
    using assms(2) pollWithCQ_idle [of ud_poll_recv s wc] by (auto simp: ud_poll_recv_def)
  then have "ud_poll_recv s = (1, Some recv_wc, s\<lparr>u_filled := tl (u_filled s)\<rparr>)" by (simp add: ud_poll_recv_def)
  from pollWithCQ_once [of ud_poll_recv, OF this, of wc] assms(2)
  have eq: "w = recv_wc" "s1 = s\<lparr>u_filled := tl (u_filled s)\<rparr>" by auto
  from assms(1) obtain g d where "inbox_at (c, s) g d inb held" by (auto simp: port_at_def)
  then have "length inb = length (u_filled s)" by (auto simp: inbox_at_def recv_at_def dest: list_all2_lengthD)
  with ne obtain bs rest where "inb = bs # rest" by (cases inb) auto
  with eq show thesis by (rule that [rotated])
qed

lemma port_step_sends: "port_step wc x e y \<Longrightarrow> length (u_sends (snd x)) \<le> length (u_sends (snd y))"
proof (induction rule: port_step.induct)
  case (send c a c1 b qpn ah s c' s')
  obtain k where "s' = s\<lparr>u_polled := k, u_sends := u_sends s @ [raw_send_wr c1 a b qpn ah]\<rparr>"
    using sendRawMessage_ud [OF send(2)] .
  then show ?case by simp
next
  case (carry s p s' c)
  then show ?case by (auto simp: ud_carry_def split: if_splits)
next
  case (land s hdr bs c)
  then show ?case by (auto simp: ud_land_def split: list.splits)
next
  case (take_message s ex w s1 c a c' s')
  have "u_sends s1 = u_sends s"
    by (rule pollWithCQ_frame [OF take_message(1), of u_sends]) (simp add: ud_poll_recv_def)
  then show ?case using take_message
    by (auto simp: getMessage_def Let_def post_batch_def ud_post_recv_def split: if_splits)
qed

definition sends_fit :: "MsgConn \<times> ud_card \<Rightarrow> bool" where
  "sends_fit x \<longleftrightarrow> length (u_sends (snd x)) < 2 ^ 64"

definition port_holds :: "MsgConn \<times> ud_card \<Rightarrow> datagram list \<times> u8 list list \<Rightarrow> bool" where
  "port_holds x b \<longleftrightarrow> port_at x (fst b) (snd b) None \<and> (\<forall>bs \<in> set (snd b). rpc_bytes bs)"

text \<open>The connection with its card implements the mailbox, as long as the sends can be counted.\<close>

interpretation port: mailbox "\<lambda>x e y. port_step wc x e y \<and> sends_fit y" port_holds for wc
proof unfold_locales
  fix x e y b
  assume st: "port_step wc x e y \<and> sends_fit y" and "port_holds x b"
  then obtain pend inb where b: "b = (pend, inb)" and at: "port_at x pend inb None" and ok: "\<forall>bs \<in> set inb. rpc_bytes bs"
    by (cases b) (simp add: port_holds_def)
  from st have "port_step wc x e y" ..
  then show "\<exists>b'. port_holds y b' \<and> mail_moves e b b'"
  proof cases
    case (send c a c1 b' qpn ah s c' s')
    from port_send [OF at [unfolded send(1)] send(4,5) _ send(6,7)] st
    have "port_at y (pend @ [(ah, qpn, take (rpc_size b') (bytes_of_rpc b'))]) inb None" by (simp add: send sends_fit_def)
    then show ?thesis using ok by (simp add: port_holds_def b send)
  next
    case (carry s p s' c)
    from port_carry [OF at [unfolded carry(1)] carry(4)] obtain ps where "pend = p # ps" "port_at y ps inb None"
      by (auto simp: carry)
    then show ?thesis using ok by (intro exI [of _ "(ps, inb)"]) (simp add: port_holds_def b carry)
  next
    case (land s hdr bs c)
    from port_land [OF at [unfolded land(1)] land(5,6,4)] have "port_at y pend (inb @ [bs]) None" by (simp add: land)
    then show ?thesis using ok land(7) by (simp add: port_holds_def b land)
  next
    case (take_message s ex w s1 c a c' s')
    obtain bs rest where q: "inb = bs # rest" "s1 = s\<lparr>u_filled := tl (u_filled s)\<rparr>"
      using ud_poll_recv_once [OF at [unfolded take_message(1)] take_message(4)] .
    from port_take [OF at [unfolded take_message(1) q(1)] take_message(5) [unfolded q(2)]]
    have "port_at y pend rest (Some (a, bs))" and ld: "load_bytes (umem s') a (length bs) = bs" by (simp_all add: take_message)
    then have "port_at y pend rest None" by (blast intro: port_at_forget)
    moreover have "message_bytes (umem s') a = bs" using message_bytes_loaded [OF ld] ok q(1) by simp
    ultimately show ?thesis using ok
      by (intro exI [of _ "(pend, rest)"]) (simp add: port_holds_def b q(1) take_message)
  qed
qed

text \<open>
  C9. A message connection is a mailbox in both directions. In every run of a fresh connection
  whose receive requests are posted, sends, carries, landings and takes in any order, the
  datagrams that the card has carried away are those sent, in the order of the sends and with
  the bytes as they were written, less those that still wait; and the messages taken are those
  landed, in order and byte for byte, less those that still wait. No buffer is reused too
  early on either side.
\<close>

theorem connection_is_mailbox:
  assumes lay: "port_layout c" and fresh: "curMessage c = 0" "curSend c = 0" "sendCounter c = 0" "ud_fresh s"
    and run: "mail_run (port_step wc) (initRecv ud_post_recv c s) es (c', s')"
    and few: "length (u_sends s') < 2 ^ 64"
  shows "sent_in es = carried_in es @ waiting_sends s'
     \<and> (\<exists>inb. landed_in es = taken_in es @ inb \<and> length inb = length (u_filled s'))"
proof -
  obtain c0 s0 where i: "initRecv ud_post_recv c s = (c0, s0)" by (cases "initRecv ud_post_recv c s")
  then have "port_holds (c0, s0) ([], [])" using port_start [OF lay fresh] by (simp add: port_holds_def)
  moreover have "mail_run (\<lambda>x e y. port_step wc x e y \<and> sends_fit y) (c0, s0) es (c', s')"
    using run [unfolded i] few
    by (intro mail_run_restrict) (auto simp: sends_fit_def dest!: port_step_sends)
  ultimately obtain pend inb where
    at: "port_at (c', s') pend inb None" "sent_in es = carried_in es @ pend" "landed_in es = taken_in es @ inb"
    using port.run_accounts [of wc "(c0, s0)" es "(c', s')"] by (auto simp: port_holds_def)
  moreover from at(1) have "pend = waiting_sends s'" "length inb = length (u_filled s')"
    by (auto simp: port_at_def inbox_at_def recv_at_def dest!: list_all2_lengthD)
  ultimately show ?thesis by blast
qed

section \<open>A concrete run of the mailbox\<close>

definition demo_port :: MsgConn where
  "demo_port = \<lparr>conn_qp = 5, messageNR = 64, messagePool = 0x10000, messageLkey = 9, curMessage = 0,
     sendPool = 0x50000, curSend = 0, recvs = [], subNR = 0, sendCounter = 0, sendPadding = 0, recvPadding = 40\<rparr>"

definition demo_ud :: ud_card where
  "demo_ud = \<lparr>umem = (\<lambda>_. 0), u_posted = [], u_filled = [], u_sends = [], u_gone = 0, u_polled = 0\<rparr>"

lemma demo_port_layout: "port_layout demo_port" "curMessage demo_port = 0" "curSend demo_port = 0" "sendCounter demo_port = 0"
  by (simp_all add: port_layout_def demo_port_def pool_ok_def kBatchCount_def MESSAGE_SIZE_def slot_addr_def GRH_SIZE_def)

lemma demo_ud_fresh: "ud_fresh demo_ud"
  by (simp add: ud_fresh_def demo_ud_def)

text \<open>A message of six bytes from thread 7 lands and is taken, and one is sent and carried away.\<close>

theorem connection_is_mailbox_witness:
  "\<exists>x p q c' s'. mail_run (port_step success_wc) (initRecv ud_post_recv demo_port demo_ud)
       [Landed [1, 0, 0, 7, 0, 0], Taken x, Sent p, Carried q] (c', s')
     \<and> x = [1, 0, 0, 7, 0, 0] \<and> p = q"
proof -
  let ?wc = success_wc and ?bs = "[1, 0, 0, 7, 0, 0] :: u8 list" and ?hdr = "replicate GRH_SIZE (0 :: u8)"
  let ?b = "demo_call 0"
  obtain c0 s0 where i: "initRecv ud_post_recv demo_port demo_ud = (c0, s0)" by (cases "initRecv ud_post_recv demo_port demo_ud")
  from port_start [OF demo_port_layout demo_ud_fresh i]
  have at0: "port_at (c0, s0) [] [] None" by blast
  have ok: "rpc_bytes ?bs" "GRH_SIZE + length ?bs \<le> MESSAGE_SIZE" "length ?hdr = GRH_SIZE"
    by (simp_all add: rpc_bytes_def GRH_SIZE_def MESSAGE_SIZE_def)
  have ne: "u_posted s0 \<noteq> []" using port_room [OF at0] by simp
  let ?s1 = "ud_land ?hdr ?bs s0"
  have at1: "port_at (c0, ?s1) [] [?bs] None" using port_land [OF at0 ok(3,2) ne] by simp
  have st1: "port_step ?wc (c0, s0) (Landed ?bs) (c0, ?s1)" by (rule port_step.land [OF ne ok(3,2,1)])
  have f: "u_filled ?s1 \<noteq> []" using ne ok by (auto simp: ud_land_def split: list.splits)
  let ?s2 = "?s1\<lparr>u_filled := tl (u_filled ?s1)\<rparr>"
  have "ud_poll_recv ?s1 = (1, Some recv_wc, ?s2)" using f by (simp add: ud_poll_recv_def)
  from pollWithCQ_once [of ud_poll_recv, OF this, of ?wc] obtain ex where p: "pollWithCQ ud_poll_recv 1 ?wc ?s1 = Some (ex, recv_wc, ?s2)" by blast
  obtain a c2 s3 where g: "getMessage ud_post_recv c0 ?s2 = (a, c2, s3)" by (metis prod_cases3)
  have at2: "port_at (c2, s3) [] [] (Some (a, ?bs))" using port_take [OF at1 g] by blast
  let ?x = "message_bytes (umem s3) a"
  have st2: "port_step ?wc (c0, ?s1) (Taken ?x) (c2, s3)" by (rule port_step.take_message [OF p g])
  obtain b c3 where sp: "getSendPool c2 = (b, c3)" by (cases "getSendPool c2")
  then have "sendCounter c3 = sendCounter c2" by (auto simp: getSendPool_def)
  from port_send_ready [OF at2 this, of ?wc b ?b 6 8] obtain c4 s4 where
    sr: "sendRawMessage ud_post_send ud_poll_send ?wc c3 b ?b 6 8 s3 = Some (c4, s4)" by auto
  have wf: "rpc_wf ?b" "length (bytes_of_rpc ?b) = MESSAGE_SIZE"
    by (simp_all add: demo_call_def rpc_wf_def bytes_of_rpc_def MESSAGE_SIZE_def)
  let ?p = "(8, 6, take (rpc_size ?b) (bytes_of_rpc ?b)) :: datagram" and ?s5 = "s4\<lparr>umem := store_bytes (umem s4) b (bytes_of_rpc ?b)\<rparr>"
  have st3: "port_step ?wc (c2, s3) (Sent ?p) (c4, ?s5)" by (rule port_step.send [OF sp sr wf])
  have few: "length (u_sends ?s5) = 1"
  proof -
    have 0: "u_sends s3 = []" if "port_at (c2, s3) [] [] (Some (a, ?bs))"
    proof -
      have "u_sends s0 = []" using i by (auto simp: initRecv_def Let_def kBatchCount_def upt_rec post_batch_def ud_post_recv_def demo_ud_def)
      then have "u_sends ?s1 = []" by (auto simp: ud_land_def split: list.splits)
      then show ?thesis using g by (auto simp: getMessage_def Let_def post_batch_def ud_post_recv_def split: if_splits)
    qed
    obtain k where "s4 = s3\<lparr>u_polled := k, u_sends := u_sends s3 @ [raw_send_wr c3 b ?b 6 8]\<rparr>"
      using sendRawMessage_ud [OF sr] .
    then show ?thesis using 0 [OF at2] by simp
  qed
  then have "length (u_sends s4) < 2 ^ 64" by simp
  from port_send [OF at2 sp sr this wf] have at3: "port_at (c4, ?s5) [?p] [] (Some (a, ?bs))" by simp
  from ud_carry_ready [OF this] obtain s6 where c: "ud_carry ?s5 = Some (?p, s6)" by blast
  have st4: "port_step ?wc (c4, ?s5) (Carried ?p) (c4, s6)" by (rule port_step.carry [OF c])
  have run: "mail_run (port_step ?wc) (c0, s0) [Landed ?bs, Taken ?x, Sent ?p, Carried ?p] (c4, s6)"
    using run_snoc [where step = "port_step ?wc", OF run_snoc [where step = "port_step ?wc", OF run_snoc [where step = "port_step ?wc", OF
      run_snoc [where step = "port_step ?wc", OF run_nil st1] st2] st3] st4] by simp
  have few6: "length (u_sends s6) < 2 ^ 64" using c few by (auto simp: ud_carry_def split: if_splits)
  have "u_filled s6 = []" using port_carry [OF at3 c] by (auto simp: port_at_def inbox_at_def recv_at_def dest!: list_all2_lengthD)
  with connection_is_mailbox [OF demo_port_layout demo_ud_fresh run [folded i] few6]
  have "?x = ?bs" by (simp add: events_in)
  then show ?thesis using run unfolding i by blast
qed

end
