(* ===== verification/DSM_Shape.thy ===== *)
theory DSM_Shape
  imports Cluster_Start Message_Port
begin

text \<open>
  Type safety of a \<open>DSM\<close> node: what its constructor (with the keeper's \<open>run\<close>) leaves in the
  tables, that the operations of its threads keep it, and that with it no operation of a
  registered thread leaves a table or follows a null pointer, unless its arguments name a node
  or a thread that does not exist.
\<close>

section \<open>The shape of the tables\<close>

text \<open>The entry for a connected peer: the keys of its directories, one queue pair and one address handle per thread.\<close>

definition entry_ok :: "RemoteConnection \<Rightarrow> bool" where
  "entry_ok r \<longleftrightarrow> length (dsmRKey r) = NR_DIRECTORY \<and> length (appMessageQPN r) = kMaxNetThread \<and> length (appAh r) = kMaxNetThread"




section \<open>What connecting leaves in the tables\<close>

definition meta_sized :: "ExchangeMeta \<Rightarrow> bool" where
  "meta_sized m \<longleftrightarrow> length (dirTh m) = NR_DIRECTORY \<and> length (appUdQpn m) = kMaxNetThread"




text \<open>The node \<open>nd\<close>, which began with the threads of \<open>a\<close>, has entries for the peers in \<open>X\<close>.\<close>

definition filled_in :: "nat \<Rightarrow> node \<Rightarrow> nat set \<Rightarrow> node \<Rightarrow> bool" where
  "filled_in n a X nd \<longleftrightarrow> my_id nd = my_id a \<and> thCon nd = thCon a \<and> meta_sized (localMeta nd)
     \<and> length (remoteCon nd) = n \<and> (\<forall>b < n. b \<in> X \<longrightarrow> entry_ok (remoteCon nd ! b))"

lemma filled_in_setDataToRemote [simp]: "filled_in n a X (setDataToRemote r nd) = filled_in n a X nd"
  by (simp add: filled_in_def meta_sized_def setDataToRemote_def)






section \<open>The loop of the keeper\<close>






section \<open>Construction\<close>



section \<open>The operations\<close>













section \<open>Properties\<close>


section \<open>A node that starts\<close>















end
