(* ===== verification/Server_Node.thy ===== *)
theory Server_Node
  imports DSM Rowan_Client Rowan_Server
begin

text \<open>
  The server program (\<open>test/rowan_server.cpp\<close>): the log of \<open>raw_manage_srq\<close> in the registered
  memory of a node that \<open>DSM\<close> has built. The same memory holds the buffers of the node's
  threads.
\<close>

definition get_server_endpoint :: "dsm \<Rightarrow> nat \<Rightarrow> DirectoryConnection option" where
  "get_server_endpoint d i = (if i < length (dirCon (dsm_node d)) then Some (dirCon (dsm_node d) ! i) else None)"

text \<open>
  The main function after \<open>DSM::get_instance\<close>: it exits unless the node is number 0. The
  driver's view \<open>drv\<close> of the shared receive queue is a parameter.
\<close>

datatype 'a main_result = Exit_main | Serving 'a

definition server_main :: "mlx5_srq \<Rightarrow> dsm \<Rightarrow> rowan_server main_result option" where
  "server_main drv d =
     (if my_node_id d \<noteq> 0 then Some Exit_main
      else Option.bind (get_server_endpoint d 0) (\<lambda>ep.
        map_option Serving (start_server (dir_cachePool ep) (unat (dir_cacheSize ep)) (dir_cacheLKey ep) drv)))"

section \<open>The directory of a built node\<close>

lemma directory_pool:
  "mk_DirectoryConnection dev mp_srq dir pool sz m cachePool cacheSize nic rc s = Some (dc, s')
     \<Longrightarrow> dir_cachePool dc = cachePool \<and> dir_cacheSize dc = cacheSize"
  by (auto simp: mk_DirectoryConnection_def Let_def case_prod_unfold bind_eq_Some_conv)

lemma built_directory:
  assumes "build_connections dev mp_srq d s = Some (d', s')"
  obtains ep where "get_server_endpoint d' 0 = Some ep" "dir_cachePool ep = buf_addr (conf d)" "dir_cacheSize ep = buf_size (conf d)"
    "conf d' = conf d" "my_node_id d' = my_node_id d" "appID d' = appID d"
proof -
  let ?f = "\<lambda>i. mk_DirectoryConnection dev mp_srq (word_of_nat i) (dsm_addr (conf d)) (dsm_size (conf d)) (machine_cnt (conf d))
      (buf_addr (conf d)) (buf_size (conf d)) (nic_name (conf d)) (dsm_mapping d)"
  from assms obtain ts ds s1 where ds: "build_each ?f [0..<NR_DIRECTORY] s1 = Some (ds, s')"
    and d': "d' = d\<lparr>dsm_node := (dsm_node d)\<lparr>thCon := ts, dirCon := ds\<rparr>\<rparr>"
    by (auto simp: build_connections_def Let_def bind_eq_Some_conv)
  from build_each_nth [OF ds] obtain s2 s3 where "length ds = NR_DIRECTORY" "?f 0 s2 = Some (ds ! 0, s3)"
    by (auto simp: NR_DIRECTORY_def)
  then have "dir_cachePool (ds ! 0) = buf_addr (conf d)" "dir_cacheSize (ds ! 0) = buf_size (conf d)" "0 < length ds"
    by (auto simp: NR_DIRECTORY_def dest: directory_pool)
  then show thesis using d' by (intro that [of "ds ! 0"]) (simp_all add: get_server_endpoint_def)
qed

lemma rowan_step_buf_start: "rowan_step x y \<Longrightarrow> buf_start (fst y) = buf_start (fst x)"
proof (induction rule: rowan_step.induct)
  case (serve x y)
  then show ?case by (cases x) (auto simp: server_step.simps split: rowan_pc.splits if_splits)
qed simp

lemma rowan_run_buf_start:
  "reachable (\<lambda>x. x = (sv0, n0)) rowan_step x \<Longrightarrow> buf_start (fst x) = buf_start sv0"
  by (induction rule: reachable.induct) (simp_all add: rowan_step_buf_start)

section \<open>Properties\<close>

text \<open>
  C13. The log stays in registered memory. On a server node whose buffer has room for the 36
  segments the main function starts serving, and in every state that server and card then
  reach, every segment in the card's queue, the one it writes and the one at the server's head
  lie inside the buffer that the node registered with the card.
\<close>

theorem log_in_registered_memory:
  assumes "build_connections dev mp_srq d s = Some (d', s')" and "my_node_id d = 0"
    and "kSrqBufferCnt * kStrideBufSize \<le> unat (buf_size (conf d))"
    and "unat (buf_addr (conf d)) + unat (buf_size (conf d)) \<le> 2 ^ 64"
    and "srq_shape drv (2 * kMpSrqSize)" and "posted n0 = []" and "writing n0 = None"
  shows "\<exists>sv0. server_main drv d' = Some (Serving sv0)
     \<and> (\<forall>sv n. reachable (\<lambda>x. x = (sv0, n0)) rowan_step (sv, n) \<longrightarrow>
          (\<forall>a \<in> (\<lambda>w. sge_addr (hd (rsg_list w))) ` set (posted n) \<union> set_option (writing n) \<union> {seg_addr sv (unat (head sv))}.
             unat (buf_addr (conf d)) \<le> unat a
             \<and> unat a + kStrideBufSize \<le> unat (buf_addr (conf d)) + unat (buf_size (conf d))))"
proof -
  let ?b = "buf_addr (conf d)"
  obtain ep where ep: "get_server_endpoint d' 0 = Some ep" "dir_cachePool ep = ?b" "dir_cacheSize ep = buf_size (conf d)"
    "my_node_id d' = 0" using built_directory [OF assms(1)] assms(2) by metis
  then obtain sv0 where sv0: "start_server ?b (unat (buf_size (conf d))) (dir_cacheLKey ep) drv = Some sv0"
    using assms(3) by (auto simp: start_server_def get_recv_buf_def)
  then have main: "server_main drv d' = Some (Serving sv0)" and b: "buf_start sv0 = ?b"
    using ep by (auto simp: server_main_def start_server_def get_recv_buf_def split: if_splits)
  have start: "rowan_start (sv0, n0)"
    unfolding rowan_start_def prod.case using sv0 assms(4-7) by blast
  have room: "unat ?b + kSrqBufferCnt * kStrideBufSize \<le> 2 ^ 64" using assms(3,4) by linarith
  have "unat ?b \<le> unat a \<and> unat a + kStrideBufSize \<le> unat ?b + unat (buf_size (conf d))"
    if r: "reachable (\<lambda>x. x = (sv0, n0)) rowan_step (sv, n)"
      and a: "a \<in> (\<lambda>w. sge_addr (hd (rsg_list w))) ` set (posted n) \<union> set_option (writing n) \<union> {seg_addr sv (unat (head sv))}" for sv n a
  proof -
    have bs: "buf_start sv = ?b" using rowan_run_buf_start [OF r] b by simp
    have "reachable rowan_start rowan_step (sv, n)"
      using r by (induction "(sv, n)" arbitrary: sv n rule: reachable.induct) (use start in \<open>auto intro: reachable.intros\<close>)
    then have "rowan_inv (sv, n)" by (rule rowan_sys.reachable_inv)
    then obtain h k p where at: "rowan_at (sv, n) h k p" by (auto simp: rowan_inv_def)
    have "\<exists>i < kSrqBufferCnt. a = slot_addr ?b kStrideBufSize i"
    proof -
      have "seg_addr sv (unat (head sv)) = log_seg sv h" using at by (simp add: rowan_at_def log_seg_def)
      then have "\<exists>j. a = log_seg sv j"
        using a at by (auto simp: rowan_at_def split: if_splits)
      then obtain j where "a = slot_addr ?b kStrideBufSize (j mod kSrqBufferCnt)" using bs by (auto simp: log_seg_def seg_addr_def)
      moreover have "j mod kSrqBufferCnt < kSrqBufferCnt" by simp
      ultimately show ?thesis by blast
    qed
    then show ?thesis using seg_ring.slot_in_region [OF room] assms(3) by fastforce
  qed
  with main show ?thesis by blast
qed

text \<open>
  C31. The threads of a server get memory of its log: the first buffer that \<open>register_thread\<close>
  hands out is the first segment that \<open>raw_manage_srq\<close> posts.
\<close>

theorem thread_buffer_is_first_segment:
  assumes "build_connections dev mp_srq d s = Some (d', s')" and "my_node_id d = 0" and "appID d = 0"
    and "server_main drv d' = Some (Serving sv)"
    and "register_thread post_recv sz d' fresh_thread u = Some (d2, t, u')"
  shows "rdma_buffer t = seg_addr sv 0"
proof -
  obtain ep where ep: "get_server_endpoint d' 0 = Some ep" "dir_cachePool ep = buf_addr (conf d)"
    "conf d' = conf d" "my_node_id d' = 0" "appID d' = 0" using built_directory [OF assms(1)] assms(2,3) by metis
  have "seg_addr sv 0 = buf_addr (conf d)"
    using assms(4) ep by (auto simp: server_main_def start_server_def get_recv_buf_def seg_addr_def slot_addr_def split: if_splits)
  then show ?thesis using register_fresh [OF assms(5)] ep by simp
qed

definition demo_server_conf :: dsm where
  "demo_server_conf = demo_dsm\<lparr>my_node_id := 0, conf := (conf demo_dsm)\<lparr>buf_addr := 0x100000, buf_size := 128 * 2 ^ 20\<rparr>\<rparr>"

definition demo_srq :: mlx5_srq where
  "demo_srq = \<lparr>srq_buf = replicate 4096 0, wqe_shift = 5, srq_tail = 127\<rparr>"

lemma demo_server_facts:
  "my_node_id demo_server_conf = 0" "appID demo_server_conf = 0"
  "kSrqBufferCnt * kStrideBufSize \<le> unat (buf_size (conf demo_server_conf))"
  "unat (buf_addr (conf demo_server_conf)) + unat (buf_size (conf demo_server_conf)) \<le> 2 ^ 64"
  "srq_shape demo_srq (2 * kMpSrqSize)"
  by (simp_all add: demo_server_conf_def demo_dsm_def demo_srq_def srq_shape_def rowan_consts kSrqBufferCnt_def)

lemma demo_server_built:
  obtains d1 s' where "build_connections demo_device demo_mp_srq demo_server_conf () = Some (d1, s')"
  using demo_build_any [of demo_server_conf]
  by (auto simp: demo_server_conf_def demo_dsm_def mk_DSMConfig_def mk_ClusterInfo_def)

theorem log_in_registered_memory_witness:
  "\<exists>(sv :: rowan_server) (n :: nic) w. sge_addr (hd (rsg_list w)) = 0x100000 \<and> posted n = [w] \<and> unat (sge_addr (hd (rsg_list w))) + kStrideBufSize \<le> 0x100000 + 128 * 2 ^ 20
     \<and> pc sv = InitClear 1"
proof -
  obtain d1 s' where b: "build_connections demo_device demo_mp_srq demo_server_conf () = Some (d1, s')" by (rule demo_server_built)
  have n0: "posted demo_nic = []" "writing demo_nic = None" by (simp_all add: demo_nic_def)
  from log_in_registered_memory [OF b demo_server_facts(1,3,4,5) n0] obtain sv0 where
    main: "server_main demo_srq d1 = Some (Serving sv0)"
    and inside: "\<And>sv n a. reachable (\<lambda>x. x = (sv0, demo_nic)) rowan_step (sv, n) \<Longrightarrow>
       a \<in> (\<lambda>w. sge_addr (hd (rsg_list w))) ` set (posted n) \<union> set_option (writing n) \<union> {seg_addr sv (unat (head sv))} \<Longrightarrow>
       unat a + kStrideBufSize \<le> unat (buf_addr (conf demo_server_conf)) + unat (buf_size (conf demo_server_conf))" by blast
  obtain ep where "get_server_endpoint d1 0 = Some ep" "dir_cachePool ep = buf_addr (conf demo_server_conf)" "my_node_id d1 = my_node_id demo_server_conf"
    using built_directory [OF b] by metis
  then have sv0: "pc sv0 = InitClear 0" "buf_start sv0 = 0x100000"
    using main demo_server_facts(1)
    by (auto simp: server_main_def start_server_def get_recv_buf_def demo_server_conf_def split: if_splits)
  let ?sv1 = "sv0\<lparr>pc := InitPost 0\<rparr>" and ?n1 = "clear_first (seg_addr sv0 0) demo_nic"
  let ?sv2 = "?sv1\<lparr>pc := InitClear 1\<rparr>" and ?n2 = "recv ?sv1 (seg_addr ?sv1 0) ?n1"
  let ?w = "fillSgeWr_recv (seg_addr ?sv1 0) (word_of_nat kStrideBufSize) (lkey sv0)"
  have "reachable (\<lambda>x. x = (sv0, demo_nic)) rowan_step (sv0, demo_nic)" by (rule reach_start) simp
  then have "reachable (\<lambda>x. x = (sv0, demo_nic)) rowan_step (?sv1, ?n1)"
    by (rule reach_step) (rule serve, simp add: sv0 server_step.simps)
  then have r: "reachable (\<lambda>x. x = (sv0, demo_nic)) rowan_step (?sv2, ?n2)"
    by (rule reach_step) (rule serve, simp add: server_step.simps kSrqBufferCnt_def)
  have p: "posted ?n2 = [?w]" by (simp add: recv_eq clear_first_def demo_nic_def)
  have a: "sge_addr (hd (rsg_list ?w)) = 0x100000"
    by (simp add: fillSgeWr_recv_def mk_sge_def seg_addr_def slot_addr_def sv0)
  have "unat (sge_addr (hd (rsg_list ?w))) + kStrideBufSize \<le> unat (buf_addr (conf demo_server_conf)) + unat (buf_size (conf demo_server_conf))"
    by (rule inside [OF r]) (simp add: p)
  then have "unat (sge_addr (hd (rsg_list ?w))) + kStrideBufSize \<le> 0x100000 + 128 * 2 ^ 20" by (simp add: demo_server_conf_def)
  moreover have "pc ?sv2 = InitClear 1" by simp
  ultimately show ?thesis using a p by blast
qed

theorem thread_buffer_is_first_segment_witness:
  "\<exists>d1 d2 t u' sv. server_main demo_srq d1 = Some (Serving sv)
     \<and> register_thread (\<lambda>b s. (0, s :: unit)) 4096 d1 fresh_thread () = Some (d2, t, u') \<and> rdma_buffer t = seg_addr sv 0"
proof -
  obtain d1 s' where b: "build_connections demo_device demo_mp_srq demo_server_conf () = Some (d1, s')" by (rule demo_server_built)
  obtain ep where ep: "get_server_endpoint d1 0 = Some ep" "dir_cacheSize ep = buf_size (conf demo_server_conf)" "my_node_id d1 = 0"
    "appID d1 = 0" using built_directory [OF b] demo_server_facts(1,2) by metis
  then obtain sv where sv: "server_main demo_srq d1 = Some (Serving sv)"
    using demo_server_facts(3) by (auto simp: server_main_def start_server_def get_recv_buf_def)
  have nums: "unat (machine_cnt (conf demo_server_conf)) = unat (2 :: u16)" "dsm_mapping demo_server_conf = mk_RCMapping 2"
    "unat (my_node_id demo_server_conf) < unat (2 :: u16)"
    by (simp_all add: demo_server_conf_def demo_dsm_def mk_DSMConfig_def mk_ClusterInfo_def)
  have t: "0 \<le> thread_id (fresh_thread\<lparr>thread_id := 0\<rparr>)" "thread_id (fresh_thread\<lparr>thread_id := 0\<rparr>) < int kMaxNetThread"
    by (simp_all add: kMaxNetThread_def)
  obtain tc where "iCon d1 (fresh_thread\<lparr>thread_id := 0\<rparr>) = Some tc"
    using registered_connection [OF demo_device_creates b nums(2,1,3) t] by blast
  then have "iCon (d1\<lparr>appID := 1\<rparr>) (fresh_thread\<lparr>thread_id := 0\<rparr>) = Some tc" by (simp only: iCon_appID)
  then obtain d2 t2 u' where "register_thread (\<lambda>b s. (0, s :: unit)) 4096 d1 fresh_thread () = Some (d2, t2, u')"
    using ep(4) by (auto simp: register_thread_def fresh_thread_def Let_def case_prod_unfold)
  with thread_buffer_is_first_segment [OF b demo_server_facts(1,2) sv this] sv show ?thesis by blast
qed

end
