(* ===== verification/Rowan_Log.thy ===== *)
theory Rowan_Log
  imports Rowan_Server
begin

text \<open>
  What the log contains. \<open>Rowan_Server\<close> leaves open what the card writes into a segment; here the
  card lands one message after the other, each on the next free strides of the segment being
  written, or at the start of the next posted segment when there is no room. Every step is a
  step of \<open>Rowan_Server\<close>, so the statements about segments carry over.
\<close>

section \<open>Landing messages\<close>

definition kStrides :: nat where "kStrides = 2 ^ kLogNumStrides"
definition kStrideBytes :: nat where "kStrideBytes = 2 ^ kLogStrideBytes"

lemma stride_consts: "kStrides = 1024" "kStrideBytes = 64" "kStrideBufSize = 65536" "kSrqBufferCnt = 36"
  by (simp_all add: kStrides_def kStrideBytes_def rowan_consts)

text \<open>A message occupies whole strides.\<close>

definition strides_of :: "u8 list \<Rightarrow> nat" where
  "strides_of bs = (length bs + kStrideBytes - 1) div kStrideBytes"

lemma strides_cover: "length bs \<le> strides_of bs * kStrideBytes"
  unfolding strides_of_def stride_consts by linarith

lemma strides_pos: "bs \<noteq> [] \<Longrightarrow> 0 < strides_of bs"
  unfolding strides_of_def stride_consts by (cases bs) simp_all

lemma strides_fit: "length bs \<le> kStrideBufSize \<Longrightarrow> strides_of bs \<le> kStrides"
  unfolding strides_of_def stride_consts by linarith

text \<open>
  An arrival: the number of the segment since the start, the stride in it and the bytes. The
  card with its count of started segments, the strides used of the current one and the
  arrivals so far, oldest first.
\<close>

record arrival =
  a_seg :: nat
  a_stride :: nat
  a_bytes :: "u8 list"

record log_card =
  nic_of :: nic
  started :: nat
  used :: nat
  arrivals :: "arrival list"

definition write_bytes :: "u64 \<Rightarrow> u8 list \<Rightarrow> (u64 \<Rightarrow> u8) \<Rightarrow> u64 \<Rightarrow> u8" where
  "write_bytes a bs m x = (if unat a \<le> unat x \<and> unat x < unat a + length bs then bs ! (unat x - unat a) else m x)"

text \<open>\<open>None\<close>: no segment is posted.\<close>

definition land :: "u8 list \<Rightarrow> log_card \<Rightarrow> log_card option" where
  "land bs c =
     (let n = nic_of c; k = strides_of bs in
      if writing n \<noteq> None \<and> used c + k \<le> kStrides
      then Some (c\<lparr>nic_of := n\<lparr>mem := write_bytes (the (writing n) + word_of_nat (used c * kStrideBytes)) bs (mem n)\<rparr>,
                   used := used c + k,
                   arrivals := arrivals c @ [\<lparr>a_seg = started c - 1, a_stride = used c, a_bytes = bs\<rparr>]\<rparr>)
      else (case posted n of
              [] \<Rightarrow> None
            | w # ws \<Rightarrow>
                let a = sge_addr (hd (rsg_list w)) in
                Some \<lparr>nic_of = \<lparr>mem = write_bytes a bs (mem n), posted = ws, writing = Some a\<rparr>, started = started c + 1,
                      used = k, arrivals = arrivals c @ [\<lparr>a_seg = started c, a_stride = 0, a_bytes = bs\<rparr>]\<rparr>))"

text \<open>What clients may send: the first byte is not zero, and it fits in a segment.\<close>

definition message_ok :: "u8 list \<Rightarrow> bool" where
  "message_ok bs \<longleftrightarrow> bs \<noteq> [] \<and> hd bs \<noteq> 0 \<and> length bs \<le> kStrideBufSize"

inductive log_step :: "rowan_server \<times> log_card \<Rightarrow> rowan_server \<times> log_card \<Rightarrow> bool" where
  log_serve: "server_step (sv, nic_of c) = Some (sv', n') \<Longrightarrow> log_step (sv, c) (sv', c\<lparr>nic_of := n'\<rparr>)"
| log_land: "message_ok bs \<Longrightarrow> land bs c = Some c' \<Longrightarrow> log_step (sv, c) (sv, c')"

inductive_cases log_stepE: "log_step (sv, c) y"

definition log_start :: "rowan_server \<times> log_card \<Rightarrow> bool" where
  "log_start x \<longleftrightarrow> (case x of (sv, c) \<Rightarrow> rowan_start (sv, nic_of c) \<and> started c = 0 \<and> used c = 0 \<and> arrivals c = [])"

section \<open>Places in the log\<close>

definition loc :: "rowan_server \<Rightarrow> nat \<Rightarrow> nat \<Rightarrow> u64" where
  "loc sv i k = log_seg sv i + word_of_nat k"

lemma log_seg_room:
  assumes "unat (buf_start sv) + kSrqBufferCnt * kStrideBufSize \<le> 2 ^ 64"
  shows "unat (log_seg sv i) + kStrideBufSize \<le> 2 ^ 64"
  using seg_ring.slot_in_region(2) [OF assms, of "i mod kSrqBufferCnt"] assms
  by (simp add: log_seg_def seg_addr_def)

lemma unat_loc:
  assumes "unat (buf_start sv) + kSrqBufferCnt * kStrideBufSize \<le> 2 ^ 64" "k < kStrideBufSize"
  shows "unat (loc sv i k) = unat (log_seg sv i) + k"
proof -
  have "unat (word_of_nat k :: u64) = k" using assms(2) by (simp add: unsigned_of_nat take_bit_nat_eq_self stride_consts)
  then show ?thesis
    using log_seg_room [OF assms(1), of i] assms(2) unfolding loc_def by (subst unat_word_ariths) simp
qed

lemma loc_in_segment:
  assumes "unat (buf_start sv) + kSrqBufferCnt * kStrideBufSize \<le> 2 ^ 64" "k < kStrideBufSize"
  shows "in_segment (log_seg sv i) (loc sv i k)"
  using assms by (simp add: in_segment_def unat_loc)

lemma loc_apart:
  assumes room: "unat (buf_start sv) + kSrqBufferCnt * kStrideBufSize \<le> 2 ^ 64" and k: "k < kStrideBufSize"
    and ij: "i \<noteq> j" "i < j + kSrqBufferCnt" "j < i + kSrqBufferCnt"
  shows "\<not> in_segment (log_seg sv j) (loc sv i k)"
proof -
  have "disjoint_bufs kStrideBufSize (log_seg sv i) (log_seg sv j) \<or> disjoint_bufs kStrideBufSize (log_seg sv j) (log_seg sv i)"
    using log_seg_disjoint [OF room, of i j] log_seg_disjoint [OF room, of j i] ij by (cases i j rule: linorder_cases) auto
  then show ?thesis using k by (auto simp: in_segment_def unat_loc [OF room k] disjoint_bufs_def)
qed

lemma write_at_loc:
  assumes room: "unat (buf_start sv) + kSrqBufferCnt * kStrideBufSize \<le> 2 ^ 64"
    and k: "k + length bs \<le> kStrideBufSize" "k < kStrideBufSize" and l: "l < kStrideBufSize"
  shows "write_bytes (loc sv i k) bs m (loc sv i l) = (if k \<le> l \<and> l < k + length bs then bs ! (l - k) else m (loc sv i l))"
  using unat_loc [OF room k(2), of i] unat_loc [OF room l, of i] by (simp add: write_bytes_def)

lemma write_outside:
  assumes room: "unat (buf_start sv) + kSrqBufferCnt * kStrideBufSize \<le> 2 ^ 64"
    and k: "k + length bs \<le> kStrideBufSize" "k < kStrideBufSize" and x: "\<not> in_segment (log_seg sv i) x"
  shows "write_bytes (loc sv i k) bs m x = m x"
  using x k unat_loc [OF room k(2), of i] by (auto simp: write_bytes_def in_segment_def)

section \<open>The invariant\<close>

text \<open>
  \<open>h\<close> segments have been recycled; recycling clears the first byte of the segment and nothing
  else, so a message stays until the card starts its segment again, 36 segments later.
\<close>

definition cleared :: "rowan_server \<Rightarrow> nat \<Rightarrow> arrival \<Rightarrow> bool" where
  "cleared sv h e \<longleftrightarrow> a_stride e = 0 \<and> (a_seg e < h \<or> a_seg e = h \<and> pc sv = Post)"

definition in_log :: "rowan_server \<Rightarrow> nat \<Rightarrow> nic \<Rightarrow> arrival \<Rightarrow> bool" where
  "in_log sv h n e \<longleftrightarrow> (\<forall>j < length (a_bytes e).
     mem n (loc sv (a_seg e) (a_stride e * kStrideBytes + j)) = (if j = 0 \<and> cleared sv h e then 0 else a_bytes e ! j))"

definition a_end :: "arrival \<Rightarrow> nat" where
  "a_end e = a_stride e + strides_of (a_bytes e)"

definition before :: "arrival \<Rightarrow> arrival \<Rightarrow> bool" where
  "before e f \<longleftrightarrow> a_seg e < a_seg f \<or> a_seg e = a_seg f \<and> a_end e \<le> a_stride f"

definition log_at :: "rowan_server \<Rightarrow> log_card \<Rightarrow> nat \<Rightarrow> nat \<Rightarrow> bool" where
  "log_at sv c h p \<longleftrightarrow> rowan_at (sv, nic_of c) h (started c) p
   \<and> (0 < started c \<longrightarrow> 0 < used c \<and> used c \<le> kStrides)
   \<and> sorted_wrt before (arrivals c)
   \<and> (\<forall>e \<in> set (arrivals c). message_ok (a_bytes e) \<and> a_seg e < started c \<and> a_end e \<le> kStrides
        \<and> (a_seg e = started c - 1 \<longrightarrow> a_end e \<le> used c)
        \<and> (started c \<le> a_seg e + kSrqBufferCnt \<longrightarrow> in_log sv h (nic_of c) e))"

definition log_inv :: "rowan_server \<times> log_card \<Rightarrow> bool" where
  "log_inv x \<longleftrightarrow> (case x of (sv, c) \<Rightarrow> \<exists>h p. log_at sv c h p)"

lemma rowan_at_facts:
  assumes "rowan_at (sv, n) h d p"
  shows "unat (buf_start sv) + kSrqBufferCnt * kStrideBufSize \<le> 2 ^ 64" and "h \<le> d" and "d \<le> p" and "p \<le> h + kSrqBufferCnt"
    and "0 < d \<Longrightarrow> h < d" and "pc sv = Post \<Longrightarrow> h + 2 \<le> d" and "pc sv = Clear \<Longrightarrow> h + 2 \<le> d \<and> p = h + kSrqBufferCnt"
    and "writing n = (if d = 0 then None else Some (log_seg sv (d - 1)))" and "posted n = map (seg_wr sv) [d..<p]"
    and "unat (head sv) = h mod kSrqBufferCnt"
    and "pc sv = InitClear k \<Longrightarrow> h = 0 \<and> p = k \<and> k < kSrqBufferCnt"
  using assms by (auto simp: rowan_at_def split: rowan_pc.splits)

lemma arrival_offset:
  assumes "a_end e \<le> kStrides" "j < length (a_bytes e)"
  shows "a_stride e * kStrideBytes + j < a_end e * kStrideBytes" "a_stride e * kStrideBytes + j < kStrideBufSize"
proof -
  show "a_stride e * kStrideBytes + j < a_end e * kStrideBytes"
    using strides_cover [of "a_bytes e"] assms(2) by (simp add: a_end_def distrib_right)
  moreover have "a_end e * kStrideBytes \<le> kStrideBufSize" using assms(1) by (simp add: stride_consts)
  ultimately show "a_stride e * kStrideBytes + j < kStrideBufSize" by simp
qed

section \<open>A message lands\<close>

text \<open>The effect of a write at \<open>k\<close> of segment \<open>i\<close> on an arrival of another place.\<close>

lemma in_log_write:
  assumes room: "unat (buf_start sv) + kSrqBufferCnt * kStrideBufSize \<le> 2 ^ 64"
    and k: "k + length bs \<le> kStrideBufSize" "k < kStrideBufSize"
    and e: "a_end e \<le> kStrides" "a_seg e \<noteq> i \<and> a_seg e < i + kSrqBufferCnt \<and> i < a_seg e + kSrqBufferCnt
      \<or> a_seg e = i \<and> a_end e * kStrideBytes \<le> k"
    and old: "in_log sv h n e" and m: "mem n' = write_bytes (loc sv i k) bs (mem n)"
  shows "in_log sv h n' e"
proof -
  have "write_bytes (loc sv i k) bs (mem n) (loc sv (a_seg e) (a_stride e * kStrideBytes + j))
      = mem n (loc sv (a_seg e) (a_stride e * kStrideBytes + j))" if j: "j < length (a_bytes e)" for j
  proof -
    note o = arrival_offset [OF e(1) j]
    show ?thesis
    proof (cases "a_seg e = i")
      case True
      then have "a_stride e * kStrideBytes + j < k" using e(2) o(1) by auto
      then show ?thesis using write_at_loc [OF room k o(2), of i] True by simp
    next
      case False
      then have "\<not> in_segment (log_seg sv i) (loc sv (a_seg e) (a_stride e * kStrideBytes + j))"
        using loc_apart [OF room o(2), of "a_seg e" i] e(2) by blast
      then show ?thesis by (rule write_outside [OF room k])
    qed
  qed
  then show ?thesis using old by (simp add: in_log_def m)
qed

lemma in_log_new:
  assumes room: "unat (buf_start sv) + kSrqBufferCnt * kStrideBufSize \<le> 2 ^ 64"
    and k: "u * kStrideBytes + length bs \<le> kStrideBufSize" "u * kStrideBytes < kStrideBufSize"
    and m: "mem n' = write_bytes (loc sv i (u * kStrideBytes)) bs (mem n)" and c: "\<not> cleared sv h \<lparr>a_seg = i, a_stride = u, a_bytes = bs\<rparr>"
  shows "in_log sv h n' \<lparr>a_seg = i, a_stride = u, a_bytes = bs\<rparr>"
  using k write_at_loc [OF room k] c by (simp add: in_log_def m)

lemma land_at:
  assumes at: "log_at sv c h p" and ok: "message_ok bs" and l: "land bs c = Some c'"
  shows "log_at sv c' h p" and "nic_step (nic_of c) (nic_of c')"
proof -
  let ?d = "started c" and ?k = "strides_of bs" and ?n = "nic_of c"
  have ra: "rowan_at (sv, ?n) h ?d p" and us: "0 < ?d \<Longrightarrow> 0 < used c \<and> used c \<le> kStrides"
    and srt: "sorted_wrt before (arrivals c)"
    and es: "\<And>e. e \<in> set (arrivals c) \<Longrightarrow> message_ok (a_bytes e) \<and> a_seg e < ?d \<and> a_end e \<le> kStrides
        \<and> (a_seg e = ?d - 1 \<longrightarrow> a_end e \<le> used c) \<and> (?d \<le> a_seg e + kSrqBufferCnt \<longrightarrow> in_log sv h ?n e)"
    using at by (auto simp: log_at_def)
  note f = rowan_at_facts [OF ra]
  note room = f(1)
  have k: "0 < ?k" "?k \<le> kStrides" "length bs \<le> ?k * kStrideBytes"
    using ok strides_pos strides_fit strides_cover by (auto simp: message_ok_def)
  have "log_at sv c' h p \<and> nic_step ?n (nic_of c')"
  proof (cases "writing ?n \<noteq> None \<and> used c + ?k \<le> kStrides")
    case True
    then have d: "0 < ?d" "writing ?n = Some (log_seg sv (?d - 1))" using f(8) by (auto split: if_splits)
    let ?u = "used c * kStrideBytes" and ?e = "\<lparr>a_seg = ?d - 1, a_stride = used c, a_bytes = bs\<rparr>"
    let ?m = "write_bytes (loc sv (?d - 1) ?u) bs (mem ?n)"
    have c': "c' = c\<lparr>nic_of := ?n\<lparr>mem := ?m\<rparr>, used := used c + ?k, arrivals := arrivals c @ [?e]\<rparr>"
      using l True d by (simp add: land_def Let_def loc_def)
    have u: "0 < used c" using us d(1) by simp
    have fit: "?u + length bs \<le> kStrideBufSize" "?u < kStrideBufSize"
      using True k by (auto simp: stride_consts)
    have z: "log_seg sv (?d - 1) = loc sv (?d - 1) 0" by (simp add: loc_def)
    have keep: "?m (log_seg sv (?d - 1)) = mem ?n (log_seg sv (?d - 1))"
      unfolding z using write_at_loc [OF room fit, of 0 "?d - 1"] u by (simp add: stride_consts)
    have keep2: "\<forall>x. \<not> in_segment (log_seg sv (?d - 1)) x \<longrightarrow> ?m x = mem ?n x" using write_outside [OF room fit] by blast
    have ra': "rowan_at (sv, ?n\<lparr>mem := ?m\<rparr>) h ?d p" by (rule nic_write_at [OF ra d(2) keep keep2])
    have new: "in_log sv h (?n\<lparr>mem := ?m\<rparr>) ?e"
      using in_log_new [OF room fit, of "?n\<lparr>mem := ?m\<rparr>" "?d - 1" ?n h] u by (simp add: cleared_def)
    have old: "in_log sv h (?n\<lparr>mem := ?m\<rparr>) e" if e: "e \<in> set (arrivals c)" "?d \<le> a_seg e + kSrqBufferCnt" for e
    proof (rule in_log_write [OF room fit])
      show "a_end e \<le> kStrides" "in_log sv h ?n e" using es [OF e(1)] e(2) by simp_all
      show "a_seg e \<noteq> ?d - 1 \<and> a_seg e < ?d - 1 + kSrqBufferCnt \<and> ?d - 1 < a_seg e + kSrqBufferCnt
          \<or> a_seg e = ?d - 1 \<and> a_end e * kStrideBytes \<le> ?u"
        using es [OF e(1)] e(2) d(1) by (auto simp: stride_consts)
    qed simp
    have "before e ?e" if "e \<in> set (arrivals c)" for e using es [OF that] by (auto simp: before_def)
    then have "sorted_wrt before (arrivals c @ [?e])" using srt by (simp add: sorted_wrt_append)
    moreover have "a_end e \<le> used c + ?k" if "e \<in> set (arrivals c)" "a_seg e = ?d - 1" for e using es [OF that(1)] that(2) by simp
    moreover have "a_end ?e = used c + ?k" by (simp add: a_end_def)
    ultimately have "log_at sv c' h p"
      using ra' new old es ok True d(1) u unfolding c' log_at_def by auto
    moreover have "nic_step ?n (nic_of c')" unfolding c' using nic_write [OF d(2) keep keep2] by simp
    ultimately show ?thesis by blast
  next
    case False
    then obtain w ws where w: "posted ?n = w # ws" using l by (auto simp: land_def Let_def split: list.splits)
    define a where "a = sge_addr (hd (rsg_list w))"
    let ?e = "\<lparr>a_seg = ?d, a_stride = 0, a_bytes = bs\<rparr>" and ?m = "write_bytes a bs (mem ?n)"
    let ?n' = "\<lparr>mem = ?m, posted = ws, writing = Some a\<rparr>"
    have c': "c' = \<lparr>nic_of = ?n', started = ?d + 1, used = ?k, arrivals = arrivals c @ [?e]\<rparr>"
      using l False w by (auto simp: land_def Let_def a_def)
    have dp: "?d < p" using f(9) w f(3) by (cases "?d = p") auto
    then have "[?d..<p] = ?d # [Suc ?d..<p]" by (rule upt_conv_Cons)
    then have a: "a = loc sv ?d 0" using f(9) w by (auto simp: a_def loc_def)
    have fit: "0 * kStrideBytes + length bs \<le> kStrideBufSize" "0 * kStrideBytes < kStrideBufSize" using ok by (auto simp: message_ok_def stride_consts)
    have keep: "?m a \<noteq> 0" "\<forall>x. \<not> in_segment a x \<longrightarrow> ?m x = mem ?n x"
      using write_outside [OF room, of 0 bs ?d] fit ok hd_conv_nth [of bs]
      by (auto simp: a loc_def message_ok_def write_bytes_def)
    have ra': "rowan_at (sv, ?n') h (Suc ?d) p" by (rule nic_next_at(2) [OF ra w a_def keep])
    have "\<not> cleared sv h ?e" using f(2,6) by (auto simp: cleared_def)
    then have new: "in_log sv h ?n' ?e" using in_log_new [OF room fit, of ?n' ?d ?n h] by (simp add: a)
    have old: "in_log sv h ?n' e" if e: "e \<in> set (arrivals c)" "Suc ?d \<le> a_seg e + kSrqBufferCnt" for e
    proof (rule in_log_write [OF room fit])
      show "a_end e \<le> kStrides" "in_log sv h ?n e" using es [OF e(1)] e(2) by simp_all
      show "a_seg e \<noteq> ?d \<and> a_seg e < ?d + kSrqBufferCnt \<and> ?d < a_seg e + kSrqBufferCnt \<or> a_seg e = ?d \<and> a_end e * kStrideBytes \<le> 0 * kStrideBytes"
        using es [OF e(1)] e(2) by auto
    qed (simp add: a)
    have "before e ?e" if "e \<in> set (arrivals c)" for e using es [OF that] by (auto simp: before_def)
    then have "sorted_wrt before (arrivals c @ [?e])" using srt by (simp add: sorted_wrt_append)
    moreover have "a_end ?e = ?k" by (simp add: a_end_def)
    moreover have "a_seg e \<noteq> ?d" if "e \<in> set (arrivals c)" for e using es [OF that] by simp
    ultimately have "log_at sv c' h p"
      using ra' new old es ok k unfolding c' log_at_def by (auto simp: less_Suc_eq)
    moreover have "nic_step ?n (nic_of c')" unfolding c' using nic_next [OF w a_def keep] by simp
    ultimately show ?thesis by blast
  qed
  then show "log_at sv c' h p" "nic_step ?n (nic_of c')" by simp_all
qed

section \<open>The server moves\<close>

text \<open>The server only ever clears the first byte of a segment.\<close>

lemma server_step_mem:
  assumes "server_step (sv, n) = Some (sv', n')"
  shows "buf_start sv' = buf_start sv"
    and "mem n' = (case pc sv of InitClear k \<Rightarrow> (mem n)(seg_addr sv k := 0)
           | Clear \<Rightarrow> (mem n)(seg_addr sv (unat (head sv)) := 0) | _ \<Rightarrow> mem n)"
    and "pc sv' = Post \<longleftrightarrow> pc sv = Clear"
  using assms by (auto simp: server_step.simps recv_eq clear_first_def split: rowan_pc.splits if_splits)

lemma log_seg_cong: "buf_start sv' = buf_start sv \<Longrightarrow> log_seg sv' = log_seg sv"
  by (simp add: log_seg_def seg_addr_def fun_eq_iff)

lemma loc_cong: "buf_start sv' = buf_start sv \<Longrightarrow> loc sv' = loc sv"
  by (simp add: loc_def log_seg_def seg_addr_def fun_eq_iff)

lemma first_byte:
  assumes room: "unat (buf_start sv) + kSrqBufferCnt * kStrideBufSize \<le> 2 ^ 64" and k: "k < kStrideBufSize"
    and ij: "i < j + kSrqBufferCnt" "j < i + kSrqBufferCnt"
  shows "loc sv i k = log_seg sv j \<longleftrightarrow> i = j \<and> k = 0"
proof (cases "i = j")
  case True
  show ?thesis
  proof
    assume "loc sv i k = log_seg sv j"
    then have "unat (log_seg sv i) + k = unat (log_seg sv i)" using unat_loc [OF room k, of i] True by simp
    then show "i = j \<and> k = 0" using True by simp
  qed (simp add: loc_def)
next
  case False
  then show ?thesis using loc_apart [OF room k False ij] in_segment_self [of "log_seg sv j"] by auto
qed

lemma serve_at:
  assumes at: "log_at sv c h p" and st: "server_step (sv, nic_of c) = Some (sv', n')"
  shows "\<exists>h' p'. log_at sv' (c\<lparr>nic_of := n'\<rparr>) h' p'"
proof -
  let ?d = "started c" and ?n = "nic_of c"
  have ra: "rowan_at (sv, ?n) h ?d p" using at by (simp add: log_at_def)
  note f = rowan_at_facts [OF ra]
  note room = f(1)
  note s = server_step_mem [OF st]
  obtain h' p' where ra': "rowan_at (sv', n') h' ?d p'" and h': "h' = (if pc sv = Post then Suc h else h)"
    by (rule server_step_at [OF ra]) (use st in auto)
  have cl: "cleared sv' h' e \<longleftrightarrow> cleared sv h e \<or> pc sv = Clear \<and> a_stride e = 0 \<and> a_seg e = h" for e
    using s(3) h' by (cases "pc sv") (auto simp: cleared_def less_Suc_eq)
  have log: "in_log sv' h' n' e" if e: "e \<in> set (arrivals c)" "?d \<le> a_seg e + kSrqBufferCnt" for e
    unfolding in_log_def
  proof (intro allI impI)
    fix j assume j: "j < length (a_bytes e)"
    have e1: "a_seg e < ?d" "a_end e \<le> kStrides" and old: "in_log sv h ?n e" using at e by (auto simp: log_at_def)
    let ?o = "a_stride e * kStrideBytes + j"
    note o = arrival_offset(2) [OF e1(2) j]
    have m: "mem ?n (loc sv (a_seg e) ?o) = (if j = 0 \<and> cleared sv h e then 0 else a_bytes e ! j)"
      using old j by (simp add: in_log_def)
    have z: "?o = 0 \<longleftrightarrow> a_stride e = 0 \<and> j = 0" by (simp add: stride_consts)
    have "mem n' (loc sv (a_seg e) ?o) = (if pc sv = Clear \<and> a_seg e = h \<and> ?o = 0 then 0 else mem ?n (loc sv (a_seg e) ?o))"
    proof (cases "pc sv")
      case (InitClear k)
      note k = f(11) [OF InitClear]
      then have "loc sv (a_seg e) ?o \<noteq> log_seg sv k"
        using first_byte [OF room o, of "a_seg e" k] e1(1) f(3) by auto
      then show ?thesis using s(2) InitClear k by (simp add: log_seg_small)
    next
      case Clear
      then have "h + 2 \<le> ?d \<and> p = h + kSrqBufferCnt" by (rule f(7))
      then have "loc sv (a_seg e) ?o = log_seg sv h \<longleftrightarrow> a_seg e = h \<and> ?o = 0"
        using first_byte [OF room o, of "a_seg e" h] e(2) e1(1) f(3) by auto
      moreover have "seg_addr sv (unat (head sv)) = log_seg sv h" by (simp add: f(10) log_seg_def)
      ultimately show ?thesis using s(2) Clear by simp
    qed (use s(2) in simp_all)
    then show "mem n' (loc sv' (a_seg e) ?o) = (if j = 0 \<and> cleared sv' h' e then 0 else a_bytes e ! j)"
      unfolding loc_cong [OF s(1)] cl m z by auto
  qed
  have "log_at sv' (c\<lparr>nic_of := n'\<rparr>) h' p'" using at ra' log by (auto simp: log_at_def)
  then show ?thesis by blast
qed

interpretation log_sys: invariant_system log_start log_step log_inv
proof unfold_locales
  fix x :: "rowan_server \<times> log_card" assume "log_start x"
  then show "log_inv x"
    using start_at by (cases x) (auto simp: log_start_def log_inv_def log_at_def)
next
  fix x y :: "rowan_server \<times> log_card" assume "log_step x y" "log_inv x"
  then show "log_inv y"
  proof (induction rule: log_step.induct)
    case (log_serve sv c sv' n')
    then show ?case using serve_at by (auto simp: log_inv_def)
  next
    case (log_land bs c c' sv)
    then show ?case using land_at(1) unfolding log_inv_def prod.case by blast
  qed
qed

section \<open>The content of the log\<close>

text \<open>The recycled segments are those posted beyond the 36 of the start.\<close>

lemma log_at_recycled:
  assumes "log_at sv c h p"
  shows "cleared sv h e \<longleftrightarrow> cleared sv (started c + length (posted (nic_of c)) - kSrqBufferCnt) e"
proof -
  have ra: "rowan_at (sv, nic_of c) h (started c) p" using assms by (simp add: log_at_def)
  have "length (posted (nic_of c)) = p - started c" "started c \<le> p" using rowan_at_facts(3,9) [OF ra] by simp_all
  then have "started c + length (posted (nic_of c)) - kSrqBufferCnt = p - kSrqBufferCnt" by simp
  then show ?thesis using ra by (cases "pc sv") (auto simp: cleared_def rowan_at_def)
qed

lemma log_content:
  assumes "reachable log_start log_step (sv, c)" "e \<in> set (arrivals c)" "started c \<le> a_seg e + kSrqBufferCnt" "j < length (a_bytes e)"
  shows "mem (nic_of c) (log_seg sv (a_seg e) + word_of_nat (a_stride e * kStrideBytes + j))
     = (if j = 0 \<and> cleared sv (started c + length (posted (nic_of c)) - kSrqBufferCnt) e then 0 else a_bytes e ! j)"
proof -
  obtain h p where at: "log_at sv c h p" using log_sys.reachable_inv [OF assms(1)] by (auto simp: log_inv_def)
  then have "in_log sv h (nic_of c) e" using assms(2,3) by (simp add: log_at_def)
  then show ?thesis using assms(4) log_at_recycled [OF at] by (simp add: in_log_def loc_def)
qed

section \<open>Room for the next message\<close>

text \<open>How many statements of the server remain until it posts the next segment.\<close>

fun to_post :: "rowan_pc \<Rightarrow> nat" where
  "to_post (InitClear k) = 2" | "to_post (InitPost k) = 1" | "to_post Poll = 4" | "to_post FreeWqe = 3"
| "to_post Clear = 2" | "to_post Post = 1"

text \<open>
  When the queue is empty the card has started the segment after \<open>head\<close>, so the server does not
  wait at the poll.
\<close>

lemma empty_queue_step:
  assumes at: "rowan_at (sv, n) h d p" and e: "posted n = []"
  shows "\<exists>sv' n' h' p'. server_step (sv, n) = Some (sv', n') \<and> rowan_at (sv', n') h' d p'
     \<and> (posted n' \<noteq> [] \<or> to_post (pc sv') < to_post (pc sv))"
proof -
  note f = rowan_at_facts [OF at]
  have dp: "d = p" using f(3,9) e by auto
  obtain sv' n' h' p' where st: "server_step (sv, n) = Some (sv', n')" "rowan_at (sv', n') h' d p'"
    and p': "p' = (if pc sv = Post \<or> (\<exists>k. pc sv = InitPost k) then Suc p else p)"
    by (rule server_step_at [OF at])
  have "posted n' \<noteq> []" if "to_post (pc sv) = 1"
  proof -
    have "p' = Suc d" using that p' dp by (cases "pc sv") auto
    then show ?thesis using rowan_at_facts(9) [OF st(2)] by simp
  qed
  moreover have "to_post (pc sv') < to_post (pc sv)" if "to_post (pc sv) \<noteq> 1"
  proof (cases "pc sv")
    case Poll
    then have "p = h + kSrqBufferCnt" using at by (simp add: rowan_at_def)
    then have "mem n (log_seg sv (Suc h)) \<noteq> 0" using at dp by (simp add: rowan_at_def stride_consts)
    moreover have "seg_addr sv (unat (next_header sv)) = log_seg sv (Suc h)"
      by (simp add: next_header_eq [OF f(10)] log_seg_def)
    ultimately show ?thesis using st(1) Poll by (auto simp: server_step.simps)
  qed (use st(1) that in \<open>auto simp: server_step.simps\<close>)
  ultimately show ?thesis using st by blast
qed

lemma server_posts_soon:
  assumes "rowan_at (sv, n) h d p" "posted n = []"
  shows "\<exists>k sv' n'. k \<le> to_post (pc sv) \<and> server_run k (sv, n) = Some (sv', n') \<and> posted n' \<noteq> []"
  using assms
proof (induction "to_post (pc sv)" arbitrary: sv n h p rule: less_induct)
  case less
  obtain sv1 n1 h1 p1 where 1: "server_step (sv, n) = Some (sv1, n1)" "rowan_at (sv1, n1) h1 d p1"
    "posted n1 \<noteq> [] \<or> to_post (pc sv1) < to_post (pc sv)" using empty_queue_step [OF less.prems] by blast
  have pos: "0 < to_post (pc sv)" by (cases "pc sv") simp_all
  show ?case
  proof (cases "posted n1 = []")
    case False
    then show ?thesis using 1(1) pos by (intro exI [of _ "Suc 0"]) auto
  next
    case True
    then have lt: "to_post (pc sv1) < to_post (pc sv)" using 1(3) by simp
    from less.hyps [OF this 1(2) True] obtain k sv' n' where
      "k \<le> to_post (pc sv1)" "server_run k (sv1, n1) = Some (sv', n')" "posted n' \<noteq> []" by blast
    then show ?thesis using 1(1) lt by (intro exI [of _ "Suc k"]) auto
  qed
qed

lemma land_room: "posted (nic_of c) \<noteq> [] \<Longrightarrow> land bs c \<noteq> None"
  by (auto simp: land_def Let_def split: list.splits)

section \<open>Properties\<close>

text \<open>
  Landing messages refines the server beside an arbitrary card: what server and card reach
  with the log is reachable in \<open>Rowan_Server\<close>, where the card writes anything in its segment.
\<close>

theorem log_refines_rowan:
  assumes "reachable log_start log_step (sv, c)"
  shows "reachable rowan_start rowan_step (sv, nic_of c)"
proof -
  have "reachable rowan_start rowan_step (fst x, nic_of (snd x))" if "reachable log_start log_step x" for x
    using that
  proof (induction rule: reachable.induct)
    case (reach_start x)
    then show ?case by (cases x) (auto simp: log_start_def intro: reachable.reach_start)
  next
    case (reach_step x y)
    from reach_step.hyps(1) have "log_inv x" by (rule log_sys.reachable_inv)
    with reach_step.hyps(2) have "rowan_step (fst x, nic_of (snd x)) (fst y, nic_of (snd y))"
      by (induction rule: log_step.induct) (auto simp: log_inv_def intro!: serve receive land_at(2))
    with reach_step.IH show ?case by (rule reachable.reach_step)
  qed
  from this [OF assms] show ?thesis by simp
qed

text \<open>
  C3. The log holds the messages in the order of their arrival. In every reachable state each
  message lies in whole strides behind the one before it, and every message whose segment the
  card has not started again (36 segments later) is in memory at its place byte for byte; only the first byte
  of a recycled segment is zero. The recycled segments are those below \<open>h\<close>.
\<close>

theorem rowan_log_holds_messages:
  assumes "reachable log_start log_step (sv, c)"
  defines "h \<equiv> started c + length (posted (nic_of c)) - kSrqBufferCnt"
  shows "sorted_wrt before (arrivals c)
     \<and> (\<forall>e \<in> set (arrivals c). a_seg e < started c \<and> a_end e \<le> kStrides)
     \<and> (\<forall>e \<in> set (arrivals c). started c \<le> a_seg e + kSrqBufferCnt \<longrightarrow>
          (\<forall>j < length (a_bytes e). mem (nic_of c) (log_seg sv (a_seg e) + word_of_nat (a_stride e * kStrideBytes + j))
             = (if j = 0 \<and> cleared sv h e then 0 else a_bytes e ! j)))"
proof -
  obtain h0 p where "log_at sv c h0 p" using log_sys.reachable_inv [OF assms(1)] by (auto simp: log_inv_def)
  then show ?thesis using log_content [OF assms(1)] unfolding h_def by (simp add: log_at_def)
qed

text \<open>
  C4. The server never stops the clients. In every reachable state, any next message can be
  landed after at most four statements of the server, without anything else happening.
\<close>

theorem rowan_never_blocks:
  assumes "reachable log_start log_step (sv, c)"
  shows "\<exists>k \<le> 4. \<exists>sv' n'. server_run k (sv, nic_of c) = Some (sv', n') \<and> land bs (c\<lparr>nic_of := n'\<rparr>) \<noteq> None"
proof -
  obtain h p where "log_at sv c h p" using log_sys.reachable_inv [OF assms] by (auto simp: log_inv_def)
  then have ra: "rowan_at (sv, nic_of c) h (started c) p" by (simp add: log_at_def)
  show ?thesis
  proof (cases "posted (nic_of c) = []")
    case True
    from server_posts_soon [OF ra this] obtain k sv' n' where
      k: "k \<le> to_post (pc sv)" "server_run k (sv, nic_of c) = Some (sv', n')" "posted n' \<noteq> []" by blast
    have "to_post (pc sv) \<le> 4" by (cases "pc sv") simp_all
    then show ?thesis using k land_room [of "c\<lparr>nic_of := n'\<rparr>"] by (intro exI [of _ k]) auto
  next
    case False
    then show ?thesis using land_room [of c] by (intro exI [of _ 0]) auto
  qed
qed

section \<open>A first message\<close>

lemma log_server_run:
  "reachable log_start log_step (sv, c) \<Longrightarrow> server_run k (sv, nic_of c) = Some (sv', n')
     \<Longrightarrow> reachable log_start log_step (sv', c\<lparr>nic_of := n'\<rparr>)"
proof (induction k arbitrary: sv c)
  case (Suc k)
  then obtain sv1 n1 where 1: "server_step (sv, nic_of c) = Some (sv1, n1)" "server_run k (sv1, n1) = Some (sv', n')"
    by (auto simp: bind_eq_Some_conv)
  have "reachable log_start log_step (sv1, c\<lparr>nic_of := n1\<rparr>)" using Suc.prems(1) log_serve [OF 1(1)] by (rule reach_step)
  from Suc.IH [OF this] 1(2) show ?case by simp
next
  case 0
  then have "n' = nic_of c" "sv' = sv" by auto
  with 0(1) show ?case by simp
qed

definition demo_log :: log_card where
  "demo_log = \<lparr>nic_of = demo_nic, started = 0, used = 0, arrivals = []\<rparr>"

lemma demo_log_ready:
  obtains sv n where "reachable log_start log_step (sv, demo_log\<lparr>nic_of := n\<rparr>)" "posted n = map (seg_wr sv) [0..<kSrqBufferCnt]"
    "writing n = None" "pc sv = Poll"
proof -
  have "log_start (demo_server, demo_log)" using demo_rowan_start by (simp add: log_start_def demo_log_def)
  then have r: "reachable log_start log_step (demo_server, demo_log)" by (rule reach_start)
  have "pc demo_server = InitClear 0" by (simp add: demo_server_def start_server_def get_recv_buf_def rowan_consts)
  then obtain sv n where run: "server_run (2 * kSrqBufferCnt) (demo_server, demo_nic) = Some (sv, n)"
    and at: "rowan_at (sv, n) 0 0 kSrqBufferCnt" "pc sv = Poll"
    using init_loop [OF start_at [OF demo_rowan_start], of kSrqBufferCnt] by auto
  have n0: "nic_of demo_log = demo_nic" by (simp add: demo_log_def)
  have q: "posted n = map (seg_wr sv) [0..<kSrqBufferCnt]" "writing n = None" using at(1) by (simp_all add: rowan_at_def)
  show thesis by (rule that [OF log_server_run [OF r, unfolded n0, OF run] q at(2)])
qed

text \<open>A message of two bytes is the first of the log.\<close>

lemma demo_landed:
  obtains sv c where "reachable log_start log_step (sv, c)" "arrivals c = [\<lparr>a_seg = 0, a_stride = 0, a_bytes = [1, 7]\<rparr>]"
    "started c = 1" "pc sv = Poll"
proof -
  obtain sv n where r: "reachable log_start log_step (sv, demo_log\<lparr>nic_of := n\<rparr>)"
    and n: "posted n = map (seg_wr sv) [0..<kSrqBufferCnt]" "writing n = None" "pc sv = Poll" by (rule demo_log_ready)
  have q: "posted n = seg_wr sv 0 # map (seg_wr sv) [Suc 0..<kSrqBufferCnt]" using n(1) by (simp add: upt_conv_Cons)
  let ?c = "demo_log\<lparr>nic_of := n\<rparr>"
  obtain c where c: "land [1, 7] ?c = Some c" "arrivals c = [\<lparr>a_seg = 0, a_stride = 0, a_bytes = [1, 7]\<rparr>]" "started c = 1"
    using q n(2) by (simp add: land_def Let_def demo_log_def)
  have "message_ok [1, 7]" by (simp add: message_ok_def stride_consts)
  then have "reachable log_start log_step (sv, c)" using r log_land [OF _ c(1)] by (blast intro: reach_step)
  then show thesis using c n(3) by (intro that)
qed

theorem log_refines_rowan_witness:
  "\<exists>sv c. reachable log_start log_step (sv, c) \<and> length (arrivals c) = 1 \<and> reachable rowan_start rowan_step (sv, nic_of c)"
proof -
  obtain sv c where r: "reachable log_start log_step (sv, c)" "arrivals c = [\<lparr>a_seg = 0, a_stride = 0, a_bytes = [1, 7]\<rparr>]"
    by (rule demo_landed)
  with log_refines_rowan [OF r(1)] show ?thesis by (intro exI [of _ sv] exI [of _ c]) simp
qed

theorem rowan_log_holds_messages_witness:
  "\<exists>sv c. reachable log_start log_step (sv, c) \<and> arrivals c = [\<lparr>a_seg = 0, a_stride = 0, a_bytes = [1, 7]\<rparr>]
     \<and> mem (nic_of c) (log_seg sv 0 + 1) = 7"
proof -
  obtain sv c where r: "reachable log_start log_step (sv, c)" and a: "arrivals c = [\<lparr>a_seg = 0, a_stride = 0, a_bytes = [1, 7]\<rparr>]"
    and d: "started c = 1" by (rule demo_landed)
  let ?e = "\<lparr>a_seg = 0, a_stride = 0, a_bytes = [1, 7]\<rparr>"
  have "?e \<in> set (arrivals c)" "started c \<le> a_seg ?e + kSrqBufferCnt" "1 < length (a_bytes ?e)"
    by (simp_all add: a d stride_consts)
  with rowan_log_holds_messages [OF r]
  have "mem (nic_of c) (log_seg sv (a_seg ?e) + word_of_nat (a_stride ?e * kStrideBytes + 1)) = a_bytes ?e ! 1" by fastforce
  with r a show ?thesis by (intro exI [of _ sv] exI [of _ c]) simp
qed

theorem rowan_never_blocks_witness:
  "\<exists>sv c k sv' n'. reachable log_start log_step (sv, c) \<and> arrivals c = [\<lparr>a_seg = 0, a_stride = 0, a_bytes = [1, 7]\<rparr>]
     \<and> k \<le> 4 \<and> server_run k (sv, nic_of c) = Some (sv', n') \<and> land (replicate 65536 9) (c\<lparr>nic_of := n'\<rparr>) \<noteq> None"
proof -
  obtain sv c where r: "reachable log_start log_step (sv, c)" "arrivals c = [\<lparr>a_seg = 0, a_stride = 0, a_bytes = [1, 7]\<rparr>]"
    by (rule demo_landed)
  with rowan_never_blocks [OF r(1), of "replicate 65536 9"] show ?thesis by blast
qed

end
