(* ===== verification/Rowan_System.thy ===== *)
theory Rowan_System
  imports Rowan_Log Client_Program
begin

text \<open>
  The whole program: any number of client threads (\<open>test/rowan_client.cpp\<close>), each beside its
  card, a reliable network, and the server (\<open>test/rowan_server.cpp\<close>) beside its card, which
  lands the messages in the log. Everything may be interleaved in any way.
\<close>

section \<open>The system\<close>

text \<open>
  For each client the messages that have been delivered (\<open>got\<close>); \<open>origin\<close> lists the client of
  each arrival in the log.
\<close>

record rowan_world =
  srv :: rowan_server
  slog :: log_card
  cls :: "(client_prog \<times> client_nic) list"
  got :: "nat list"
  origin :: "nat list"

definition sent_by :: "rowan_world \<Rightarrow> nat \<Rightarrow> u8 list list" where
  "sent_by w i = sent (snd (cls w ! i))"

text \<open>
  The network delivers the messages of a client in the order in which its card transmitted
  them. \<open>d i\<close>, \<open>t i\<close> and \<open>wc i\<close> are the node, the thread and the uninitialised completion of
  client \<open>i\<close>.
\<close>

inductive world_step ::
  "(nat \<Rightarrow> dsm) \<Rightarrow> (nat \<Rightarrow> dsm_thread) \<Rightarrow> (nat \<Rightarrow> ibv_wc) \<Rightarrow> rowan_world \<Rightarrow> rowan_world \<Rightarrow> bool"
  for d t wc where
  server_moves: "server_step (srv w, nic_of (slog w)) = Some (sv', n') \<Longrightarrow>
     world_step d t wc w (w\<lparr>srv := sv', slog := (slog w)\<lparr>nic_of := n'\<rparr>\<rparr>)"
| client_moves: "i < length (cls w) \<Longrightarrow> client_sys (d i) (t i) (wc i) (cls w ! i) y \<Longrightarrow>
     world_step d t wc w (w\<lparr>cls := (cls w)[i := y]\<rparr>)"
| delivery: "i < length (cls w) \<Longrightarrow> got w ! i < length (sent_by w i) \<Longrightarrow>
     land (sent_by w i ! (got w ! i)) (slog w) = Some c' \<Longrightarrow>
     world_step d t wc w (w\<lparr>slog := c', got := (got w)[i := Suc (got w ! i)], origin := origin w @ [i]\<rparr>)"

definition world_start :: "client_prog list \<Rightarrow> rowan_world \<Rightarrow> bool" where
  "world_start cps w \<longleftrightarrow> log_start (srv w, slog w) \<and> length (cls w) = length cps
     \<and> (\<forall>i < length cps. client_start (cps ! i) (cls w ! i))
     \<and> got w = replicate (length cps) 0 \<and> origin w = []"

text \<open>The clients are made by \<open>test_rowan\<close>, each on a buffer inside the address space.\<close>

definition clients_made ::
  "'s post_recv_fn \<Rightarrow> (nat \<Rightarrow> dsm) \<Rightarrow> (nat \<Rightarrow> dsm_thread) \<Rightarrow> client_prog list \<Rightarrow> bool" where
  "clients_made post_recv d t cps \<longleftrightarrow>
     (\<forall>i < length cps. (\<exists>d0 s0 s1. test_rowan post_recv d0 s0 = Some (cps ! i, d i, t i, s1))
        \<and> unat (send_buf (client (cps ! i))) + kBufferCnt * MESSAGE_SIZE \<le> 2 ^ 64)"

section \<open>What clients send\<close>

definition is_request :: "u8 list \<Rightarrow> bool" where
  "is_request bs \<longleftrightarrow> length bs = 6 \<and> bs ! 0 = 1 \<and> bs ! 4 = 0 \<and> bs ! 5 = 0"

lemma request_message_ok: "is_request bs \<Longrightarrow> message_ok bs \<and> strides_of bs = 1"
  by (cases bs) (auto simp: is_request_def message_ok_def strides_of_def stride_consts)

lemma client_sends_requests:
  assumes "clients_made post_recv d t cps" "i < length cps"
    and "reachable (client_start (cps ! i)) (client_sys (d i) (t i) wc) x" "bs \<in> set (sent (snd x))"
  shows "is_request bs"
proof -
  obtain d0 s0 s1 where "test_rowan post_recv d0 s0 = Some (cps ! i, d i, t i, s1)"
    "unat (send_buf (client (cps ! i))) + kBufferCnt * MESSAGE_SIZE \<le> 2 ^ 64"
    using assms(1,2) unfolding clients_made_def by blast
  from client_reachable_at [OF this assms(3)] obtain s f p where "client_at (send_buf (client (cps ! i))) x s f p" by blast
  then show ?thesis using assms(4) by (cases x) (auto simp: client_at_def is_request_def)
qed

text \<open>A client never takes back what its card has transmitted.\<close>

lemma client_sys_sent:
  assumes "client_sys d t wc x y"
  shows "\<exists>zs. sent (snd y) = sent (snd x) @ zs"
  using assms
proof cases
  case program
  obtain cp n where x: "x = (cp, n)" by (cases x)
  from program have "sent (snd y) = sent n"
    unfolding x using dsm_send_flight by (fastforce simp: poll_rc_eq split: client_pc.splits prod.splits if_splits)
  then show ?thesis by (simp add: x)
next
  case (card n n' cp)
  from card(3) show ?thesis by cases (simp add: card)
qed

section \<open>Places of one stride each\<close>

text \<open>When every message takes one stride, the \<open>r\<close>-th one is in stride \<open>r\<close> of the log.\<close>

definition packed :: "log_card \<Rightarrow> bool" where
  "packed c \<longleftrightarrow> (if started c = 0 then arrivals c = []
       else length (arrivals c) = (started c - 1) * kStrides + used c \<and> 0 < used c \<and> used c \<le> kStrides)
     \<and> (\<forall>r < length (arrivals c). a_seg (arrivals c ! r) = r div kStrides \<and> a_stride (arrivals c ! r) = r mod kStrides)"

lemma land_packed:
  assumes at: "log_at sv c h p" and pk: "packed c" and k: "strides_of bs = 1" and l: "land bs c = Some c'"
  shows "packed c' \<and> map a_bytes (arrivals c') = map a_bytes (arrivals c) @ [bs]"
proof -
  have ra: "rowan_at (sv, nic_of c) h (started c) p" using at by (simp add: log_at_def)
  have wr: "writing (nic_of c) \<noteq> None \<longleftrightarrow> 0 < started c" using rowan_at_facts(8) [OF ra] by simp
  have pos: "0 < kStrides" by (simp add: stride_consts)
  show ?thesis
  proof (cases "writing (nic_of c) \<noteq> None \<and> used c + 1 \<le> kStrides")
    case True
    then have d: "0 < started c" "used c < kStrides" using wr by simp_all
    then have len: "length (arrivals c) = (started c - 1) * kStrides + used c" using pk by (simp add: packed_def)
    have "length (arrivals c) div kStrides = started c - 1" "length (arrivals c) mod kStrides = used c"
      using d(2) pos by (simp_all add: len)
    then show ?thesis using l True d pk k len by (auto simp: land_def Let_def packed_def nth_append less_Suc_eq)
  next
    case False
    then have full: "length (arrivals c) = started c * kStrides"
    proof (cases "started c = 0")
      case True
      then show ?thesis using pk by (simp add: packed_def)
    next
      case False
      with \<open>\<not> (writing (nic_of c) \<noteq> None \<and> used c + 1 \<le> kStrides)\<close> wr pk
      have "length (arrivals c) = (started c - 1) * kStrides + used c" "used c = kStrides" by (auto simp: packed_def)
      then show ?thesis using False by (cases "started c") simp_all
    qed
    have "length (arrivals c) div kStrides = started c" "length (arrivals c) mod kStrides = 0"
      using pos by (simp_all add: full)
    then show ?thesis
      using l False pk k full by (auto simp: land_def Let_def packed_def nth_append less_Suc_eq stride_consts split: list.splits)
  qed
qed

section \<open>The invariant\<close>

text \<open>The messages of client \<open>i\<close> in the log, in the order of the log.\<close>

definition log_of :: "rowan_world \<Rightarrow> nat \<Rightarrow> u8 list list" where
  "log_of w i = map snd (filter (\<lambda>(k, _). k = i) (zip (origin w) (map a_bytes (arrivals (slog w)))))"

definition world_inv ::
  "'s post_recv_fn \<Rightarrow> (nat \<Rightarrow> dsm) \<Rightarrow> (nat \<Rightarrow> dsm_thread) \<Rightarrow> (nat \<Rightarrow> ibv_wc) \<Rightarrow> client_prog list \<Rightarrow> rowan_world \<Rightarrow> bool" where
  "world_inv post_recv d t wc cps w \<longleftrightarrow> clients_made post_recv d t cps
     \<and> reachable log_start log_step (srv w, slog w) \<and> packed (slog w)
     \<and> length (cls w) = length cps \<and> length (got w) = length cps
     \<and> (\<forall>i < length cps. reachable (client_start (cps ! i)) (client_sys (d i) (t i) (wc i)) (cls w ! i)
          \<and> got w ! i \<le> length (sent_by w i) \<and> log_of w i = take (got w ! i) (sent_by w i))
     \<and> length (origin w) = length (arrivals (slog w)) \<and> (\<forall>i \<in> set (origin w). i < length cps)
     \<and> (\<forall>e \<in> set (arrivals (slog w)). is_request (a_bytes e))"

lemma world_start_inv:
  assumes "world_start cps w" "clients_made post_recv d t cps"
  shows "world_inv post_recv d t wc cps w"
  using assms
  by (auto simp: world_inv_def world_start_def packed_def log_start_def log_of_def intro!: reachable.reach_start)

lemma server_moves_inv:
  assumes "world_inv post_recv d t wc cps w" "server_step (srv w, nic_of (slog w)) = Some (sv', n')"
  shows "world_inv post_recv d t wc cps (w\<lparr>srv := sv', slog := (slog w)\<lparr>nic_of := n'\<rparr>\<rparr>)"
proof -
  have "reachable log_start log_step (sv', (slog w)\<lparr>nic_of := n'\<rparr>)"
    using assms log_serve [OF assms(2)] by (auto simp: world_inv_def intro: reach_step)
  then show ?thesis using assms(1) by (simp add: world_inv_def packed_def log_of_def sent_by_def)
qed

lemma client_moves_inv:
  assumes inv: "world_inv post_recv d t wc cps w" and i: "i < length (cls w)" and st: "client_sys (d i) (t i) (wc i) (cls w ! i) y"
  shows "world_inv post_recv d t wc cps (w\<lparr>cls := (cls w)[i := y]\<rparr>)"
proof -
  let ?w = "w\<lparr>cls := (cls w)[i := y]\<rparr>"
  obtain zs where zs: "sent (snd y) = sent_by w i @ zs" using client_sys_sent [OF st] by (auto simp: sent_by_def)
  have "reachable (client_start (cps ! k)) (client_sys (d k) (t k) (wc k)) (cls ?w ! k)
      \<and> got ?w ! k \<le> length (sent_by ?w k) \<and> log_of ?w k = take (got ?w ! k) (sent_by ?w k)" if k: "k < length cps" for k
  proof -
    have old: "reachable (client_start (cps ! k)) (client_sys (d k) (t k) (wc k)) (cls w ! k)"
      "got w ! k \<le> length (sent_by w k)" "log_of w k = take (got w ! k) (sent_by w k)"
      using inv k by (simp_all add: world_inv_def)
    have same: "log_of ?w k = log_of w k" "got ?w = got w" by (simp_all add: log_of_def)
    show ?thesis
    proof (cases "k = i")
      case True
      then have "sent_by ?w k = sent_by w k @ zs" "cls ?w ! k = y" using zs i by (simp_all add: sent_by_def)
      then show ?thesis using old same reach_step [OF old(1)] st True by simp
    next
      case False
      then have "sent_by ?w k = sent_by w k" "cls ?w ! k = cls w ! k" by (simp_all add: sent_by_def)
      then show ?thesis using old same by simp
    qed
  qed
  then show ?thesis using inv by (simp add: world_inv_def)
qed

lemma delivery_inv:
  assumes inv: "world_inv post_recv d t wc cps w" and i: "i < length (cls w)" "got w ! i < length (sent_by w i)"
    and l: "land (sent_by w i ! (got w ! i)) (slog w) = Some c'"
  shows "world_inv post_recv d t wc cps (w\<lparr>slog := c', got := (got w)[i := Suc (got w ! i)], origin := origin w @ [i]\<rparr>)"
proof -
  let ?bs = "sent_by w i ! (got w ! i)" and ?w = "w\<lparr>slog := c', got := (got w)[i := Suc (got w ! i)], origin := origin w @ [i]\<rparr>"
  have n: "i < length cps" "i < length (got w)" and made: "clients_made post_recv d t cps"
    and r: "reachable log_start log_step (srv w, slog w)" and pk: "packed (slog w)" and lo: "length (origin w) = length (arrivals (slog w))"
    using inv i(1) by (simp_all add: world_inv_def)
  have "?bs \<in> set (sent (snd (cls w ! i)))" using i(2) by (simp add: sent_by_def)
  moreover have "reachable (client_start (cps ! i)) (client_sys (d i) (t i) (wc i)) (cls w ! i)"
    using inv n(1) by (simp add: world_inv_def)
  ultimately have req: "is_request ?bs" by (intro client_sends_requests [OF made n(1)])
  note ok = request_message_ok [OF req]
  have "reachable log_start log_step (srv w, c')" using r log_land [OF _ l] ok by (blast intro: reach_step)
  moreover obtain h p where "log_at (srv w) (slog w) h p" using log_sys.reachable_inv [OF r] by (auto simp: log_inv_def)
  from land_packed [OF this pk _ l] ok have "packed c'" and ab: "map a_bytes (arrivals c') = map a_bytes (arrivals (slog w)) @ [?bs]"
    by simp_all
  moreover have "length (origin ?w) = length (arrivals c')" using arg_cong [OF ab, of length] lo by simp
  moreover have "is_request (a_bytes e)" if "e \<in> set (arrivals c')" for e
  proof -
    have "a_bytes e \<in> set (map a_bytes (arrivals c'))" using that by simp
    then show ?thesis unfolding ab using inv req by (auto simp: world_inv_def)
  qed
  moreover have "log_of ?w k = (if k = i then log_of w k @ [?bs] else log_of w k)" for k
    using ab lo by (simp add: log_of_def)
  moreover have "take (Suc (got w ! i)) (sent_by w i) = take (got w ! i) (sent_by w i) @ [?bs]" using i(2) by (rule take_Suc_conv_app_nth)
  moreover have "sent_by ?w = sent_by w" by (simp add: sent_by_def fun_eq_iff)
  ultimately show ?thesis using inv i n by (auto simp: world_inv_def nth_list_update Suc_le_eq)
qed

interpretation world_sys: invariant_system
  "\<lambda>w. world_start cps w \<and> clients_made post_recv d t cps" "world_step d t wc" "world_inv post_recv d t wc cps"
  for cps post_recv d t wc
proof unfold_locales
  show "world_start cps w \<and> clients_made post_recv d t cps \<Longrightarrow> world_inv post_recv d t wc cps w" for w
    using world_start_inv by blast
  show "world_step d t wc v w \<Longrightarrow> world_inv post_recv d t wc cps v \<Longrightarrow> world_inv post_recv d t wc cps w" for v w
    by (induction rule: world_step.induct) (blast intro: server_moves_inv client_moves_inv delivery_inv)+
qed

lemma world_reachable_inv:
  assumes "clients_made post_recv d t cps" "reachable (world_start cps) (world_step d t wc) w"
  shows "world_inv post_recv d t wc cps w"
proof -
  have "reachable (\<lambda>w. world_start cps w \<and> clients_made post_recv d t cps) (world_step d t wc) w"
    using assms(2) by (rule reachable_mono) (simp add: assms(1))
  then show ?thesis by (rule world_sys.reachable_inv)
qed

section \<open>Properties\<close>

text \<open>
  C1. What clients send is in the log. In every reachable state of the clients with their
  cards, the network, the server and its card: the messages of each client are in the log in
  the order in which it sent them, none lost, repeated or changed; and message number \<open>r\<close> of the
  log, for the last 36 segments, is in the server's memory at 64 times \<open>r\<close>, counted round the
  registered buffer (only the first byte of a recycled segment has been cleared).
\<close>

theorem rowan_end_to_end:
  assumes "clients_made post_recv d t cps" and "reachable (world_start cps) (world_step d t wc) w"
  defines "c \<equiv> slog w" and "msgs \<equiv> map a_bytes (arrivals (slog w))"
  shows "length (origin w) = length msgs \<and> (\<forall>i \<in> set (origin w). i < length cps)
     \<and> (\<forall>i < length cps. log_of w i = take (got w ! i) (sent_by w i))
     \<and> (\<forall>bs \<in> set msgs. is_request bs)
     \<and> (\<forall>r < length msgs. started c \<le> r div kStrides + kSrqBufferCnt \<longrightarrow>
          (\<forall>j < 6. mem (nic_of c) (buf_start (srv w) + word_of_nat (r mod (kSrqBufferCnt * kStrides) * kStrideBytes + j))
             = (if j = 0 \<and> cleared (srv w) (started c + length (posted (nic_of c)) - kSrqBufferCnt) (arrivals c ! r)
                then 0 else msgs ! r ! j)))"
proof -
  have inv: "world_inv post_recv d t wc cps w" by (rule world_reachable_inv [OF assms(1,2)])
  then have r: "reachable log_start log_step (srv w, c)" and pk: "packed c" by (simp_all add: world_inv_def c_def)
  obtain h p where at: "log_at (srv w) c h p" using log_sys.reachable_inv [OF r] by (auto simp: log_inv_def)
  have mem: "mem (nic_of c) (buf_start (srv w) + word_of_nat (r mod (kSrqBufferCnt * kStrides) * kStrideBytes + j))
      = (if j = 0 \<and> cleared (srv w) (started c + length (posted (nic_of c)) - kSrqBufferCnt) (arrivals c ! r) then 0 else msgs ! r ! j)"
    if rj: "r < length msgs" "started c \<le> r div kStrides + kSrqBufferCnt" "j < 6" for r j
  proof -
    let ?e = "arrivals c ! r"
    have e: "?e \<in> set (arrivals c)" "a_seg ?e = r div kStrides" "a_stride ?e = r mod kStrides" "a_bytes ?e = msgs ! r"
      using rj(1) pk by (simp_all add: msgs_def c_def packed_def)
    have "is_request (a_bytes ?e)" using inv e(1) by (simp add: world_inv_def c_def)
    then have j: "j < length (a_bytes ?e)" using rj(3) by (simp add: is_request_def)
    have "loc (srv w) (a_seg ?e) (a_stride ?e * kStrideBytes + j)
        = buf_start (srv w) + word_of_nat (r div kStrides mod kSrqBufferCnt * kStrideBufSize) + word_of_nat (r mod kStrides * kStrideBytes + j)"
      by (simp add: loc_def log_seg_def seg_addr_def slot_addr_def e(2,3))
    also have "\<dots> = buf_start (srv w) + word_of_nat (r mod (kSrqBufferCnt * kStrides) * kStrideBytes + j)"
    proof -
      have "r mod (kStrides * kSrqBufferCnt) = kStrides * (r div kStrides mod kSrqBufferCnt) + r mod kStrides" by (rule mod_mult2_eq)
      then have "r mod (kSrqBufferCnt * kStrides) * kStrideBytes + j
          = r div kStrides mod kSrqBufferCnt * kStrideBufSize + (r mod kStrides * kStrideBytes + j)"
        by (simp add: mult.commute [of kSrqBufferCnt] algebra_simps stride_consts)
      then show ?thesis by (simp only: of_nat_add add.assoc)
    qed
    finally have a: "log_seg (srv w) (a_seg ?e) + word_of_nat (a_stride ?e * kStrideBytes + j)
        = buf_start (srv w) + word_of_nat (r mod (kSrqBufferCnt * kStrides) * kStrideBytes + j)" by (simp add: loc_def)
    have "started c \<le> a_seg ?e + kSrqBufferCnt" using rj(2) by (simp add: e(2))
    from log_content [OF r e(1) this j] show ?thesis unfolding a e(4) .
  qed
  show ?thesis using inv mem by (auto simp: world_inv_def msgs_def c_def)
qed

section \<open>One client, one message\<close>

lemma world_client_run:
  assumes "reachable (client_start cp) (client_sys (d 0) (t 0) (wc 0)) x"
  shows "reachable (world_start [cp]) (world_step d t wc)
     \<lparr>srv = demo_server, slog = demo_log, cls = [x], got = [0], origin = []\<rparr>"
  using assms
proof (induction rule: reachable.induct)
  case (reach_start x)
  then show ?case
    using demo_rowan_start by (intro reachable.reach_start) (simp add: world_start_def log_start_def demo_log_def)
next
  case (reach_step x y)
  let ?w = "\<lambda>x. \<lparr>srv = demo_server, slog = demo_log, cls = [x], got = [0], origin = []\<rparr>"
  have "world_step d t wc (?w x) (?w y)" using client_moves [of 0 "?w x" d t wc y] reach_step.hyps(2) by simp
  with reach_step.IH show ?case by (rule reachable.reach_step)
qed

lemma world_server_run:
  "reachable S (world_step d t wc) w \<Longrightarrow> server_run k (srv w, nic_of (slog w)) = Some (sv', n')
     \<Longrightarrow> reachable S (world_step d t wc) (w\<lparr>srv := sv', slog := (slog w)\<lparr>nic_of := n'\<rparr>\<rparr>)"
proof (induction k arbitrary: w)
  case 0
  then have "sv' = srv w" "n' = nic_of (slog w)" by auto
  with 0(1) show ?case by simp
next
  case (Suc k)
  then obtain sv1 n1 where 1: "server_step (srv w, nic_of (slog w)) = Some (sv1, n1)" "server_run k (sv1, n1) = Some (sv', n')"
    by (auto simp: bind_eq_Some_conv)
  have "reachable S (world_step d t wc) (w\<lparr>srv := sv1, slog := (slog w)\<lparr>nic_of := n1\<rparr>\<rparr>)"
    using Suc.prems(1) server_moves [OF 1(1)] by (rule reach_step)
  from Suc.IH [OF this] 1(2) show ?case by simp
qed

theorem rowan_end_to_end_witness:
  "\<exists>d t cps w. reachable (world_start cps) (world_step d t (\<lambda>_. success_wc)) w \<and> length cps = 1 \<and> origin w = [0]
     \<and> log_of w 0 = sent_by w 0 \<and> mem (nic_of (slog w)) (buf_start (srv w)) = 1"
proof -
  obtain d1 s' cp0 d t where b: "build_connections demo_device demo_mp_srq demo_ready () = Some (d1, s')"
    and c: "test_rowan (\<lambda>b s. (0, s)) d1 () = Some (cp0, d, t, ())" "appID d1 = 0" "send_buf (client cp0) = 0"
    by (rule demo_client)
  have id: "0 \<le> appID d1" "appID d1 < int kMaxNetThread" using c(2) by (simp_all add: kMaxNetThread_def)
  obtain cp n bs where x: "reachable (client_start cp0) (client_sys d t success_wc) (cp, n)" "sent n = [bs]"
    using demo_first_message [OF c(1) test_rowan_connected [OF demo_device_creates b demo_ready_facts id c(1)]] by blast
  let ?d = "\<lambda>_ :: nat. d" and ?t = "\<lambda>_ :: nat. t" and ?wc = "\<lambda>_ :: nat. success_wc"
  let ?R = "reachable (world_start [cp0]) (world_step ?d ?t ?wc)"
  have made: "clients_made (\<lambda>b s. (0, s :: unit)) ?d ?t [cp0]"
    using c(1,3) by (auto simp: clients_made_def kBufferCnt_def MESSAGE_SIZE_def)
  let ?w0 = "\<lparr>srv = demo_server, slog = demo_log, cls = [(cp, n)], got = [0], origin = []\<rparr>"
  have r0: "?R ?w0" using x(1) by (rule world_client_run)
  have "pc demo_server = InitClear 0" by (simp add: demo_server_def start_server_def get_recv_buf_def rowan_consts)
  then obtain sv m where run: "server_run (2 * kSrqBufferCnt) (demo_server, demo_nic) = Some (sv, m)"
    and at: "rowan_at (sv, m) 0 0 kSrqBufferCnt" "pc sv = Poll"
    using init_loop [OF start_at [OF demo_rowan_start], of kSrqBufferCnt] by auto
  let ?c = "demo_log\<lparr>nic_of := m\<rparr>" and ?w1 = "\<lparr>srv = sv, slog = demo_log\<lparr>nic_of := m\<rparr>, cls = [(cp, n)], got = [0], origin = []\<rparr>"
  have r1: "?R ?w1" using world_server_run [OF r0, of "2 * kSrqBufferCnt" sv m] run by (simp add: demo_log_def)
  have q: "posted m = seg_wr sv 0 # map (seg_wr sv) [Suc 0..<kSrqBufferCnt]" "writing m = None"
    using at(1) by (simp_all add: rowan_at_def upt_conv_Cons)
  obtain c' where l: "land bs ?c = Some c'" "arrivals c' = [\<lparr>a_seg = 0, a_stride = 0, a_bytes = bs\<rparr>]" "started c' = 1"
    "posted (nic_of c') = map (seg_wr sv) [Suc 0..<kSrqBufferCnt]"
    using q by (simp add: land_def Let_def demo_log_def)
  let ?w2 = "\<lparr>srv = sv, slog = c', cls = [(cp, n)], got = [1], origin = [0]\<rparr>"
  have "world_step ?d ?t ?wc ?w1 ?w2"
    using delivery [of 0 ?w1 c' ?d ?t ?wc] l(1) x(2) by (simp add: sent_by_def)
  with r1 have r2: "?R ?w2" by (rule reach_step)
  have nc: "\<not> cleared sv (started c' + length (posted (nic_of c')) - kSrqBufferCnt) (arrivals c' ! 0)"
    by (simp add: cleared_def l at(2) stride_consts)
  have "Suc 0 \<le> kSrqBufferCnt" by (simp add: stride_consts)
  with rowan_end_to_end [OF made r2] have log: "log_of ?w2 0 = sent_by ?w2 0" "is_request bs"
    and "\<forall>j < 6. mem (nic_of c') (buf_start sv + word_of_nat j) = bs ! j"
    using nc l(2,3) x(2) by (auto simp: sent_by_def)
  from this(3) [rule_format, of 0] have "mem (nic_of c') (buf_start sv) = 1" using log(2) by (simp add: is_request_def)
  with log(1) r2 show ?thesis
    by (intro exI [of _ ?d] exI [of _ ?t] exI [of _ "[cp0]"] exI [of _ ?w2]) simp
qed

end
