(* ===== verification/Memcached_Conf.thy ===== *)
theory Memcached_Conf
  imports Keeper
begin

text \<open>
  \<open>Keeper::connectMemcached\<close> and \<open>disconnectMemcached\<close> (\<open>src/dsm/Keeper.cpp\<close>): the address of
  memcached is read from the first two lines of a file, or fixed by an environment variable.
  The file, the environment and the memcached client library are parameters; the handle
  \<open>memc\<close> is an option.
\<close>

text \<open>\<open>std::getline\<close>: the characters up to the end of the line, which is removed.\<close>

definition getline :: "string \<Rightarrow> string \<times> string" where
  "getline s = (takeWhile (\<lambda>c. c \<noteq> CHR 0x0A) s, drop 1 (dropWhile (\<lambda>c. c \<noteq> CHR 0x0A) s))"

text \<open>
  \<open>std::stoi\<close>: leading white space, a sign, digits; an exception (\<open>None\<close>) without digits or
  outside the range of \<open>int\<close>.
\<close>

definition is_space :: "char \<Rightarrow> bool" where
  "is_space c \<longleftrightarrow> c = CHR '' '' \<or> (9 \<le> (of_char c :: nat) \<and> (of_char c :: nat) \<le> 13)"

definition stoi :: "string \<Rightarrow> int option" where
  "stoi s =
     (let s = dropWhile is_space s;
          neg = (s \<noteq> [] \<and> hd s = CHR ''-'');
          t = (if s \<noteq> [] \<and> (hd s = CHR ''-'' \<or> hd s = CHR ''+'') then tl s else s);
          v = (if neg then - int (parse_num t) else int (parse_num t))
      in if takeWhile is_digit t = [] \<or> v < - (2 ^ 31) \<or> 2 ^ 31 \<le> v then None else Some v)"

definition LC_DEBUG_XMH :: string where "LC_DEBUG_XMH = ''LC_DEBUG_XMH''"

text \<open>The two strings that are read: the address and the port.\<close>

definition server_lines :: "string option \<Rightarrow> string \<Rightarrow> string \<times> string" where
  "server_lines env conf =
     (if env = Some LC_DEBUG_XMH then (''10.0.2.130'', ''21111'')
      else case getline conf of (addr, conf) \<Rightarrow> (addr, fst (getline conf)))"

text \<open>
  \<open>create\<close>, \<open>push\<close> (adding the one server; whether it succeeded) and \<open>binary\<close> (switching to
  the binary protocol) are the library; \<open>conf\<close> is \<open>None\<close> when the file cannot be opened. The
  result is \<open>None\<close> for an uncaught exception, else the returned value with the handle.
\<close>

definition connectMemcached ::
  "('s \<Rightarrow> 'h \<times> 's) \<Rightarrow> ('h \<Rightarrow> string \<Rightarrow> int \<Rightarrow> 's \<Rightarrow> bool \<times> 's) \<Rightarrow> ('h \<Rightarrow> 's \<Rightarrow> 's) \<Rightarrow> string option \<Rightarrow> string option
     \<Rightarrow> 'h option \<times> 's \<Rightarrow> (bool \<times> 'h option \<times> 's) option" where
  "connectMemcached create push binary env conf x =
     (case x of (memc, s) \<Rightarrow>
        (case conf of
           None \<Rightarrow> Some (False, memc, s)
         | Some conf \<Rightarrow>
             (case server_lines env conf of (addr, port) \<Rightarrow>
                (case create s of (h, s) \<Rightarrow>
                   map_option (\<lambda>p.
                     (case push h (trim addr) p s of (ok, s) \<Rightarrow>
                        if ok then (True, Some h, binary h s) else (False, Some h, s)))
                   (stoi (trim port))))))"

definition disconnectMemcached :: "('h \<Rightarrow> 's \<Rightarrow> 's) \<Rightarrow> ('h \<Rightarrow> 's \<Rightarrow> 's) \<Rightarrow> 'h option \<times> 's \<Rightarrow> bool \<times> 'h option \<times> 's" where
  "disconnectMemcached quit free x =
     (case x of (memc, s) \<Rightarrow>
        (case memc of Some h \<Rightarrow> (True, None, free h (quit h s)) | None \<Rightarrow> (True, None, s)))"

section \<open>What the file says is what is connected\<close>

lemma getline_line: "CHR 0x0A \<notin> set l \<Longrightarrow> getline (l @ CHR 0x0A # rest) = (l, rest)"
proof -
  assume "CHR 0x0A \<notin> set l"
  then have "\<forall>c \<in> set l. c \<noteq> CHR 0x0A" by auto
  then show ?thesis by (simp add: getline_def takeWhile_append2 dropWhile_append2)
qed

lemma digit_not_space: "is_digit c \<Longrightarrow> \<not> is_space c \<and> c \<noteq> CHR ''-'' \<and> c \<noteq> CHR ''+'' \<and> c \<noteq> CHR '' '' \<and> c \<noteq> CHR 0x0A"
  by (auto simp: is_digit_def is_space_def)

lemma to_string_nonempty: "to_string n \<noteq> []"
  by (subst to_string.simps) simp

lemma stoi_to_string: "n < 2 ^ 31 \<Longrightarrow> stoi (to_string n) = Some (int n)"
proof -
  assume n: "n < 2 ^ 31"
  obtain c cs where c: "to_string n = c # cs" using to_string_nonempty by (meson neq_Nil_conv)
  then have d: "is_digit c" using to_string_digits [of c n] by simp
  have "takeWhile is_digit (to_string n) \<noteq> []" using c d by simp
  moreover have "dropWhile is_space (to_string n) = to_string n" using c digit_not_space [OF d] by simp
  moreover have "parse_num (c # cs) = n" using parse_to_string [of n] c by simp
  ultimately show ?thesis using n c digit_not_space [OF d] by (simp add: stoi_def Let_def)
qed

text \<open>\<open>trim\<close> takes the spaces around a text without outer spaces away.\<close>

lemma drop_spaces: "dropWhile (\<lambda>c. c = x) (replicate i x @ t) = dropWhile (\<lambda>c. c = x) t"
  by (induction i) auto

lemma drop_none: "t \<noteq> [] \<Longrightarrow> hd t \<noteq> x \<Longrightarrow> dropWhile (\<lambda>c. c = x) (t @ r) = t @ r"
  by (cases t) auto

definition padded :: "nat \<Rightarrow> string \<Rightarrow> nat \<Rightarrow> string" where
  "padded i t j = replicate i CHR '' '' @ t @ replicate j CHR '' ''"

lemma trim_padded:
  assumes "t \<noteq> []" "hd t \<noteq> CHR '' ''" "last t \<noteq> CHR '' ''"
  shows "trim (padded i t j) = t"
proof -
  have "dropWhile (\<lambda>c. c = CHR '' '') (padded i t j) = t @ replicate j CHR '' ''"
    unfolding padded_def drop_spaces by (rule drop_none [OF assms(1,2)])
  moreover have "dropWhile (\<lambda>c. c = CHR '' '') (rev (t @ replicate j CHR '' '')) = rev t"
    using drop_none [of "rev t" "CHR '' ''" "[]"] assms by (simp add: drop_spaces hd_rev)
  ultimately show ?thesis by (simp add: trim_eq)
qed

lemma padded_line: "CHR 0x0A \<notin> set t \<Longrightarrow> CHR 0x0A \<notin> set (padded i t j)"
  by (auto simp: padded_def)

lemma to_string_ends: "hd (to_string n) \<noteq> CHR '' ''" "last (to_string n) \<noteq> CHR '' ''" "CHR 0x0A \<notin> set (to_string n)"
  using to_string_nonempty [of n] digit_not_space to_string_digits [of _ n] by (metis hd_in_set, metis last_in_set, metis)

text \<open>
  Whatever spaces surround them, the address on the first line of the file and the number on
  the second are what is given to memcached; the returned value is whether the server was
  added, and the handle is set.
\<close>

theorem configured_server_connected:
  assumes "addr \<noteq> []" "hd addr \<noteq> CHR '' ''" "last addr \<noteq> CHR '' ''" "CHR 0x0A \<notin> set addr"
    and "n < 2 ^ 31" and "env \<noteq> Some LC_DEBUG_XMH"
  shows "connectMemcached create push binary env
      (Some (padded i addr j @ CHR 0x0A # padded k (to_string n) l @ CHR 0x0A # rest)) (memc, s)
    = Some (case create s of (h, s1) \<Rightarrow> case push h addr (int n) s1 of (ok, s2) \<Rightarrow>
        (ok, Some h, if ok then binary h s2 else s2))"
proof -
  have "server_lines env (padded i addr j @ CHR 0x0A # padded k (to_string n) l @ CHR 0x0A # rest)
      = (padded i addr j, padded k (to_string n) l)"
    using assms(4,6) to_string_ends(3) by (simp add: server_lines_def getline_line padded_line)
  moreover have "trim (padded i addr j) = addr" by (rule trim_padded [OF assms(1-3)])
  moreover have "stoi (trim (padded k (to_string n) l)) = Some (int n)"
    using trim_padded [OF to_string_nonempty to_string_ends(1,2)] stoi_to_string [OF assms(5)] by simp
  ultimately show ?thesis by (auto simp: connectMemcached_def split: prod.splits)
qed

section \<open>The constructor of the keeper\<close>

text \<open>
  \<open>DSMKeeper\<close>: connects to memcached and enters the cluster; when it cannot connect it is
  returned as it is. Its destructor disconnects, and so does that of \<open>Keeper\<close> after it.
\<close>

definition DSMKeeper_mk ::
  "('s \<Rightarrow> 'h \<times> 's) \<Rightarrow> ('h \<Rightarrow> string \<Rightarrow> int \<Rightarrow> 's \<Rightarrow> bool \<times> 's) \<Rightarrow> ('h \<Rightarrow> 's \<Rightarrow> 's) \<Rightarrow> string option \<Rightarrow> string option
     \<Rightarrow> ('h option \<Rightarrow> 's memcached) \<Rightarrow> u32 \<Rightarrow> 's \<Rightarrow> (Keeper \<times> 'h option \<times> 's) option" where
  "DSMKeeper_mk create push binary env conf mc n s =
     Option.bind (connectMemcached create push binary env conf (None, s)) (\<lambda>(ok, h, s).
       if \<not> ok then Some (mk_Keeper n, h, s)
       else map_option (\<lambda>(kp, s). (kp, h, s)) (serverEnter (mc h) (mk_Keeper n) s))"

definition Keeper_del :: "('h \<Rightarrow> 's \<Rightarrow> 's) \<Rightarrow> ('h \<Rightarrow> 's \<Rightarrow> 's) \<Rightarrow> 'h option \<times> 's \<Rightarrow> 'h option \<times> 's" where
  "Keeper_del quit free x = snd (disconnectMemcached quit free x)"

definition DSMKeeper_del :: "('h \<Rightarrow> 's \<Rightarrow> 's) \<Rightarrow> ('h \<Rightarrow> 's \<Rightarrow> 's) \<Rightarrow> 'h option \<times> 's \<Rightarrow> 'h option \<times> 's" where
  "DSMKeeper_del quit free x = Keeper_del quit free (snd (disconnectMemcached quit free x))"

text \<open>The second disconnection does nothing.\<close>

lemma DSMKeeper_del_once: "DSMKeeper_del quit free x = snd (disconnectMemcached quit free x)"
  by (auto simp: DSMKeeper_del_def Keeper_del_def disconnectMemcached_def split: prod.splits option.splits)

text \<open>
  Without its file the keeper is returned without a number of its own and without a handle,
  with which the next operation would go through a null pointer.
\<close>

lemma DSMKeeper_unconnected: "DSMKeeper_mk create push binary env None mc n s = Some (mk_Keeper n, None, s)"
  by (simp add: DSMKeeper_mk_def connectMemcached_def)

end
