(* ===== verification/WR_Lock.thy ===== *)
theory WR_Lock
  imports Rowan_Prelude
begin

text \<open>
  \<open>include/utility/WRLock.h\<close>: a spinning reader-writer lock in one 16-bit atomic word, which
  is 1 when a writer holds it and twice the number of readers otherwise. The threads are
  interleaved at the atomic operations (load, compare-and-exchange, store).
\<close>

definition UNLOCKED :: u16 where "UNLOCKED = 0"
definition LOCKED :: u16 where "LOCKED = 1"

text \<open>
  The place of a thread: before a load, or before a compare-and-exchange with the value it
  has loaded, in each of the functions; or holding the lock.
\<close>

datatype lock_pc =
    Idle | W_load | W_cas | TryW_load | TryW_cas | W_held
  | R_load | R_cas u16 | TryR_load | TryR_cas u16 | R_held | RU_load | RU_cas u16

definition init_lock :: u16 where "init_lock = UNLOCKED"

definition is_unlock :: "u16 \<Rightarrow> bool" where "is_unlock l \<longleftrightarrow> l = UNLOCKED"

text \<open>One atomic operation of each function; a finished function leaves its thread idle or holding.\<close>

fun wLock :: "lock_pc \<Rightarrow> u16 \<Rightarrow> lock_pc \<times> u16" where
  "wLock W_load l = (if l \<noteq> UNLOCKED then W_load else W_cas, l)"
| "wLock W_cas l = (if l = UNLOCKED then (W_held, LOCKED) else (W_load, l))"
| "wLock p l = (p, l)"

fun try_wLock :: "lock_pc \<Rightarrow> u16 \<Rightarrow> lock_pc \<times> u16" where
  "try_wLock TryW_load l = (if l \<noteq> UNLOCKED then Idle else TryW_cas, l)"
| "try_wLock TryW_cas l = (if l = UNLOCKED then (W_held, LOCKED) else (Idle, l))"
| "try_wLock p l = (p, l)"

fun rLock :: "lock_pc \<Rightarrow> u16 \<Rightarrow> lock_pc \<times> u16" where
  "rLock R_load l = (if l = LOCKED then R_load else R_cas l, l)"
| "rLock (R_cas v) l = (if l = v then (R_held, v + 2) else (R_load, l))"
| "rLock p l = (p, l)"

fun try_rLock :: "lock_pc \<Rightarrow> u16 \<Rightarrow> lock_pc \<times> u16" where
  "try_rLock TryR_load l = (if l = LOCKED then Idle else TryR_cas l, l)"
| "try_rLock (TryR_cas v) l = (if l = v then (R_held, v + 2) else (TryR_load, l))"
| "try_rLock p l = (p, l)"

fun rUnlock :: "lock_pc \<Rightarrow> u16 \<Rightarrow> lock_pc \<times> u16" where
  "rUnlock RU_load l = (RU_cas l, l)"
| "rUnlock (RU_cas v) l = (if l = v then (Idle, v - 2) else (RU_load, l))"
| "rUnlock p l = (p, l)"

fun wUnlock :: "lock_pc \<Rightarrow> u16 \<Rightarrow> lock_pc \<times> u16" where
  "wUnlock W_held l = (Idle, UNLOCKED)"
| "wUnlock p l = (p, l)"

text \<open>
  \<open>n\<close> threads: a thread goes on in the function it is in, an idle thread calls a function that
  acquires, a holder the function that releases.
\<close>

definition lock_ops :: "(lock_pc \<Rightarrow> u16 \<Rightarrow> lock_pc \<times> u16) set" where
  "lock_ops = {wLock, try_wLock, rLock, try_rLock, rUnlock, wUnlock}"

inductive lock_step :: "nat \<Rightarrow> (nat \<Rightarrow> lock_pc) \<times> u16 \<Rightarrow> (nat \<Rightarrow> lock_pc) \<times> u16 \<Rightarrow> bool" for n where
  atomic: "i < n \<Longrightarrow> f \<in> lock_ops \<Longrightarrow> f (pcs i) l = (p, l') \<Longrightarrow> lock_step n (pcs, l) (pcs(i := p), l')"
| acquire: "i < n \<Longrightarrow> pcs i = Idle \<Longrightarrow> p \<in> {W_load, TryW_load, R_load, TryR_load} \<Longrightarrow>
     lock_step n (pcs, l) (pcs(i := p), l)"
| release_read: "i < n \<Longrightarrow> pcs i = R_held \<Longrightarrow> lock_step n (pcs, l) (pcs(i := RU_load), l)"

definition lock_start :: "(nat \<Rightarrow> lock_pc) \<times> u16 \<Rightarrow> bool" where
  "lock_start x \<longleftrightarrow> x = (\<lambda>_. Idle, init_lock)"

section \<open>The invariant\<close>

fun holds_read :: "lock_pc \<Rightarrow> bool" where
  "holds_read R_held = True"
| "holds_read RU_load = True"
| "holds_read (RU_cas v) = True"
| "holds_read _ = False"

definition readers :: "nat \<Rightarrow> (nat \<Rightarrow> lock_pc) \<Rightarrow> nat" where
  "readers n pcs = card {i. i < n \<and> holds_read (pcs i)}"

definition writers :: "nat \<Rightarrow> (nat \<Rightarrow> lock_pc) \<Rightarrow> nat" where
  "writers n pcs = card {i. i < n \<and> pcs i = W_held}"

text \<open>What an atomic operation may do to its thread and the word.\<close>

definition lock_change :: "lock_pc \<Rightarrow> u16 \<Rightarrow> lock_pc \<Rightarrow> u16 \<Rightarrow> bool" where
  "lock_change q l p l' \<longleftrightarrow>
     l' = l \<and> (holds_read p \<longleftrightarrow> holds_read q) \<and> (p = W_held \<longleftrightarrow> q = W_held)
   \<or> l = UNLOCKED \<and> l' = LOCKED \<and> p = W_held \<and> q \<noteq> W_held \<and> \<not> holds_read q
   \<or> l \<noteq> LOCKED \<and> l' = l + 2 \<and> p = R_held \<and> q \<noteq> W_held \<and> \<not> holds_read q
   \<or> l' = l - 2 \<and> holds_read q \<and> p = Idle
   \<or> l' = UNLOCKED \<and> q = W_held \<and> p = Idle"

definition cas_ok :: "lock_pc \<Rightarrow> bool" where
  "cas_ok p \<longleftrightarrow> (case p of R_cas v \<Rightarrow> v \<noteq> LOCKED | TryR_cas v \<Rightarrow> v \<noteq> LOCKED | _ \<Rightarrow> True)"

definition wr_inv :: "nat \<Rightarrow> (nat \<Rightarrow> lock_pc) \<times> u16 \<Rightarrow> bool" where
  "wr_inv n x \<longleftrightarrow> (case x of (pcs, l) \<Rightarrow>
     (\<forall>i. cas_ok (pcs i))
   \<and> (l = LOCKED \<and> writers n pcs = 1 \<and> readers n pcs = 0
      \<or> writers n pcs = 0 \<and> unat l = 2 * readers n pcs))"

lemma card_update:
  fixes f :: "nat \<Rightarrow> 'a"
  assumes "i < n"
  shows "card {j. j < n \<and> P ((f(i := x)) j)} + (if P (f i) then 1 else 0)
     = card {j. j < n \<and> P (f j)} + (if P x then 1 else (0 :: nat))"
proof -
  have fin: "finite {j. j < n \<and> j \<noteq> i \<and> P (f j)}" by simp
  have a: "{j. j < n \<and> P ((f(i := x)) j)} = (if P x then insert i {j. j < n \<and> j \<noteq> i \<and> P (f j)} else {j. j < n \<and> j \<noteq> i \<and> P (f j)})"
    using assms by auto
  have b: "{j. j < n \<and> P (f j)} = (if P (f i) then insert i {j. j < n \<and> j \<noteq> i \<and> P (f j)} else {j. j < n \<and> j \<noteq> i \<and> P (f j)})"
    using assms by auto
  show ?thesis unfolding a b using fin by simp
qed

lemma readers_update:
  "i < n \<Longrightarrow> readers n (pcs(i := p)) + (if holds_read (pcs i) then 1 else 0) = readers n pcs + (if holds_read p then 1 else 0)"
  unfolding readers_def by (rule card_update)

lemma writers_update:
  "i < n \<Longrightarrow> writers n (pcs(i := p)) + (if pcs i = W_held then 1 else 0) = writers n pcs + (if p = W_held then 1 else 0)"
  unfolding writers_def by (rule card_update)

lemma readers_le: "readers n pcs \<le> n"
proof -
  have "card {i. i < n \<and> holds_read (pcs i)} \<le> card {..<n}" by (rule card_mono) auto
  then show ?thesis by (simp add: readers_def)
qed

lemma holder_counted:
  "i < n \<Longrightarrow> holds_read (pcs i) \<Longrightarrow> 0 < readers n pcs" "i < n \<Longrightarrow> pcs i = W_held \<Longrightarrow> 0 < writers n pcs"
  unfolding readers_def writers_def by (auto simp: card_gt_0_iff)

lemma op_changes:
  "wLock q l = (p, l') \<Longrightarrow> cas_ok q \<Longrightarrow> lock_change q l p l' \<and> cas_ok p"
  "try_wLock q l = (p, l') \<Longrightarrow> cas_ok q \<Longrightarrow> lock_change q l p l' \<and> cas_ok p"
  "rLock q l = (p, l') \<Longrightarrow> cas_ok q \<Longrightarrow> lock_change q l p l' \<and> cas_ok p"
  "try_rLock q l = (p, l') \<Longrightarrow> cas_ok q \<Longrightarrow> lock_change q l p l' \<and> cas_ok p"
  "rUnlock q l = (p, l') \<Longrightarrow> cas_ok q \<Longrightarrow> lock_change q l p l' \<and> cas_ok p"
  "wUnlock q l = (p, l') \<Longrightarrow> cas_ok q \<Longrightarrow> lock_change q l p l' \<and> cas_ok p"
  by (cases q; auto simp: lock_change_def cas_ok_def split: if_splits)+

lemma wr_inv_update:
  assumes inv: "wr_inv n (pcs, l)" and n: "n < 2 ^ 15" and i: "i < n"
    and p: "cas_ok p" and l: "lock_change (pcs i) l p l'"
  shows "wr_inv n (pcs(i := p), l')"
proof -
  note up = readers_update [OF i, of pcs p] writers_update [OF i, of pcs p]
  have cas: "\<forall>j. cas_ok ((pcs(i := p)) j)" using inv p by (auto simp: wr_inv_def)
  from inv have cases: "l = LOCKED \<and> writers n pcs = 1 \<and> readers n pcs = 0 \<or> writers n pcs = 0 \<and> unat l = 2 * readers n pcs"
    by (simp add: wr_inv_def)
  from l show ?thesis
    unfolding lock_change_def
  proof (elim disjE conjE)
    assume "l' = l" "holds_read p \<longleftrightarrow> holds_read (pcs i)" "p = W_held \<longleftrightarrow> pcs i = W_held"
    then show ?thesis using up cases cas by (auto simp: wr_inv_def split: if_splits)
  next
    assume a: "l = UNLOCKED" "l' = LOCKED" "p = W_held" "pcs i \<noteq> W_held" "\<not> holds_read (pcs i)"
    then have "writers n pcs = 0" "readers n pcs = 0" using cases by (auto simp: UNLOCKED_def LOCKED_def)
    then show ?thesis using up a cas by (simp add: wr_inv_def)
  next
    assume a: "l \<noteq> LOCKED" "l' = l + 2" "p = R_held" "pcs i \<noteq> W_held" "\<not> holds_read (pcs i)"
    then have c: "writers n pcs = 0" "unat l = 2 * readers n pcs" using cases by auto
    have r: "readers n (pcs(i := p)) = Suc (readers n pcs)" "writers n (pcs(i := p)) = 0" using up a c by simp_all
    then have "2 * readers n pcs + 2 < 2 ^ 16" using readers_le [of n "pcs(i := p)"] n by simp
    then have "unat (l + 2) = 2 * readers n pcs + 2" using c by (simp add: unat_word_ariths)
    then show ?thesis using r a cas by (simp add: wr_inv_def)
  next
    assume a: "l' = l - 2" "holds_read (pcs i)" "p = Idle"
    then have "0 < readers n pcs" using holder_counted(1) [of i n pcs] i by simp
    then have c: "writers n pcs = 0" "unat l = 2 * readers n pcs" using cases by auto
    have "pcs i \<noteq> W_held" using a(2) by auto
    then have r: "Suc (readers n (pcs(i := p))) = readers n pcs" "writers n (pcs(i := p)) = 0" using up a c by simp_all
    then have "2 \<le> l" using c by (simp add: word_le_nat_alt)
    then have "unat (l - 2) = unat l - 2" by (simp add: unat_sub)
    then show ?thesis using r a c cas by (simp add: wr_inv_def)
  next
    assume a: "l' = UNLOCKED" "pcs i = W_held" "p = Idle"
    then have "0 < writers n pcs" using holder_counted(2) [of i n pcs] i by simp
    then have "writers n pcs = 1" "readers n pcs = 0" using cases by auto
    then show ?thesis using up a cas by (simp add: wr_inv_def UNLOCKED_def)
  qed
qed

lemma atomic_keeps:
  assumes inv: "wr_inv n (pcs, l)" and n: "n < 2 ^ 15" and i: "i < n" and f: "f \<in> lock_ops" "f (pcs i) l = (p, l')"
  shows "wr_inv n (pcs(i := p), l')"
proof -
  have "cas_ok (pcs i)" using inv by (simp add: wr_inv_def)
  then have "lock_change (pcs i) l p l' \<and> cas_ok p" 
    using f(1) unfolding lock_ops_def by (elim insertE emptyE) (use f(2) op_changes in auto)
  with wr_inv_update [OF inv n i] show ?thesis by blast
qed

interpretation wr_sys: invariant_system lock_start "lock_step n" "\<lambda>x. n < 2 ^ 15 \<longrightarrow> wr_inv n x" for n
proof
  show "lock_start s \<Longrightarrow> n < 2 ^ 15 \<longrightarrow> wr_inv n s" for s
    by (auto simp: lock_start_def wr_inv_def cas_ok_def writers_def readers_def init_lock_def UNLOCKED_def)
next
  fix s t assume "lock_step n s t" "n < 2 ^ 15 \<longrightarrow> wr_inv n s"
  then show "n < 2 ^ 15 \<longrightarrow> wr_inv n t"
  proof (induction rule: lock_step.induct)
    case (atomic i f pcs l p l')
    then show ?case using atomic_keeps [of n pcs l i f p l'] by blast
  next
    case (acquire i pcs p l)
    then show ?case using wr_inv_update [of n pcs l i p l] by (auto simp: lock_change_def cas_ok_def)
  next
    case (release_read i pcs l)
    then show ?case using wr_inv_update [of n pcs l i RU_load l] by (auto simp: lock_change_def cas_ok_def)
  qed
qed

section \<open>Properties\<close>

text \<open>
  C19. Mutual exclusion. With fewer than 32768 threads, in every interleaving: while a thread
  holds the lock for writing, no other thread holds it, for writing or reading (a reader
  counts until its release has taken effect); and the lock is free exactly when nobody
  holds it.
\<close>

theorem wrlock_mutual_exclusion:
  assumes "reachable lock_start (lock_step n) (pcs, l)" and "n < 2 ^ 15"
  shows "(i < n \<longrightarrow> j < n \<longrightarrow> pcs i = W_held \<longrightarrow> pcs j = W_held \<or> holds_read (pcs j) \<longrightarrow> i = j)
     \<and> (is_unlock l \<longleftrightarrow> (\<forall>i < n. pcs i \<noteq> W_held \<and> \<not> holds_read (pcs i)))"
proof -
  have inv: "wr_inv n (pcs, l)" using wr_sys.reachable_inv [OF assms(1)] assms(2) by blast
  then have cases: "l = LOCKED \<and> writers n pcs = 1 \<and> readers n pcs = 0 \<or> writers n pcs = 0 \<and> unat l = 2 * readers n pcs"
    by (simp add: wr_inv_def)
  have "i = j" if "i < n" "j < n" "pcs i = W_held" "pcs j = W_held \<or> holds_read (pcs j)"
  proof (rule ccontr)
    assume ne: "i \<noteq> j"
    have w: "writers n pcs = 1" "readers n pcs = 0" using cases holder_counted(2) [of i n pcs] that by auto
    then have "pcs j = W_held" using that(4) holder_counted(1) [of j n pcs] that(2) by auto
    then have "{i, j} \<subseteq> {i. i < n \<and> pcs i = W_held}" using that by auto
    then have "card {i, j} \<le> writers n pcs" unfolding writers_def by (intro card_mono) auto
    then show False using ne w by simp
  qed
  moreover have "is_unlock l \<longleftrightarrow> writers n pcs = 0 \<and> readers n pcs = 0"
    using cases by (auto simp: is_unlock_def UNLOCKED_def LOCKED_def unat_eq_0)
  moreover have "writers n pcs = 0 \<longleftrightarrow> (\<forall>i < n. pcs i \<noteq> W_held)" "readers n pcs = 0 \<longleftrightarrow> (\<forall>i < n. \<not> holds_read (pcs i))"
    by (auto simp: writers_def readers_def)
  ultimately show ?thesis by blast
qed

text \<open>A reader that runs alone.\<close>

lemma read_lock_alone:
  assumes "reachable lock_start (lock_step n) (pcs, l)" "i < n" "pcs i = Idle" "l \<noteq> LOCKED"
  shows "reachable lock_start (lock_step n) (pcs(i := R_held), l + 2)"
proof -
  have "reachable lock_start (lock_step n) (pcs(i := R_load), l)"
    by (rule reach_step [OF assms(1) lock_step.acquire]) (use assms in auto)
  then have "reachable lock_start (lock_step n) ((pcs(i := R_load))(i := R_cas l), l)"
    by (rule reach_step) (rule lock_step.atomic [of i n rLock], use assms in \<open>auto simp: lock_ops_def\<close>)
  then have "reachable lock_start (lock_step n) (((pcs(i := R_load))(i := R_cas l))(i := R_held), l + 2)"
    by (rule reach_step) (rule lock_step.atomic [of i n rLock], use assms in \<open>auto simp: lock_ops_def\<close>)
  then show ?thesis by simp
qed

lemma write_lock_alone:
  assumes "reachable lock_start (lock_step n) (pcs, UNLOCKED)" "i < n" "pcs i = Idle"
  shows "reachable lock_start (lock_step n) (pcs(i := W_held), LOCKED)"
proof -
  have "reachable lock_start (lock_step n) (pcs(i := W_load), UNLOCKED)"
    by (rule reach_step [OF assms(1) lock_step.acquire]) (use assms in auto)
  then have "reachable lock_start (lock_step n) ((pcs(i := W_load))(i := W_cas), UNLOCKED)"
    by (rule reach_step) (rule lock_step.atomic [of i n wLock], use assms in \<open>auto simp: lock_ops_def\<close>)
  then have "reachable lock_start (lock_step n) (((pcs(i := W_load))(i := W_cas))(i := W_held), LOCKED)"
    by (rule reach_step) (rule lock_step.atomic [of i n wLock], use assms in \<open>auto simp: lock_ops_def\<close>)
  then show ?thesis by simp
qed

lemma many_readers:
  "k \<le> n \<Longrightarrow> k \<le> 2 ^ 15 \<Longrightarrow>
     reachable lock_start (lock_step n) (\<lambda>i. if i < k then R_held else Idle, word_of_nat (2 * k))"
proof (induction k)
  case 0
  then show ?case by (auto intro: reach_start simp: lock_start_def init_lock_def UNLOCKED_def)
next
  case (Suc k)
  let ?p = "\<lambda>i. if i < k then R_held else Idle"
  have "unat (word_of_nat (2 * k) :: u16) = 2 * k"
    using Suc.prems by (simp add: unsigned_of_nat take_bit_nat_eq_self del: of_nat_mult)
  then have "word_of_nat (2 * k) \<noteq> LOCKED" by (auto simp: LOCKED_def dest!: arg_cong [of _ _ unat]) 
  from read_lock_alone [OF _ _ _ this, of n ?p k] Suc
  have "reachable lock_start (lock_step n) (?p(k := R_held), word_of_nat (2 * k) + 2)" by simp
  moreover have "?p(k := R_held) = (\<lambda>i. if i < Suc k then R_held else Idle)" by (auto simp: less_Suc_eq)
  ultimately show ?case by (simp add: algebra_simps)
qed

text \<open>
  The reader count wraps. With 32768 readers the word is 0 again, so the lock appears free
  and a further thread acquires it for writing while all of them still read.
\<close>

theorem wrlock_reader_count_wraps:
  "\<exists>pcs l. reachable lock_start (lock_step 32769) (pcs, l) \<and> pcs 32768 = W_held \<and> (\<forall>i < 32768. pcs i = R_held)"
proof -
  let ?p = "\<lambda>i. if i < 32768 then R_held else Idle :: lock_pc"
  have "reachable lock_start (lock_step 32769) (?p, word_of_nat (2 * 32768))"
    by (rule many_readers) simp_all
  moreover have "word_of_nat (2 * 32768) = UNLOCKED" by (simp add: UNLOCKED_def)
  ultimately have "reachable lock_start (lock_step 32769) (?p, UNLOCKED)" by simp
  from write_lock_alone [OF this, of 32768]
  have "reachable lock_start (lock_step 32769) (?p(32768 := W_held), LOCKED)" by simp
  then show ?thesis by (intro exI [of _ "?p(32768 := W_held)"] exI [of _ LOCKED]) simp
qed

theorem wrlock_mutual_exclusion_witness:
  "reachable lock_start (lock_step 3) (\<lambda>i. if i < 2 then R_held else Idle, word_of_nat (2 * 2)) \<and> \<not> is_unlock (word_of_nat (2 * 2))"
proof -
  have r: "reachable lock_start (lock_step 3) (\<lambda>i. if i < 2 then R_held else Idle, word_of_nat (2 * 2))"
    by (rule many_readers) simp_all
  have "\<not> is_unlock (word_of_nat (2 * 2))"
    using wrlock_mutual_exclusion [OF r, THEN conjunct2] by (auto dest!: spec [of _ 0])
  with r show ?thesis by blast
qed

end
