(* ===== verification/Bit_Map.thy ===== *)
theory Bit_Map
  imports Rowan_Prelude
begin

text \<open>
  \<open>include/utility/Bitmap.h\<close>: a set of small numbers in 64-bit words, refined to a set. \<open>None\<close>
  is a failed assertion or an access outside the array.
\<close>

record BitMap =
  bm_n :: nat
  bits :: "u64 list"

definition mk_BitMap :: "nat \<Rightarrow> BitMap option" where
  "mk_BitMap n = (if n mod 64 = 0 then Some \<lparr>bm_n = n, bits = replicate (n div 64) 0\<rparr> else None)"

definition bm_get :: "BitMap \<Rightarrow> nat \<Rightarrow> bool option" where
  "bm_get bm pos =
     (if pos div 64 < length (bits bm)
      then Some (drop_bit (pos mod 64) (bits bm ! (pos div 64)) AND 1 \<noteq> 0) else None)"

definition bm_update :: "BitMap \<Rightarrow> nat \<Rightarrow> (u64 \<Rightarrow> u64) \<Rightarrow> BitMap option" where
  "bm_update bm pos f =
     (if pos div 64 < length (bits bm)
      then Some (bm\<lparr>bits := (bits bm)[pos div 64 := f (bits bm ! (pos div 64))]\<rparr>) else None)"

definition bm_set :: "BitMap \<Rightarrow> nat \<Rightarrow> BitMap option" where
  "bm_set bm pos = bm_update bm pos (\<lambda>v. v OR push_bit (pos mod 64) 1)"

definition bm_clear :: "BitMap \<Rightarrow> nat \<Rightarrow> BitMap option" where
  "bm_clear bm pos = bm_update bm pos (\<lambda>v. v AND NOT (push_bit (pos mod 64) 1))"

text \<open>\<open>__builtin_ctzll\<close> on a nonzero word.\<close>

definition ctz :: "u64 \<Rightarrow> nat" where
  "ctz b = length (takeWhile (\<lambda>i. \<not> bit b i) [0..<64])"

text \<open>\<open>setZeroPos\<close>: the loop over the words from word \<open>i\<close> on; a full map fails the assertion.\<close>

fun zero_loop :: "nat \<Rightarrow> u64 list \<Rightarrow> (nat \<times> u64 list) option" where
  "zero_loop i [] = None"
| "zero_loop i (v # vs) =
     (let b = NOT v in
      if b \<noteq> 0 then Some (i * 64 + ctz b, (v OR push_bit (ctz b) 1) # vs)
      else map_option (\<lambda>(p, vs). (p, v # vs)) (zero_loop (i + 1) vs))"

definition setZeroPos :: "BitMap \<Rightarrow> (nat \<times> BitMap) option" where
  "setZeroPos bm = map_option (\<lambda>(p, vs). (p, bm\<lparr>bits := vs\<rparr>)) (zero_loop 0 (bits bm))"

section \<open>The set that a map stands for\<close>

definition bm_wf :: "BitMap \<Rightarrow> bool" where
  "bm_wf bm \<longleftrightarrow> bm_n bm = 64 * length (bits bm)"

definition bits_set :: "u64 list \<Rightarrow> nat set" where
  "bits_set vs = {p. p < 64 * length vs \<and> bit (vs ! (p div 64)) (p mod 64)}"

definition bm_set_of :: "BitMap \<Rightarrow> nat set" where
  "bm_set_of bm = bits_set (bits bm)"

lemma insert_or_delete: "(if p = c then x else p \<in> S) \<longleftrightarrow> p \<in> (if x then insert c S else S - {c})"
  by auto

lemma bits_set_update:
  assumes "k < length vs" "\<And>j. j < 64 \<Longrightarrow> bit w j \<longleftrightarrow> (if j = i then x else bit (vs ! k) j)" "i < 64"
  shows "bits_set (vs[k := w]) = (if x then insert (64 * k + i) (bits_set vs) else bits_set vs - {64 * k + i})"
proof -
  have "p \<in> bits_set (vs[k := w]) \<longleftrightarrow> (if p = 64 * k + i then x else p \<in> bits_set vs)" for p
  proof (cases "p div 64 = k")
    case True
    define j where "j = p mod 64"
    have p: "p = 64 * k + j" "j < 64" using True mult_div_mod_eq [of 64 p] by (simp_all add: j_def)
    have "64 * k + j < 64 * length vs" using assms(1) p(2) by simp
    moreover have "(64 * k + j) div 64 = k" "(64 * k + j) mod 64 = j" using p(2) by simp_all
    ultimately have "p \<in> bits_set us \<longleftrightarrow> bit (us ! k) j" if "length us = length vs" for us
      unfolding p(1) bits_set_def mem_Collect_eq that by simp
    from this [of vs] this [of "vs[k := w]"] assms(2) [OF p(2)] assms(1)
    have "p \<in> bits_set (vs[k := w]) \<longleftrightarrow> (if j = i then x else p \<in> bits_set vs)" by simp
    moreover have "j = i \<longleftrightarrow> p = 64 * k + i" using p(1) by simp
    ultimately show ?thesis by (simp only:)
  next
    case False
    have "(64 * k + i) div 64 = k" using assms(3) by simp
    with False have ne: "p \<noteq> 64 * k + i" by metis
    have nth: "vs[k := w] ! (p div 64) = vs ! (p div 64)" using False by simp
    show ?thesis unfolding bits_set_def mem_Collect_eq length_list_update nth if_not_P [OF ne] ..
  qed
  then show ?thesis by (intro set_eqI) (simp only: insert_or_delete)
qed

lemma ctz_first:
  assumes "b \<noteq> 0"
  shows "ctz b < 64" and "bit b (ctz b)" and "j < ctz b \<Longrightarrow> \<not> bit b j"
proof -
  let ?P = "\<lambda>i. \<not> bit b i"
  have "\<not> (\<forall>i \<in> set [0..<64]. ?P i)"
  proof
    assume "\<forall>i \<in> set [0..<64]. ?P i"
    then have "b = 0" by (intro bit_word_eqI) simp
    with assms show False by simp
  qed
  then have "length (takeWhile ?P [0..<64]) < length [0..<64]"
    by (metis length_takeWhile_le linorder_not_less nat_less_le takeWhile_eq_all_conv takeWhile_eq_take take_all)
  then show lt: "ctz b < 64" by (simp add: ctz_def)
  then show "bit b (ctz b)" using nth_length_takeWhile [of ?P "[0..<64]"] by (simp add: ctz_def)
  show "\<not> bit b j" if "j < ctz b"
  proof -
    have "takeWhile ?P [0..<64] ! j = [0..<64] ! j" using that by (intro takeWhile_nth) (simp add: ctz_def)
    moreover have "takeWhile ?P [0..<64] ! j \<in> set (takeWhile ?P [0..<64])" using that by (intro nth_mem) (simp add: ctz_def)
    ultimately show ?thesis using lt that by (auto dest: set_takeWhileD)
  qed
qed

lemma bits_set_Cons:
  "p \<in> bits_set (v # vs) \<longleftrightarrow> (if p < 64 then bit v p else p - 64 \<in> bits_set vs)"
  by (auto simp: bits_set_def nth_Cons' le_div_geq le_mod_geq)

lemma bits_set_bound: "p \<in> bits_set vs \<Longrightarrow> p < 64 * length vs"
  by (simp add: bits_set_def)

lemma set_bit_word: "i < 64 \<Longrightarrow> j < 64 \<Longrightarrow> bit (v OR push_bit i 1 :: u64) j \<longleftrightarrow> (if j = i then True else bit v j)"
  and clear_bit_word: "i < 64 \<Longrightarrow> j < 64 \<Longrightarrow> bit (v AND NOT (push_bit i 1) :: u64) j \<longleftrightarrow> (if j = i then False else bit v j)"
  by (auto simp: bit_simps)

lemma zero_loop_spec:
  "case zero_loop i vs of
     None \<Rightarrow> (\<forall>q < 64 * length vs. q \<in> bits_set vs)
   | Some (p, vs') \<Rightarrow> (\<exists>q. p = 64 * i + q \<and> q < 64 * length vs \<and> q \<notin> bits_set vs \<and> (\<forall>r < q. r \<in> bits_set vs)
        \<and> length vs' = length vs \<and> bits_set vs' = insert q (bits_set vs))"
proof (induction i vs rule: zero_loop.induct)
  case (2 i v vs)
  show ?case
  proof (cases "NOT v = 0")
    case False
    note c = ctz_first [OF False]
    have "\<not> bit v (ctz (NOT v))" using c(1,2) by (simp add: bit_not_iff)
    moreover have "bit v r" if "r < ctz (NOT v)" for r
      using c(3) [OF that] that c(1) by (simp add: bit_not_iff)
    moreover have "bits_set ((v # vs)[0 := v OR push_bit (ctz (NOT v)) 1]) = insert (64 * 0 + ctz (NOT v)) (bits_set (v # vs))"
      using bits_set_update [of 0 "v # vs" "v OR push_bit (ctz (NOT v)) 1" "ctz (NOT v)" True] set_bit_word c(1) by simp
    ultimately show ?thesis using c(1) False
      by (auto simp: Let_def bits_set_Cons intro!: exI [of _ "ctz (NOT v)"])
  next
    case True
    have v: "bit v j" if "j < 64" for j
    proof -
      have "\<not> bit (NOT v) j" using True by simp
      then show ?thesis using that by (simp add: bit_not_iff)
    qed
    have run: "zero_loop i (v # vs) = map_option (\<lambda>(p, vs). (p, v # vs)) (zero_loop (i + 1) vs)" using True by (simp add: Let_def)
    show ?thesis
    proof (cases "zero_loop (i + 1) vs")
      case None
      have "q \<in> bits_set (v # vs)" if "q < 64 * length (v # vs)" for q
        using 2 [OF refl] True None v that by (auto simp: bits_set_Cons)
      then show ?thesis unfolding run None by simp
    next
      case (Some r)
      obtain p vs' where r: "r = (p, vs')" by (cases r)
      obtain q where q: "p = 64 * (i + 1) + q" "q < 64 * length vs" "q \<notin> bits_set vs" "\<forall>r < q. r \<in> bits_set vs"
        "length vs' = length vs" "bits_set vs' = insert q (bits_set vs)"
        using 2 [OF refl] True Some r by auto
      have "bits_set (v # vs') = insert (q + 64) (bits_set (v # vs))"
      proof (rule set_eqI)
        fix x
        have "x - 64 = q \<longleftrightarrow> x = q + 64" if "\<not> x < 64" using that by auto
        then show "x \<in> bits_set (v # vs') \<longleftrightarrow> x \<in> insert (q + 64) (bits_set (v # vs))"
          unfolding insert_iff bits_set_Cons q(6) by (cases "x < 64") simp_all
      qed
      moreover have "x \<in> bits_set (v # vs)" if "x < q + 64" for x using q(4) v that by (simp add: bits_set_Cons)
      ultimately show ?thesis unfolding run Some r using q(1-3,5) by (auto simp: bits_set_Cons intro!: exI [of _ "q + 64"])
    qed
  qed
qed simp

section \<open>Properties\<close>

text \<open>
  C33. The bit map refines a set of numbers below \<open>n\<close>: \<open>get\<close> is membership, \<open>set\<close> is insertion,
  \<open>clear\<close> is removal (for positions below \<open>n\<close>), and \<open>setZeroPos\<close> inserts and returns the least
  number that is missing, or fails its assertion exactly when none is missing.
\<close>

theorem bitmap_refines_set:
  assumes "bm_wf bm" and "p < bm_n bm"
  shows "bm_get bm p = Some (p \<in> bm_set_of bm)
     \<and> (\<exists>bm'. bm_set bm p = Some bm' \<and> bm_wf bm' \<and> bm_n bm' = bm_n bm \<and> bm_set_of bm' = insert p (bm_set_of bm))
     \<and> (\<exists>bm'. bm_clear bm p = Some bm' \<and> bm_wf bm' \<and> bm_n bm' = bm_n bm \<and> bm_set_of bm' = bm_set_of bm - {p})
     \<and> (case setZeroPos bm of None \<Rightarrow> bm_set_of bm = {..<bm_n bm}
        | Some (q, bm') \<Rightarrow> q < bm_n bm \<and> q \<notin> bm_set_of bm \<and> {..<q} \<subseteq> bm_set_of bm
            \<and> bm_wf bm' \<and> bm_n bm' = bm_n bm \<and> bm_set_of bm' = insert q (bm_set_of bm))"
proof (intro conjI)
  have n: "bm_n bm = 64 * length (bits bm)" using assms(1) by (simp add: bm_wf_def)
  have k: "p div 64 < length (bits bm)" using assms(2) n by (simp add: div_less_iff_less_mult mult.commute)
  have m: "p mod 64 < 64" "64 * (p div 64) + p mod 64 = p" by simp_all
  have "drop_bit (p mod 64) w AND 1 \<noteq> 0 \<longleftrightarrow> bit w (p mod 64)" for w :: u64
    by (simp add: and_one_eq bit_iff_odd_drop_bit mod_2_eq_odd)
  then show "bm_get bm p = Some (p \<in> bm_set_of bm)"
    using k assms(2) n by (simp add: bm_get_def bm_set_of_def bits_set_def)
  let ?v = "bits bm ! (p div 64)"
  have "bits_set ((bits bm)[p div 64 := ?v OR push_bit (p mod 64) 1]) = insert p (bits_set (bits bm))"
    using bits_set_update [OF k _ m(1), of "?v OR push_bit (p mod 64) 1" True] set_bit_word [OF m(1)] m(2) by simp
  then show "\<exists>bm'. bm_set bm p = Some bm' \<and> bm_wf bm' \<and> bm_n bm' = bm_n bm \<and> bm_set_of bm' = insert p (bm_set_of bm)"
    using k assms(1) by (simp add: bm_set_def bm_update_def bm_set_of_def bm_wf_def)
  have "bits_set ((bits bm)[p div 64 := ?v AND NOT (push_bit (p mod 64) 1)]) = bits_set (bits bm) - {p}"
    using bits_set_update [OF k _ m(1), of "?v AND NOT (push_bit (p mod 64) 1)" False] clear_bit_word [OF m(1)] m(2) by simp
  then show "\<exists>bm'. bm_clear bm p = Some bm' \<and> bm_wf bm' \<and> bm_n bm' = bm_n bm \<and> bm_set_of bm' = bm_set_of bm - {p}"
    using k assms(1) by (simp add: bm_clear_def bm_update_def bm_set_of_def bm_wf_def)
  have bound: "q \<in> bm_set_of bm \<Longrightarrow> q < bm_n bm" for q using bits_set_bound by (simp add: bm_set_of_def n)
  show "case setZeroPos bm of None \<Rightarrow> bm_set_of bm = {..<bm_n bm}
        | Some (q, bm') \<Rightarrow> q < bm_n bm \<and> q \<notin> bm_set_of bm \<and> {..<q} \<subseteq> bm_set_of bm
            \<and> bm_wf bm' \<and> bm_n bm' = bm_n bm \<and> bm_set_of bm' = insert q (bm_set_of bm)"
    using zero_loop_spec [where i = 0 and vs = "bits bm"] bound assms(1)
    by (cases "zero_loop 0 (bits bm)") (auto simp: setZeroPos_def bm_set_of_def bm_wf_def)
qed

theorem bitmap_refines_set_witness:
  "\<exists>bm bm'. mk_BitMap 128 = Some bm \<and> bm_get bm 70 = Some False \<and> bm_set bm 70 = Some bm' \<and> bm_set_of bm' = {70}"
proof -
  let ?bm = "\<lparr>bm_n = 128, bits = [0, 0]\<rparr>"
  have mk: "mk_BitMap 128 = Some ?bm" by (simp add: mk_BitMap_def numeral_2_eq_2)
  have e: "bm_set_of ?bm = {}" by (auto simp: bm_set_of_def bits_set_def nth_Cons')
  from bitmap_refines_set [of ?bm 70] e have "bm_get ?bm 70 = Some False" "\<exists>bm'. bm_set ?bm 70 = Some bm' \<and> bm_set_of bm' = {70}"
    by (auto simp: bm_wf_def)
  with mk show ?thesis by blast
qed

end
