(* ===== verification/Murmur_Hash.thy ===== *)
theory Murmur_Hash
  imports Rowan_Prelude
begin

text \<open>
  \<open>include/utility/MurmurHash2.h\<close>: the 64-bit hash of a byte string. Every step that takes
  part of the key is a bijection of the state and of that part. The length is an \<open>int\<close> in
  the code: the model is that of keys shorter than 2 GB.
\<close>

definition murmur_m :: u64 where "murmur_m = 0xc6a4a7935bd1e995"

definition shift_mix :: "u64 \<Rightarrow> u64" where
  "shift_mix x = x XOR drop_bit 47 x"

text \<open>One turn of the loop over the words of the key.\<close>

definition murmur_word :: "u64 \<Rightarrow> u64 \<Rightarrow> u64" where
  "murmur_word h k = (h XOR shift_mix (k * murmur_m) * murmur_m) * murmur_m"

fun murmur_loop :: "nat \<Rightarrow> u64 \<Rightarrow> u8 list \<Rightarrow> u64 \<times> u8 list" where
  "murmur_loop 0 h bs = (h, bs)"
| "murmur_loop (Suc n) h bs = murmur_loop n (murmur_word h (le_word (take 8 bs))) (drop 8 bs)"

text \<open>The switch on the number of bytes that are left, falling through from the last byte to the first.\<close>

definition murmur_tail :: "u64 \<Rightarrow> u8 list \<Rightarrow> u64" where
  "murmur_tail h bs =
     (if bs = [] then h
      else foldl (\<lambda>h i. h XOR push_bit (8 * i) (ucast (bs ! i))) h (rev [0..<length bs]) * murmur_m)"

definition MurmurHash64A :: "u8 list \<Rightarrow> u64 \<Rightarrow> u64" where
  "MurmurHash64A key seed =
     (let h = seed XOR (word_of_nat (length key) * murmur_m);
          (h, rest) = murmur_loop (length key div 8) h key;
          h = murmur_tail h rest
      in shift_mix (shift_mix h * murmur_m))"

section \<open>The steps are bijections\<close>

lemma times_m_inj: "a * murmur_m = b * murmur_m \<longleftrightarrow> a = b"
proof
  assume e: "a * murmur_m = b * murmur_m"
  have inv: "murmur_m * 0x5f7a0ea7e59b19bd = 1" by (simp add: murmur_m_def)
  have "a = a * (murmur_m * 0x5f7a0ea7e59b19bd)" by (simp only: inv mult_1_right)
  also have "\<dots> = b * (murmur_m * 0x5f7a0ea7e59b19bd)" using e by (simp only: mult.assoc [symmetric])
  finally show "a = b" by (simp only: inv mult_1_right)
qed simp

lemma shift_mix_inj: "shift_mix a = shift_mix b \<longleftrightarrow> a = b"
proof
  assume e: "shift_mix a = shift_mix b"
  have bits: "bit a i \<noteq> bit a (47 + i) \<longleftrightarrow> bit b i \<noteq> bit b (47 + i)" for i
    using arg_cong [OF e, of "\<lambda>x. bit x i"] by (simp add: shift_mix_def bit_xor_iff bit_drop_bit_eq)
  have high: "bit a i \<longleftrightarrow> bit b i" if "17 \<le> i" for i
  proof -
    have "\<not> bit a (47 + i)" "\<not> bit b (47 + i)" using that bit_imp_le_length [of a "47 + i"] bit_imp_le_length [of b "47 + i"] by auto
    then show ?thesis using bits [of i] by simp
  qed
  have "bit a i \<longleftrightarrow> bit b i" for i using bits [of i] high [of "47 + i"] by auto
  then show "a = b" by (intro bit_word_eqI) simp
qed simp

lemma xor_left_inj: "a XOR b = a XOR c \<longleftrightarrow> b = (c :: u64)"
proof
  assume "a XOR b = a XOR c"
  then have "a XOR (a XOR b) = a XOR (a XOR c)" by (rule arg_cong)
  then show "b = c" by (simp only: xor.assoc [symmetric] xor_self_eq xor.left_neutral)
qed simp

lemma xor_right_inj: "b XOR a = c XOR a \<longleftrightarrow> b = (c :: u64)"
  using xor_left_inj [of a b c] by (simp only: xor.commute)

lemma murmur_word_inj:
  "murmur_word h k = murmur_word h k' \<longleftrightarrow> k = k'" "murmur_word h k = murmur_word h' k \<longleftrightarrow> h = h'"
  unfolding murmur_word_def times_m_inj xor_left_inj xor_right_inj shift_mix_inj by (rule refl)+

lemma murmur_loop_inj:
  "8 * n \<le> length bs \<Longrightarrow> fst (murmur_loop n h bs) = fst (murmur_loop n h' bs) \<longleftrightarrow> h = h'"
proof (induction n arbitrary: h h' bs)
  case (Suc n)
  then have "8 * n \<le> length (drop 8 bs)" by simp
  from Suc.IH [OF this] show ?case by (simp add: murmur_word_inj(2))
qed simp

lemma murmur_loop_rest: "8 * n \<le> length bs \<Longrightarrow> snd (murmur_loop n h bs) = drop (8 * n) bs"
  by (induction n arbitrary: h bs) (simp_all add: drop_drop add.commute)

lemma murmur_loop_append:
  "murmur_loop (m + n) h bs = murmur_loop n (fst (murmur_loop m h bs)) (snd (murmur_loop m h bs))"
  by (induction m arbitrary: h bs) simp_all

lemma murmur_loop_prefix:
  "length xs = 8 * n \<Longrightarrow> fst (murmur_loop n h (xs @ ys)) = fst (murmur_loop n h xs)"
proof (induction n arbitrary: h xs)
  case (Suc n)
  then show ?case using Suc.IH [of "drop 8 xs"] by simp
qed simp

lemma le_word_inj:
  assumes "length xs = length ys" "length xs \<le> 8" "le_word xs = (le_word ys :: u64)"
  shows "xs = ys"
proof (rule nth_equalityI [OF assms(1)])
  fix j assume j: "j < length xs"
  show "xs ! j = ys ! j"
  proof (rule bit_word_eqI)
    fix k assume k: "k < LENGTH(8)"
    then have "(8 * j + k) div 8 = j" "(8 * j + k) mod 8 = k" "8 * j + k < 64" using j assms(2) by simp_all
    then show "bit (xs ! j) k = bit (ys ! j) k"
      using arg_cong [OF assms(3), of "\<lambda>w. bit w (8 * j + k)"] j assms(1) by (simp add: bit_le_word)
  qed
qed

lemma tail_word:
  assumes "length bs \<le> 8"
  shows "foldl (\<lambda>h i. h XOR push_bit (8 * i) (ucast (bs ! i))) h (rev [0..<length bs]) = h XOR (le_word bs :: u64)"
proof -
  have fold: "foldl (\<lambda>h i. h XOR push_bit (8 * i) (ucast (bs ! i))) h (rev [0..<n]) = h XOR (le_word (take n bs) :: u64)"
    if "n \<le> length bs" for n h
    using that
  proof (induction n arbitrary: h)
    case (Suc n)
    have "push_bit (8 * n) (ucast (bs ! n)) XOR le_word (take n bs) = (le_word (take (Suc n) bs) :: u64)"
    proof (rule bit_word_eqI)
      fix j assume j: "j < LENGTH(64)"
      define q r where "q = j div 8" and "r = j mod 8"
      have jq: "j = 8 * q + r" "r < 8" by (simp_all add: q_def r_def)
      have d: "(8 * q + r) div 8 = q" "(8 * q + r) mod 8 = r" using jq(2) by simp_all
      have p: "bit (push_bit (8 * n) (ucast (bs ! n)) :: u64) (8 * q + r) \<longleftrightarrow> q = n \<and> bit (bs ! n) r"
      proof (cases q n rule: linorder_cases)
        case greater
        then have "\<not> bit (bs ! n) (8 * q + r - 8 * n)" by (auto dest: bit_imp_le_length)
        then show ?thesis using greater by (simp add: bit_simps)
      qed (use jq j in \<open>simp_all add: bit_simps\<close>)
      show "bit (push_bit (8 * n) (ucast (bs ! n)) XOR le_word (take n bs) :: u64) j = bit (le_word (take (Suc n) bs) :: u64) j"
        unfolding jq(1) bit_xor_iff p bit_le_word d using Suc.prems jq j by (auto simp: less_Suc_eq)
    qed
    then show ?case using Suc by (simp add: xor.assoc)
  qed simp
  then show ?thesis by simp
qed

lemma murmur_tail_word: "length bs \<le> 8 \<Longrightarrow> murmur_tail h bs = (if bs = [] then h else (h XOR le_word bs) * murmur_m)"
  by (simp add: murmur_tail_def tail_word)

lemma murmur_tail_inj:
  "length bs \<le> 8 \<Longrightarrow> murmur_tail h bs = murmur_tail h' bs \<longleftrightarrow> h = h'"
  "length bs \<le> 8 \<Longrightarrow> length bs = length bs' \<Longrightarrow> murmur_tail h bs = murmur_tail h bs' \<Longrightarrow> bs = bs'"
proof -
  show "length bs \<le> 8 \<Longrightarrow> murmur_tail h bs = murmur_tail h' bs \<longleftrightarrow> h = h'"
    by (simp add: murmur_tail_word times_m_inj xor_right_inj)
  assume l: "length bs \<le> 8" "length bs = length bs'" and e: "murmur_tail h bs = murmur_tail h bs'"
  show "bs = bs'"
  proof (cases "bs = []")
    case True
    then show ?thesis using l(2) by simp
  next
    case False
    then have "bs' \<noteq> []" using l(2) by auto
    then have "le_word bs = (le_word bs' :: u64)"
      using e l False by (simp add: murmur_tail_word times_m_inj xor_left_inj)
    then show ?thesis using le_word_inj l by blast
  qed
qed

lemma hash_eq_iff:
  assumes "length key = length key'"
  shows "MurmurHash64A key seed = MurmurHash64A key' seed \<longleftrightarrow>
     (let h = seed XOR (word_of_nat (length key) * murmur_m); n = length key div 8
      in murmur_tail (fst (murmur_loop n h key)) (drop (8 * n) key) = murmur_tail (fst (murmur_loop n h key')) (drop (8 * n) key'))"
proof -
  have "8 * (length key div 8) \<le> length key" by simp
  with assms show ?thesis
    by (simp add: MurmurHash64A_def Let_def case_prod_unfold shift_mix_inj times_m_inj murmur_loop_rest)
qed

section \<open>Properties\<close>

text \<open>
  C34. Keys of the same length that differ only inside one aligned group of eight bytes (or
  inside the shorter group at the end) never collide, whatever the seed.
\<close>

theorem murmur_no_collision_in_group:
  assumes "length pre mod 8 = 0" and "length g = length g'" and "length g = 8 \<or> length g < 8 \<and> post = []"
    and "MurmurHash64A (pre @ g @ post) seed = MurmurHash64A (pre @ g' @ post) seed"
  shows "g = g'"
proof -
  define h where "h = seed XOR (word_of_nat (length (pre @ g @ post)) * murmur_m)"
  define n where "n = length pre div 8"
  have pre: "length pre = 8 * n" using assms(1) mult_div_mod_eq [of 8 "length pre"] by (simp add: n_def)
  define N where "N = length (pre @ g @ post) div 8"
  have tails: "murmur_tail (fst (murmur_loop N h (pre @ g @ post))) (drop (8 * N) (pre @ g @ post))
      = murmur_tail (fst (murmur_loop N h (pre @ g' @ post))) (drop (8 * N) (pre @ g' @ post))"
    using assms(4) hash_eq_iff [of "pre @ g @ post" "pre @ g' @ post" seed] assms(2) by (simp add: Let_def h_def N_def)
  let ?s = "fst (murmur_loop n h pre)"
  have start: "murmur_loop n h (pre @ xs) = (?s, xs)" for xs
    using murmur_loop_prefix [OF pre, of h xs] murmur_loop_rest [of n "pre @ xs" h] pre by (simp add: prod_eq_iff)
  show ?thesis
  proof (cases "length g = 8")
    case True
    define k where "k = length post div 8"
    have N: "N = n + Suc k" "8 * k \<le> length post" using True pre by (simp_all add: N_def k_def)
    let ?st = "\<lambda>g. murmur_word ?s (le_word g)"
    have run: "fst (murmur_loop N h (pre @ x @ post)) = fst (murmur_loop k (?st x) post)" if "length x = 8" for x
      using that unfolding N(1) murmur_loop_append start by simp
    have d: "drop (8 * N) (pre @ x @ post) = drop (8 * k) post" if "length x = 8" for x using that pre N(1) by simp
    have "length (drop (8 * k) post) \<le> 8" by (simp add: k_def)
    then have "fst (murmur_loop k (?st g) post) = fst (murmur_loop k (?st g') post)"
      using tails run [of g] run [of g'] d [of g] d [of g'] True assms(2) murmur_tail_inj(1) by metis
    then have "le_word g = (le_word g' :: u64)" using murmur_loop_inj [OF N(2)] murmur_word_inj(1) by simp
    then show ?thesis using le_word_inj [OF assms(2)] True by simp
  next
    case False
    then have g: "length g < 8" "post = []" using assms(3) by auto
    have "N = n" using g pre by (simp add: N_def)
    then have "murmur_tail ?s g = murmur_tail ?s g'" using tails g pre by (simp add: start)
    then show ?thesis using murmur_tail_inj(2) [of g g'] g assms(2) by simp
  qed
qed

theorem murmur_no_collision_in_group_witness:
  "MurmurHash64A ([1, 2, 3, 4, 5, 6, 7, 8] @ [9] @ []) 931901 \<noteq> MurmurHash64A ([1, 2, 3, 4, 5, 6, 7, 8] @ [10] @ []) 931901"
proof
  assume "MurmurHash64A ([1, 2, 3, 4, 5, 6, 7, 8] @ [9] @ []) 931901 = MurmurHash64A ([1, 2, 3, 4, 5, 6, 7, 8] @ [10] @ []) 931901"
  from murmur_no_collision_in_group [OF _ _ _ this] show False by simp
qed

end
