(* ===== verification/Cache_Lines.thy ===== *)
theory Cache_Lines
  imports Rowan_Prelude
begin

text \<open>
  \<open>include/utility/Asm.h\<close>: flushing the cache lines of a range. The instructions
  (\<open>clflush\<close>, \<open>clwb\<close>, \<open>clflushopt\<close>, \<open>sfence\<close>) are parameters on the state.
\<close>

definition kCacheLineSize :: u16 where "kCacheLineSize = 64"

text \<open>
  The loop; \<open>i\<close> is a 64-bit number, so that it can wrap and the loop not end (\<open>None\<close>).
\<close>

partial_function (option) flush_loop :: "(u64 \<Rightarrow> 's \<Rightarrow> 's) \<Rightarrow> u64 \<Rightarrow> u64 \<Rightarrow> u64 \<Rightarrow> 's \<Rightarrow> 's option" where
  "flush_loop flush addr sz i s =
     (if i < sz then flush_loop flush addr sz (i + ucast kCacheLineSize) (flush (addr + i) s) else Some s)"

definition flush_range :: "(u64 \<Rightarrow> 's \<Rightarrow> 's) \<Rightarrow> u64 \<Rightarrow> u64 \<Rightarrow> 's \<Rightarrow> 's option" where
  "flush_range flush addr sz s = flush_loop flush addr (sz + (addr AND ucast (kCacheLineSize - 1))) 0 s"

definition clflush_range :: "(u64 \<Rightarrow> 's \<Rightarrow> 's) \<Rightarrow> u64 \<Rightarrow> u64 \<Rightarrow> 's \<Rightarrow> 's option" where
  "clflush_range clflush des sz s = flush_range clflush des sz s"

definition clwb_range :: "(u64 \<Rightarrow> 's \<Rightarrow> 's) \<Rightarrow> ('s \<Rightarrow> 's) \<Rightarrow> u64 \<Rightarrow> u64 \<Rightarrow> 's \<Rightarrow> 's option" where
  "clwb_range clwb fence des sz s = map_option fence (flush_range clwb des sz s)"

definition clflushopt_range :: "(u64 \<Rightarrow> 's \<Rightarrow> 's) \<Rightarrow> ('s \<Rightarrow> 's) \<Rightarrow> u64 \<Rightarrow> u64 \<Rightarrow> 's \<Rightarrow> 's option" where
  "clflushopt_range clflushopt fence des sz s = map_option fence (flush_range clflushopt des sz s)"

text \<open>\<open>~(kCacheLineSize - 1)\<close> is the int -64, converted to 64 bits.\<close>

definition next_cache_line :: "u64 \<Rightarrow> u64" where
  "next_cache_line v = (v + 64 - 1) AND NOT 63"

section \<open>Lines\<close>

text \<open>The number of the cache line of an address; flushing an address flushes its line.\<close>

definition line_of :: "u64 \<Rightarrow> nat" where
  "line_of a = unat a div 64"

lemma flush_loop_lines:
  assumes "unat sz + 64 \<le> 2 ^ 64" "unat i = 64 * k"
  shows "\<exists>as. flush_loop flush addr sz i s = Some (fold flush as s)
     \<and> as = map (\<lambda>k. addr + word_of_nat (64 * k)) [k..<(unat sz + 63) div 64]"
  using assms(2)
proof (induction "unat sz - 64 * k" arbitrary: i k s rule: less_induct)
  case less
  show ?case
  proof (cases "i < sz")
    case True
    then have lt: "64 * k < unat sz" using less.prems by (simp add: word_less_nat_alt)
    have i: "i = word_of_nat (64 * k)" unfolding less.prems [symmetric] by simp
    have nxt: "unat (i + ucast kCacheLineSize) = 64 * Suc k"
      using lt assms(1) less.prems by (simp add: unat_word_ariths kCacheLineSize_def)
    have "unat sz - 64 * Suc k < unat sz - 64 * k" using lt by simp
    from less.hyps [OF this nxt, of "flush (addr + i) s"] obtain as where
      as: "flush_loop flush addr sz (i + ucast kCacheLineSize) (flush (addr + i) s) = Some (fold flush as (flush (addr + i) s))"
      "as = map (\<lambda>k. addr + word_of_nat (64 * k)) [Suc k..<(unat sz + 63) div 64]" by blast
    have "k < (unat sz + 63) div 64" using lt by linarith
    then have "[k..<(unat sz + 63) div 64] = k # [Suc k..<(unat sz + 63) div 64]" by (rule upt_conv_Cons)
    then show ?thesis
      using as True by (subst flush_loop.simps) (simp add: i)
  next
    case False
    then have "(unat sz + 63) div 64 \<le> k" using less.prems by (simp add: word_less_nat_alt)
    then show ?thesis using False by (subst flush_loop.simps) simp
  qed
qed

lemma line_offset:
  "unat (des AND ucast (kCacheLineSize - 1) :: u64) = unat des mod 64"
proof -
  have m: "ucast (kCacheLineSize - 1) = (mask 6 :: u64)" by (simp add: kCacheLineSize_def mask_eq_exp_minus_1)
  have "unat (des AND mask 6) = take_bit 6 (unat des)"
    by (simp only: take_bit_eq_mask [symmetric] unsigned_take_bit_eq)
  then show ?thesis unfolding m by (simp add: take_bit_eq_mod)
qed

lemma flush_range_lines:
  assumes "unat des + unat sz + 64 \<le> 2 ^ 64"
  shows "\<exists>as. flush_range flush des sz s = Some (fold flush as s)
     \<and> map line_of as = [unat des div 64..<(unat des + unat sz + 63) div 64]"
proof -
  define q r where "q = unat des div 64" and "r = unat des mod 64"
  have des: "unat des = 64 * q + r" "r < 64" by (simp_all add: q_def r_def)
  let ?sz = "sz + (des AND ucast (kCacheLineSize - 1))"
  have size: "unat ?sz = unat sz + r"
    using assms des by (simp add: unat_word_ariths line_offset r_def [symmetric])
  have "unat ?sz + 64 \<le> 2 ^ 64" using assms des size by linarith
  from flush_loop_lines [OF this, of 0 0 flush des s] obtain as
    where as: "flush_range flush des sz s = Some (fold flush as s)"
      "as = map (\<lambda>k. des + word_of_nat (64 * k)) [0..<(unat sz + r + 63) div 64]"
    by (auto simp: flush_range_def size)
  have "line_of (des + word_of_nat (64 * k)) = q + k" if "k < (unat sz + r + 63) div 64" for k
  proof -
    have "Suc k \<le> (unat sz + r + 63) div 64" using that by (rule Suc_leI)
    then have "Suc k * 64 \<le> unat sz + r + 63" by (simp only: less_eq_div_iff_mult_less_eq zero_less_numeral)
    then have "64 * k + 1 \<le> unat sz + r" by simp
    then have "unat des + 64 * k < unat des + unat sz + 64" using des(2) by linarith
    then have lt: "unat des + 64 * k < 2 ^ 64" using assms by (rule less_le_trans)
    then have "unat (word_of_nat (64 * k) :: u64) = 64 * k"
      by (simp add: unsigned_of_nat take_bit_nat_eq_self del: of_nat_mult)
    then have "unat (des + word_of_nat (64 * k)) = unat des + 64 * k"
      using lt by (simp add: unat_word_ariths del: of_nat_mult)
    then show ?thesis using des by (simp add: line_of_def)
  qed
  then have "map line_of as = map (\<lambda>k. q + k) [0..<(unat sz + r + 63) div 64]" unfolding as(2) by simp
  also have "\<dots> = [q..<q + (unat sz + r + 63) div 64]" by (simp add: map_add_upt add.commute)
  also have "q + (unat sz + r + 63) div 64 = (unat des + unat sz + 63) div 64"
  proof -
    have "unat des + unat sz + 63 = 64 * q + (unat sz + r + 63)" using des by simp
    then show ?thesis by simp
  qed
  finally show ?thesis using as(1) by (auto simp: q_def)
qed

lemma len64: "LENGTH(64) = 64"
  by simp

lemma next_cache_line_least:
  assumes "unat v + 63 < 2 ^ 64"
  shows "64 dvd unat (next_cache_line v)" and "unat v \<le> unat (next_cache_line v)" and "unat (next_cache_line v) < unat v + 64"
proof -
  have v: "unat (v + 64 - 1) = unat v + 63" using assms by (simp add: unat_word_ariths)
  have m: "(63 :: u64) = mask 6" by (simp add: mask_eq_exp_minus_1)
  have "x AND NOT (mask 6) = push_bit 6 (drop_bit 6 x)" for x :: u64 by (rule bit_word_eqI) (auto simp: bit_simps)
  then have "next_cache_line v = push_bit 6 (drop_bit 6 (v + 64 - 1))" by (simp add: next_cache_line_def m)
  moreover have "unat (push_bit 6 (drop_bit 6 x)) = 64 * (unat x div 64)" for x :: u64
  proof -
    have lt: "unat x < 2 ^ 64" using unsigned_less [of x] by simp
    have "64 * (unat x div 64) \<le> unat x" by simp
    then have "64 * (unat x div 64) < 2 ^ 64" using lt by linarith
    then have "take_bit 64 (64 * (unat x div 64)) = 64 * (unat x div 64)" by (rule take_bit_nat_eq_self)
    moreover have "unat (push_bit 6 (drop_bit 6 x)) = take_bit 64 (push_bit 6 (drop_bit 6 (unat x)))"
      by (simp only: unsigned_push_bit_eq unat_drop_bit_eq len64)
    ultimately show ?thesis by (simp add: drop_bit_eq_div push_bit_eq_mult mult.commute)
  qed
  ultimately have n: "unat (next_cache_line v) = 64 * ((unat v + 63) div 64)" using v by simp
  show "64 dvd unat (next_cache_line v)" "unat v \<le> unat (next_cache_line v)" "unat (next_cache_line v) < unat v + 64"
    unfolding n by simp_all
qed

section \<open>Properties\<close>

text \<open>
  For a range that ends at least a line before the end of the address space, each of the
  three functions returns, having flushed every cache line that the range touches once, in
  order, and no other (an empty range inside a line flushes that line); the two that need it
  end with the fence.
\<close>

theorem flush_covers_range:
  assumes "unat des + unat sz + 64 \<le> 2 ^ 64"
  shows "\<exists>as. map line_of as = [unat des div 64..<(unat des + unat sz + 63) div 64]
     \<and> clflush_range flush des sz s = Some (fold flush as s)
     \<and> clwb_range flush fence des sz s = Some (fence (fold flush as s))
     \<and> clflushopt_range flush fence des sz s = Some (fence (fold flush as s))"
  using flush_range_lines [OF assms, of flush s]
  by (auto simp: clflush_range_def clwb_range_def clflushopt_range_def)

theorem flush_covers_range_witness:
  "\<exists>as. map line_of as = [1..<3] \<and> clflush_range (\<lambda>a ls. ls @ [a]) 100 80 [] = Some (fold (\<lambda>a ls. ls @ [a]) as [])"
  using flush_covers_range [of 100 80 "\<lambda>a ls. ls @ [a]" "[]" id] by auto

section \<open>The time stamp counter\<close>

text \<open>\<open>asm_rdtsc\<close> joins the two halves that the instruction gives.\<close>

definition asm_rdtsc :: "('s \<Rightarrow> (u32 \<times> u32) \<times> 's) \<Rightarrow> 's \<Rightarrow> u64 \<times> 's" where
  "asm_rdtsc rdtsc s = (case rdtsc s of ((hi, lo), s') \<Rightarrow> (ucast lo OR push_bit 32 (ucast hi), s'))"

lemma asm_rdtsc_value:
  assumes "rdtsc s = ((hi, lo), s')"
  shows "unat (fst (asm_rdtsc rdtsc s)) = unat hi * 2 ^ 32 + unat lo"
proof -
  have lo: "unat lo < 2 ^ 32" and hi: "unat hi < 2 ^ 32"
    using unsigned_less [of lo, where 'a = nat] unsigned_less [of hi, where 'a = nat] by simp_all
  have d: "(ucast lo :: u64) AND push_bit 32 (ucast hi) = 0"
    by (rule bit_word_eqI) (auto simp: bit_simps dest: bit_imp_le_length)
  have "unat hi * 2 ^ 32 + unat lo < 2 ^ 64" using lo hi by simp
  then have "unat ((ucast lo :: u64) + ucast hi * 2 ^ 32) = unat hi * 2 ^ 32 + unat lo"
    by (simp add: unat_word_ariths)
  moreover have "(ucast lo :: u64) OR push_bit 32 (ucast hi) = ucast lo + ucast hi * 2 ^ 32"
    using disjunctive_add_eq_or [OF d] push_bit_eq_mult [of 32 "ucast hi :: u64"] by simp
  ultimately show ?thesis using assms by (simp add: asm_rdtsc_def)
qed

end
