(* ===== verification/Zipf.thy ===== *)
theory Zipf
  imports Rowan_Prelude
begin

text \<open>
  \<open>include/utility/Zipf.h\<close>: the generator of skewed keys. Arithmetic on \<open>double\<close> is a record of
  arbitrary operations, so that what is shown holds whatever the rounding: only how the
  generator uses its state, its loops and its random bits is fixed here.
\<close>

section \<open>The generator\<close>

record 'd double_ops =
  d_add :: "'d \<Rightarrow> 'd \<Rightarrow> 'd"
  d_sub :: "'d \<Rightarrow> 'd \<Rightarrow> 'd"
  d_mul :: "'d \<Rightarrow> 'd \<Rightarrow> 'd"
  d_div :: "'d \<Rightarrow> 'd \<Rightarrow> 'd"
  d_lt :: "'d \<Rightarrow> 'd \<Rightarrow> bool"
  d_le :: "'d \<Rightarrow> 'd \<Rightarrow> bool"
  d_eq :: "'d \<Rightarrow> 'd \<Rightarrow> bool"
  d_lit :: "int \<Rightarrow> nat \<Rightarrow> 'd"
  d_of_u64 :: "u64 \<Rightarrow> 'd"
  d_of_int :: "u32 \<Rightarrow> 'd"
  u64_of_d :: "'d \<Rightarrow> u64"
  int_of_d :: "'d \<Rightarrow> u32"
  d_high :: "'d \<Rightarrow> u32"
  d_of_words :: "u32 \<Rightarrow> u32 \<Rightarrow> 'd"

text \<open>
  \<open>d_lit m k\<close> is the literal \<open>m / 10 ^ k\<close>; \<open>d_of_int\<close> and \<open>int_of_d\<close> convert from and to a
  signed \<open>int\<close>; \<open>d_high\<close> and \<open>d_of_words\<close> are the union of a \<open>double\<close> with two \<open>int\<close>s.
\<close>

record 'd zipf_gen_state =
  z_n :: u64
  z_theta :: 'd
  z_alpha :: 'd
  z_thres :: 'd
  z_last_n :: u64
  z_dbl_n :: 'd
  z_zetan :: 'd
  z_eta :: 'd
  z_rand_state :: u64

definition mehcached_rand_d :: "'d double_ops \<Rightarrow> u64 \<Rightarrow> 'd \<times> u64" where
  "mehcached_rand_d D state =
     (let state = (state * 0x5deece66d + 0xb) AND (push_bit 48 1 - 1)
      in (d_div D (d_of_u64 D state) (d_of_u64 D (push_bit 48 1 - 1)), state))"

text \<open>The loop over a signed exponent: a negative one is shifted to -1 and never to 0.\<close>

partial_function (option) pow_loop :: "'d double_ops \<Rightarrow> u32 \<Rightarrow> 'd \<Rightarrow> 'd \<Rightarrow> 'd option" where
  "pow_loop D e r a =
     (if e \<noteq> 0
      then pow_loop D (signed_drop_bit 1 e) (if e AND 1 \<noteq> 0 then d_mul D r a else r) (d_mul D a a)
      else Some r)"

text \<open>The approximated factor for the fraction of the exponent.\<close>

definition pow_fraction :: "'d double_ops \<Rightarrow> 'd \<Rightarrow> 'd \<Rightarrow> 'd" where
  "pow_fraction D a b =
     d_of_words D 0
       (int_of_d D
         (d_add D (d_mul D (d_sub D b (d_of_int D (int_of_d D b))) (d_of_int D (d_high D a - 1072632447)))
           (d_lit D 1072632447 0)))"

definition mehcached_pow_approx :: "'d double_ops \<Rightarrow> 'd \<Rightarrow> 'd \<Rightarrow> 'd option" where
  "mehcached_pow_approx D a b =
     map_option (\<lambda>r. d_mul D r (pow_fraction D a b)) (pow_loop D (int_of_d D b) (d_lit D 1 0) a)"

definition skewed :: "'d double_ops \<Rightarrow> 'd \<Rightarrow> bool" where
  "skewed D theta \<longleftrightarrow> d_lt D (d_lit D 0 0) theta \<and> d_lt D theta (d_lit D 1 0)"

definition round_robin :: "'d double_ops \<Rightarrow> 'd \<Rightarrow> bool" where
  "round_robin D theta \<longleftrightarrow> d_eq D theta (d_lit D (- 1) 0)"

definition mehcached_zipf_init :: "'d double_ops \<Rightarrow> u64 \<Rightarrow> 'd \<Rightarrow> u64 \<Rightarrow> 'd zipf_gen_state option" where
  "mehcached_zipf_init D n theta rand_seed =
     (if 0 < n \<and> \<not> (d_le D (d_lit D 1 0) theta \<and> d_lt D theta (d_lit D 40 0))
         \<and> (round_robin D theta \<or> d_le D (d_lit D 0 0) theta \<and> d_lt D theta (d_lit D 1 0) \<or> d_le D (d_lit D 40 0) theta)
         \<and> rand_seed < push_bit 48 1
      then
        let rand_seed = (if round_robin D theta then rand_seed mod n else rand_seed);
            start = (\<lambda>alpha thres.
              \<lparr>z_n = n, z_theta = theta, z_alpha = alpha, z_thres = thres, z_last_n = 0, z_dbl_n = d_lit D 0 0,
               z_zetan = d_lit D 0 0, z_eta = d_lit D 0 0, z_rand_state = rand_seed\<rparr>)
        in if round_robin D theta then Some (start (d_lit D 0 0) (d_lit D 0 0))
           else if skewed D theta
           then map_option (\<lambda>p. start (d_div D (d_lit D 1 0) (d_sub D (d_lit D 1 0) theta)) (d_add D (d_lit D 1 0) p))
                  (mehcached_pow_approx D (d_lit D 5 1) theta)
           else Some (start (d_lit D 0 0) (d_lit D 0 0))
      else None)"

definition mehcached_zipf_init_copy :: "'d zipf_gen_state \<Rightarrow> u64 \<Rightarrow> 'd zipf_gen_state option" where
  "mehcached_zipf_init_copy src_state rand_seed =
     (if rand_seed < push_bit 48 1 then Some (src_state\<lparr>z_rand_state := rand_seed\<rparr>) else None)"

definition mehcached_zipf_change_n :: "'d zipf_gen_state \<Rightarrow> u64 \<Rightarrow> 'd zipf_gen_state" where
  "mehcached_zipf_change_n st n = st\<lparr>z_n := n\<rparr>"

lemma zeta_measure:
  fixes i n :: u64
  assumes "i < n"
  shows "unat n - unat (i + 1) < unat n - unat i"
proof -
  have "unat (i + 1) = Suc (unat i)"
  proof -
    have "unat n < 2 ^ 64" using unsigned_less [of n] by simp
    with assms show ?thesis by (simp add: unat_word_ariths word_less_nat_alt)
  qed
  with assms show ?thesis by (simp add: word_less_nat_alt)
qed

function zeta_loop :: "'d double_ops \<Rightarrow> u64 \<Rightarrow> 'd \<Rightarrow> u64 \<Rightarrow> 'd \<Rightarrow> 'd option" where
  "zeta_loop D last_n last_sum n theta =
     (if last_n < n
      then Option.bind (mehcached_pow_approx D (d_add D (d_of_u64 D last_n) (d_lit D 1 0)) theta) (\<lambda>p.
             zeta_loop D (last_n + 1) (d_add D last_sum (d_div D (d_lit D 1 0) p)) n theta)
      else Some last_sum)"
  by pat_completeness auto
termination
  by (relation "measure (\<lambda>(D, i, s, n, t). unat n - unat i)") (auto intro: zeta_measure)

declare zeta_loop.simps [simp del]

definition mehcached_zeta :: "'d double_ops \<Rightarrow> u64 \<Rightarrow> 'd \<Rightarrow> u64 \<Rightarrow> 'd \<Rightarrow> 'd option" where
  "mehcached_zeta D last_n last_sum n theta =
     (if last_n > n then zeta_loop D 0 (d_lit D 0 0) n theta else zeta_loop D last_n last_sum n theta)"

text \<open>\<open>mehcached_zipf_next\<close>: first the values that depend on \<open>n\<close> are brought up to date.\<close>

definition zipf_eta :: "'d double_ops \<Rightarrow> u64 \<Rightarrow> 'd \<Rightarrow> 'd \<Rightarrow> 'd option" where
  "zipf_eta D n theta zetan =
     Option.bind (mehcached_pow_approx D (d_div D (d_lit D 2 0) (d_of_u64 D n)) (d_sub D (d_lit D 1 0) theta)) (\<lambda>p.
     Option.bind (mehcached_zeta D 0 (d_lit D 0 0) 2 theta) (\<lambda>z.
     Some (d_div D (d_sub D (d_lit D 1 0) p) (d_sub D (d_lit D 1 0) (d_div D z zetan)))))"

definition zipf_update :: "'d double_ops \<Rightarrow> 'd zipf_gen_state \<Rightarrow> 'd zipf_gen_state option" where
  "zipf_update D st =
     (if z_last_n st \<noteq> z_n st
      then map_option (\<lambda>st. st\<lparr>z_last_n := z_n st, z_dbl_n := d_of_u64 D (z_n st)\<rparr>)
        (if skewed D (z_theta st)
         then Option.bind (mehcached_zeta D (z_last_n st) (z_zetan st) (z_n st) (z_theta st)) (\<lambda>z.
              Option.bind (zipf_eta D (z_n st) (z_theta st) z) (\<lambda>e.
              Some (st\<lparr>z_zetan := z, z_eta := e\<rparr>)))
         else Some st)
      else Some st)"

text \<open>Then a key is drawn.\<close>

definition zipf_draw :: "'d double_ops \<Rightarrow> 'd zipf_gen_state \<Rightarrow> (u64 \<times> 'd zipf_gen_state) option" where
  "zipf_draw D st =
     (if round_robin D (z_theta st) then
        let v = z_rand_state st; r = v + 1
        in Some (v, st\<lparr>z_rand_state := (if r \<ge> z_n st then 0 else r)\<rparr>)
      else if d_eq D (z_theta st) (d_lit D 0 0) then
        let (u, r) = mehcached_rand_d D (z_rand_state st)
        in Some (u64_of_d D (d_mul D (z_dbl_n st) u), st\<lparr>z_rand_state := r\<rparr>)
      else if d_le D (d_lit D 40 0) (z_theta st) then Some (0, st)
      else
        let (u, r) = mehcached_rand_d D (z_rand_state st); uz = d_mul D u (z_zetan st); st = st\<lparr>z_rand_state := r\<rparr>
        in if d_lt D uz (d_lit D 1 0) then Some (0, st)
           else if d_lt D uz (z_thres st) then Some (1, st)
           else map_option (\<lambda>p. (u64_of_d D (d_mul D (z_dbl_n st) p), st))
                  (mehcached_pow_approx D (d_add D (d_mul D (z_eta st) (d_sub D u (d_lit D 1 0))) (d_lit D 1 0)) (z_alpha st)))"

definition mehcached_zipf_next :: "'d double_ops \<Rightarrow> 'd zipf_gen_state \<Rightarrow> (u64 \<times> 'd zipf_gen_state) option" where
  "mehcached_zipf_next D st = Option.bind (zipf_update D st) (zipf_draw D)"


section \<open>The power\<close>

lemma pow_loop_nonneg:
  assumes "pow_loop D e r a = Some x"
  shows "0 \<le> sint e"
proof (rule pow_loop.raw_induct [where P = "\<lambda>D e r a x. 0 \<le> sint e", OF _ assms])
  fix loop :: "'a double_ops \<Rightarrow> u32 \<Rightarrow> 'a \<Rightarrow> 'a \<Rightarrow> 'a option" and D e r a x
  assume IH: "\<And>D e r a x. loop D e r a = Some x \<Longrightarrow> 0 \<le> sint e"
    and eq: "(if e \<noteq> 0 then loop D (signed_drop_bit 1 e) (if e AND 1 \<noteq> 0 then d_mul D r a else r) (d_mul D a a)
      else Some r) = Some x"
  show "0 \<le> sint e"
  proof (cases "e = 0")
    case False
    with eq have "loop D (signed_drop_bit 1 e) (if e AND 1 \<noteq> 0 then d_mul D r a else r) (d_mul D a a) = Some x"
      by simp
    then have "0 \<le> sint (signed_drop_bit 1 e)" by (rule IH)
    then show ?thesis by (simp add: sint_signed_drop_bit_eq drop_bit_eq_div)
  qed simp
qed

text \<open>\<open>a\<close> squared \<open>i\<close> times; the result is the product over the bits of the exponent.\<close>

definition squared :: "'d double_ops \<Rightarrow> nat \<Rightarrow> 'd \<Rightarrow> 'd" where
  "squared D i a = ((\<lambda>a. d_mul D a a) ^^ i) a"

definition power_of_bits :: "'d double_ops \<Rightarrow> u32 \<Rightarrow> nat \<Rightarrow> 'd \<Rightarrow> 'd \<Rightarrow> 'd" where
  "power_of_bits D e k r a = foldl (\<lambda>r i. d_mul D r (squared D i a)) r (filter (bit e) [0..<k])"

lemma squared_Suc: "squared D (Suc i) a = squared D i (d_mul D a a)"
  by (simp add: squared_def funpow_Suc_right del: funpow.simps)

lemma power_of_bits_Suc:
  "power_of_bits D e (Suc k) r a
     = power_of_bits D (drop_bit 1 e) k (if bit e 0 then d_mul D r a else r) (d_mul D a a)"
proof -
  have upt: "[0..<Suc k] = 0 # map Suc [0..<k]" by (simp add: map_Suc_upt upt_conv_Cons)
  have flt: "filter (bit e) (map Suc [0..<k]) = map Suc (filter (bit (drop_bit 1 e)) [0..<k])"
    by (simp add: filter_map o_def bit_drop_bit_eq)
  show ?thesis
    unfolding power_of_bits_def upt
    by (simp add: flt foldl_map squared_Suc del: upt_Suc map_map One_nat_def) (simp add: squared_def)
qed

lemma signed_drop_bit_nonneg:
  fixes e :: u32
  assumes "unat e < 2 ^ 31"
  shows "signed_drop_bit 1 e = drop_bit 1 e"
proof -
  have "\<not> bit (unat e) 31" using assms by (simp add: bit_iff_odd)
  then have "\<not> bit e 31" by (simp add: bit_unsigned_iff)
  then have high: "\<not> bit e n" if "31 \<le> n" for n
    using that by (cases "n = 31") (auto dest: bit_imp_le_length)
  show ?thesis by (rule bit_word_eqI) (auto simp: bit_simps high)
qed

lemma pow_loop_result:
  assumes "unat e < 2 ^ k" "k \<le> 31"
  shows "pow_loop D e r a = Some (power_of_bits D e k r a)"
  using assms
proof (induction k arbitrary: e r a)
  case 0
  then have "e = 0" by (simp add: unat_eq_zero)
  then show ?case by (subst pow_loop.simps) (simp add: power_of_bits_def)
next
  case (Suc k)
  show ?case
  proof (cases "e = 0")
    case True
    then show ?thesis by (subst pow_loop.simps) (simp add: power_of_bits_def)
  next
    case False
    have "(2 :: nat) ^ Suc k \<le> 2 ^ 31" using Suc.prems(2) by (intro power_increasing) simp_all
    then have sd: "signed_drop_bit 1 e = drop_bit 1 e" using Suc.prems(1) by (intro signed_drop_bit_nonneg) linarith
    have "unat (drop_bit 1 e) < 2 ^ k" 
      unfolding unat_drop_bit_eq using Suc.prems(1) by (simp add: drop_bit_eq_div [where 'a = nat] less_mult_imp_div_less mult.commute)
    note ih = Suc.IH [OF this]
    have "e AND 1 \<noteq> 0 \<longleftrightarrow> bit e 0" by (simp add: bit_0 and_one_eq odd_iff_mod_2_eq_one)
    then show ?thesis
      using False Suc.prems(2) by (subst pow_loop.simps) (simp add: sd ih power_of_bits_Suc del: One_nat_def)
  qed
qed

lemma sint_nonneg_iff: "0 \<le> sint (e :: u32) \<longleftrightarrow> unat e < 2 ^ 31"
proof -
  have u: "unat e < 2 ^ 32" using unsigned_less [of e] by simp
  have "0 \<le> sint e \<longleftrightarrow> \<not> bit (uint e) 31" by (simp add: sint_uint)
  also have "\<dots> \<longleftrightarrow> \<not> bit (unat e) 31" by (simp add: bit_unsigned_iff)
  also have "\<dots> \<longleftrightarrow> even (unat e div 2 ^ 31)" by (simp only: bit_iff_odd not_not)
  also have "\<dots> \<longleftrightarrow> unat e < 2 ^ 31"
  proof
    assume ev: "even (unat e div 2 ^ 31)"
    have "unat e div 2 ^ 31 < 2" using u by (simp add: less_mult_imp_div_less)
    with ev have "unat e div 2 ^ 31 = 0" by (metis less_2_cases odd_one One_nat_def)
    then show "unat e < 2 ^ 31" by (simp add: div_eq_0_iff)
  qed simp
  finally show ?thesis .
qed

section \<open>The zeta sums\<close>

lemma zeta_loop_split:
  assumes "i \<le> m" "m \<le> n"
  shows "zeta_loop D i s n theta = Option.bind (zeta_loop D i s m theta) (\<lambda>s. zeta_loop D m s n theta)"
  using assms
proof (induction D i s m theta rule: zeta_loop.induct)
  case (1 D i s m theta)
  show ?case
  proof (cases "i < m")
    case True
    then have i: "i < n" "i + 1 \<le> m" using 1(3) by (auto simp: inc_le)
    show ?thesis
      using True i 1(1) [OF True _ i(2) 1(3)]
      by (subst (1 2) zeta_loop.simps) (auto simp: Option.bind_assoc intro!: bind_option_cong)
  next
    case False
    then have "i = m" using 1(2) by simp
    then show ?thesis by (subst (2) zeta_loop.simps) simp
  qed
qed

text \<open>Going on from an old sum gives the sum itself, whatever the rounding.\<close>

lemma zeta_from_old:
  assumes "zeta_loop D 0 (d_lit D 0 0) m theta = Some s"
  shows "mehcached_zeta D m s n theta = zeta_loop D 0 (d_lit D 0 0) n theta"
proof (cases "m \<le> n")
  case True
  then show ?thesis using assms zeta_loop_split [of 0 m n D "d_lit D 0 0" theta] by (simp add: mehcached_zeta_def)
qed (simp add: mehcached_zeta_def not_le)

lemma zeta_fresh: "mehcached_zeta D 0 (d_lit D 0 0) n theta = zeta_loop D 0 (d_lit D 0 0) n theta"
  by (simp add: mehcached_zeta_def)

section \<open>The values kept for n\<close>

datatype zipf_op = Next | Change_n u64

fun zipf_run :: "'d double_ops \<Rightarrow> zipf_op list \<Rightarrow> 'd zipf_gen_state \<Rightarrow> 'd zipf_gen_state option" where
  "zipf_run D [] st = Some st"
| "zipf_run D (Next # ops) st = Option.bind (mehcached_zipf_next D st) (\<lambda>(_, st). zipf_run D ops st)"
| "zipf_run D (Change_n n # ops) st = zipf_run D ops (mehcached_zipf_change_n st n)"

text \<open>The generator as it would be had it been made for this \<open>n\<close>, with this random state.\<close>

definition zipf_fresh :: "'d double_ops \<Rightarrow> 'd zipf_gen_state \<Rightarrow> 'd zipf_gen_state" where
  "zipf_fresh D st = st\<lparr>z_last_n := 0, z_dbl_n := d_lit D 0 0, z_zetan := d_lit D 0 0, z_eta := d_lit D 0 0\<rparr>"

text \<open>Nothing computed yet, or everything computed for the last \<open>n\<close>.\<close>

definition zipf_new :: "'d double_ops \<Rightarrow> 'd zipf_gen_state \<Rightarrow> bool" where
  "zipf_new D st \<longleftrightarrow> z_last_n st = 0 \<and> z_dbl_n st = d_lit D 0 0 \<and> z_zetan st = d_lit D 0 0 \<and> z_eta st = d_lit D 0 0"

definition zipf_old :: "'d double_ops \<Rightarrow> 'd zipf_gen_state \<Rightarrow> bool" where
  "zipf_old D st \<longleftrightarrow> z_last_n st \<noteq> 0
     \<and> zipf_update D (zipf_fresh D (st\<lparr>z_n := z_last_n st\<rparr>)) = Some (st\<lparr>z_n := z_last_n st\<rparr>)"

definition zipf_inv :: "'d double_ops \<Rightarrow> 'd zipf_gen_state \<Rightarrow> bool" where
  "zipf_inv D st \<longleftrightarrow> z_n st \<noteq> 0 \<and> (zipf_new D st \<or> zipf_old D st)"

lemma fresh_of_new: "zipf_new D st \<Longrightarrow> zipf_fresh D st = st"
  by (cases st) (simp add: zipf_new_def zipf_fresh_def)

lemma map_option_of_bind: "map_option f (Option.bind x g) = Option.bind x (\<lambda>y. map_option f (g y))"
  by (cases x) simp_all

lemma zipf_update_fresh:
  assumes "zipf_inv D st"
  shows "zipf_update D st = zipf_update D (zipf_fresh D st)"
proof (cases "zipf_new D st")
  case False
  then have old: "z_last_n st \<noteq> 0" "zipf_update D (zipf_fresh D (st\<lparr>z_n := z_last_n st\<rparr>)) = Some (st\<lparr>z_n := z_last_n st\<rparr>)"
    and n: "z_n st \<noteq> 0"
    using assms by (auto simp: zipf_inv_def zipf_old_def)
  show ?thesis
  proof (cases "z_last_n st = z_n st")
    case True
    then have "st\<lparr>z_n := z_last_n st\<rparr> = st" by simp
    with old True show ?thesis by (simp add: zipf_update_def [of D st])
  next
    case False
    show ?thesis
    proof (cases "skewed D (z_theta st)")
      case True
      have "zeta_loop D 0 (d_lit D 0 0) (z_last_n st) (z_theta st) = Some (z_zetan st)"
        using old True by (cases st) (auto simp: zipf_update_def zipf_fresh_def zeta_fresh bind_eq_Some_conv)
      note z = zeta_from_old [OF this]
      show ?thesis using False n True by (simp add: zipf_update_def zipf_fresh_def zeta_fresh z map_option_of_bind)
    next
      case nsk: False
      have "z_zetan st = d_lit D 0 0" "z_eta st = d_lit D 0 0"
        using old nsk by (cases st; auto simp: zipf_update_def zipf_fresh_def)+
      then show ?thesis using False n nsk by (simp add: zipf_update_def zipf_fresh_def)
    qed
  qed
qed (simp add: fresh_of_new)

lemma zipf_update_frame:
  assumes "zipf_update D st = Some st'"
  shows "z_n st' = z_n st" "z_last_n st' = z_n st" "z_theta st' = z_theta st" "z_rand_state st' = z_rand_state st"
    "zipf_fresh D st' = zipf_fresh D st"
  using assms by (auto simp: zipf_update_def zipf_fresh_def bind_eq_Some_conv split: if_splits)

lemma zipf_update_rand:
  "zipf_update D (st\<lparr>z_rand_state := r\<rparr>) = map_option (\<lambda>s. s\<lparr>z_rand_state := r\<rparr>) (zipf_update D st)"
  by (cases st) (simp add: zipf_update_def map_option_of_bind option.map_comp o_def)

text \<open>The whole invariant, relative to the state \<open>st0\<close> that was made.\<close>

definition zipf_keeps :: "'d double_ops \<Rightarrow> 'd zipf_gen_state \<Rightarrow> 'd zipf_gen_state \<Rightarrow> bool" where
  "zipf_keeps D st0 st \<longleftrightarrow> zipf_inv D st
     \<and> zipf_fresh D st = st0\<lparr>z_n := z_n st, z_rand_state := z_rand_state st\<rparr>"

lemma keeps_update:
  assumes "zipf_keeps D st0 st" "zipf_update D st = Some st'"
  shows "zipf_keeps D st0 st'"
proof -
  note f = zipf_update_frame [OF assms(2)]
  have inv: "zipf_inv D st" using assms(1) by (simp add: zipf_keeps_def)
  then have n: "z_n st' \<noteq> 0" by (simp add: f(1) zipf_inv_def)
  have eq: "st'\<lparr>z_n := z_last_n st'\<rparr> = st'" using f(1,2) by simp
  have "zipf_update D (zipf_fresh D st') = Some st'"
    using assms(2) zipf_update_fresh [OF inv] f(5) by simp
  then have "zipf_inv D st'" unfolding zipf_inv_def zipf_old_def eq using n f(1,2) by simp
  then show ?thesis using assms(1) f by (simp add: zipf_keeps_def)
qed

lemma zipf_inv_rand:
  assumes "zipf_inv D st"
  shows "zipf_inv D (st\<lparr>z_rand_state := r\<rparr>)"
proof (cases "zipf_new D st")
  case True
  then show ?thesis using assms by (simp add: zipf_inv_def zipf_new_def)
next
  case False
  let ?old = "st\<lparr>z_n := z_last_n st\<rparr>"
  have old: "zipf_update D (zipf_fresh D ?old) = Some ?old" "z_last_n st \<noteq> 0" "z_n st \<noteq> 0"
    using assms False by (auto simp: zipf_inv_def zipf_old_def)
  have "zipf_fresh D (?old\<lparr>z_rand_state := r\<rparr>) = (zipf_fresh D ?old)\<lparr>z_rand_state := r\<rparr>" by (simp add: zipf_fresh_def)
  then have "zipf_update D (zipf_fresh D (?old\<lparr>z_rand_state := r\<rparr>)) = Some (?old\<lparr>z_rand_state := r\<rparr>)"
    by (simp only: zipf_update_rand old option.map)
  moreover have "(st\<lparr>z_rand_state := r\<rparr>)\<lparr>z_n := z_last_n (st\<lparr>z_rand_state := r\<rparr>)\<rparr> = ?old\<lparr>z_rand_state := r\<rparr>" by simp
  ultimately have "zipf_old D (st\<lparr>z_rand_state := r\<rparr>)"
    using old(2) unfolding zipf_old_def by (simp only: zipf_gen_state.simps simp_thms) simp
  then show ?thesis using old(3) by (simp add: zipf_inv_def)
qed

lemma keeps_rand: "zipf_keeps D st0 st \<Longrightarrow> zipf_keeps D st0 (st\<lparr>z_rand_state := r\<rparr>)"
proof -
  assume k: "zipf_keeps D st0 st"
  have "zipf_fresh D (st\<lparr>z_rand_state := r\<rparr>) = (zipf_fresh D st)\<lparr>z_rand_state := r\<rparr>" by (simp add: zipf_fresh_def)
  then show ?thesis using k zipf_inv_rand [of D st r] by (simp add: zipf_keeps_def)
qed

lemma zipf_inv_change: "zipf_inv D st \<Longrightarrow> n \<noteq> 0 \<Longrightarrow> zipf_inv D (st\<lparr>z_n := n\<rparr>)"
  by (simp add: zipf_inv_def zipf_new_def zipf_old_def)

lemma keeps_change: "zipf_keeps D st0 st \<Longrightarrow> n \<noteq> 0 \<Longrightarrow> zipf_keeps D st0 (mehcached_zipf_change_n st n)"
proof -
  assume k: "zipf_keeps D st0 st" and n: "n \<noteq> 0"
  have "zipf_fresh D (st\<lparr>z_n := n\<rparr>) = (zipf_fresh D st)\<lparr>z_n := n\<rparr>" by (simp add: zipf_fresh_def)
  then show ?thesis using k zipf_inv_change [of D st n] n by (simp add: zipf_keeps_def mehcached_zipf_change_n_def)
qed

lemma zipf_draw_frame:
  "zipf_draw D st = Some (v, st') \<Longrightarrow> \<exists>r. st' = st\<lparr>z_rand_state := r\<rparr>"
  by (auto simp: zipf_draw_def Let_def split: if_splits prod.splits intro: exI [of _ "z_rand_state st"])

lemma keeps_next: "zipf_keeps D st0 st \<Longrightarrow> mehcached_zipf_next D st = Some (v, st') \<Longrightarrow> zipf_keeps D st0 st'"
  using keeps_update keeps_rand zipf_draw_frame
  by (auto simp: mehcached_zipf_next_def bind_eq_Some_conv) blast

lemma keeps_init: "mehcached_zipf_init D n theta seed = Some st \<Longrightarrow> zipf_keeps D st st"
  by (auto simp: mehcached_zipf_init_def zipf_keeps_def zipf_inv_def zipf_new_def zipf_fresh_def Let_def word_gt_0 split: if_splits)

lemma keeps_run:
  "zipf_run D ops st = Some st' \<Longrightarrow> Change_n 0 \<notin> set ops \<Longrightarrow> zipf_keeps D st0 st \<Longrightarrow> zipf_keeps D st0 st'"
proof (induction D ops st rule: zipf_run.induct)
  case (2 D ops st)
  then show ?case by (fastforce simp: bind_eq_Some_conv intro: keeps_next)
next
  case (3 D n ops st)
  then show ?case by (auto intro: keeps_change)
qed simp

section \<open>The generator always returns\<close>

text \<open>
  The exponents that the generator uses are not negative: \<open>theta\<close> and \<open>1 - theta\<close> lie between 0 and
  1, and \<open>alpha\<close> is the inverse of the latter.
\<close>

definition exponents_ok :: "'d double_ops \<Rightarrow> 'd zipf_gen_state \<Rightarrow> bool" where
  "exponents_ok D st \<longleftrightarrow> 0 \<le> sint (int_of_d D (z_theta st)) \<and> 0 \<le> sint (int_of_d D (z_alpha st))
     \<and> 0 \<le> sint (int_of_d D (d_sub D (d_lit D 1 0) (z_theta st)))"

lemma pow_approx_returns: "0 \<le> sint (int_of_d D b) \<Longrightarrow> \<exists>p. mehcached_pow_approx D a b = Some p"
  using pow_loop_result [of "int_of_d D b" 31 D "d_lit D 1 0" a] by (simp add: mehcached_pow_approx_def sint_nonneg_iff)

lemma zeta_loop_returns: "0 \<le> sint (int_of_d D theta) \<Longrightarrow> \<exists>z. zeta_loop D i s n theta = Some z"
proof (induction D i s n theta rule: zeta_loop.induct)
  case (1 D i s n theta)
  obtain p where p: "mehcached_pow_approx D (d_add D (d_of_u64 D i) (d_lit D 1 0)) theta = Some p"
    using pow_approx_returns [OF 1(2)] by blast
  show ?case
  proof (cases "i < n")
    case True
    from 1(1) [OF True p 1(2)] show ?thesis using True by (subst zeta_loop.simps) (simp add: p)
  qed (simp add: zeta_loop.simps)
qed

lemma zeta_returns: "0 \<le> sint (int_of_d D theta) \<Longrightarrow> \<exists>z. mehcached_zeta D i s n theta = Some z"
  unfolding mehcached_zeta_def using zeta_loop_returns by (cases "n < i") auto

lemma zipf_update_returns:
  assumes "exponents_ok D st"
  obtains st' where "zipf_update D st = Some st'" "exponents_ok D st'"
proof -
  obtain z where z: "mehcached_zeta D (z_last_n st) (z_zetan st) (z_n st) (z_theta st) = Some z"
    using assms zeta_returns unfolding exponents_ok_def by metis
  obtain p z2 where "mehcached_pow_approx D (d_div D (d_lit D 2 0) (d_of_u64 D (z_n st))) (d_sub D (d_lit D 1 0) (z_theta st)) = Some p"
    "mehcached_zeta D 0 (d_lit D 0 0) 2 (z_theta st) = Some z2"
    using assms zeta_returns pow_approx_returns unfolding exponents_ok_def by metis
  then obtain e where e: "zipf_eta D (z_n st) (z_theta st) z = Some e" by (simp add: zipf_eta_def)
  show thesis
  proof (rule that)
    show "zipf_update D st = Some (if z_last_n st \<noteq> z_n st
        then (if skewed D (z_theta st) then st\<lparr>z_zetan := z, z_eta := e\<rparr> else st)\<lparr>z_last_n := z_n st, z_dbl_n := d_of_u64 D (z_n st)\<rparr>
        else st)"
      by (simp add: zipf_update_def z e)
  qed (use assms in \<open>simp add: exponents_ok_def\<close>)
qed

lemma zipf_next_returns:
  assumes "exponents_ok D st"
  obtains v st' where "mehcached_zipf_next D st = Some (v, st')" "exponents_ok D st'"
proof -
  from zipf_update_returns [OF assms] obtain st1 where st1: "zipf_update D st = Some st1" "exponents_ok D st1" by metis
  obtain u r where u: "mehcached_rand_d D (z_rand_state st1) = (u, r)" by (cases "mehcached_rand_d D (z_rand_state st1)")
  obtain p where p: "mehcached_pow_approx D (d_add D (d_mul D (z_eta st1) (d_sub D u (d_lit D 1 0))) (d_lit D 1 0)) (z_alpha st1) = Some p"
    using pow_approx_returns st1(2) unfolding exponents_ok_def by metis
  have "zipf_draw D st1 \<noteq> None" by (simp add: zipf_draw_def Let_def u p)
  then obtain v st' where d: "zipf_draw D st1 = Some (v, st')" by auto
  moreover have "exponents_ok D st'" using zipf_draw_frame [OF d] st1(2) by (auto simp: exponents_ok_def)
  ultimately show thesis using that st1(1) by (simp add: mehcached_zipf_next_def)
qed

lemma zipf_run_returns: "exponents_ok D st \<Longrightarrow> \<exists>st'. zipf_run D ops st = Some st'"
proof (induction D ops st rule: zipf_run.induct)
  case (2 D ops st)
  from zipf_next_returns [OF 2(2)] obtain v st' where n: "mehcached_zipf_next D st = Some (v, st')" "exponents_ok D st'" by metis
  with 2(1) [OF n(1) refl] show ?case by simp
next
  case (3 D n ops st)
  then show ?case by (simp add: mehcached_zipf_change_n_def exponents_ok_def)
qed simp

section \<open>Round robin\<close>

fun zipf_keys :: "'d double_ops \<Rightarrow> nat \<Rightarrow> 'd zipf_gen_state \<Rightarrow> (u64 list \<times> 'd zipf_gen_state) option" where
  "zipf_keys D 0 st = Some ([], st)"
| "zipf_keys D (Suc k) st =
     Option.bind (mehcached_zipf_next D st) (\<lambda>(v, st).
       map_option (\<lambda>(vs, st). (v # vs, st)) (zipf_keys D k st))"

lemma round_robin_next:
  assumes "round_robin D (z_theta st)" "\<not> skewed D (z_theta st)" "z_rand_state st < z_n st"
  obtains st' where "mehcached_zipf_next D st = Some (z_rand_state st, st')"
    "z_theta st' = z_theta st" "z_n st' = z_n st"
    "unat (z_rand_state st') = (unat (z_rand_state st) + 1) mod unat (z_n st)"
proof -
  have "zipf_update D st \<noteq> None" using assms(2) by (simp add: zipf_update_def)
  then obtain st1 where st1: "zipf_update D st = Some st1" by blast
  note f = zipf_update_frame [OF st1]
  define st' where "st' = st1\<lparr>z_rand_state := (if z_rand_state st + 1 \<ge> z_n st then 0 else z_rand_state st + 1)\<rparr>"
  have "unat (z_n st) < 2 ^ 64" using unsigned_less [of "z_n st"] by simp
  then have s: "unat (z_rand_state st + 1) = unat (z_rand_state st) + 1"
    using assms(3) by (simp add: unat_word_ariths word_less_nat_alt)
  have "mehcached_zipf_next D st = Some (z_rand_state st, st')"
    using assms(1) f by (simp add: mehcached_zipf_next_def st1 zipf_draw_def Let_def st'_def)
  moreover have "unat (z_rand_state st') = (unat (z_rand_state st) + 1) mod unat (z_n st)"
    using assms(3) s by (auto simp: st'_def word_le_nat_alt word_less_nat_alt not_le le_Suc_eq)
  ultimately show thesis using f by (intro that [of st']) (simp_all add: st'_def)
qed

lemma zipf_keys_round_robin:
  assumes "round_robin D (z_theta st)" "\<not> skewed D (z_theta st)" "z_rand_state st < z_n st"
  shows "map_option (map unat \<circ> fst) (zipf_keys D k st)
     = Some (map (\<lambda>i. (unat (z_rand_state st) + i) mod unat (z_n st)) [0..<k])"
  using assms
proof (induction k arbitrary: st)
  case (Suc k)
  from round_robin_next [OF Suc.prems] obtain st' where
    st': "mehcached_zipf_next D st = Some (z_rand_state st, st')" "z_theta st' = z_theta st" "z_n st' = z_n st"
    "unat (z_rand_state st') = (unat (z_rand_state st) + 1) mod unat (z_n st)" by metis
  have lt: "z_rand_state st' < z_n st'"
    using st' Suc.prems(3) by (simp add: word_less_nat_alt)
  have ih: "map_option (map unat \<circ> fst) (zipf_keys D k st')
      = Some (map (\<lambda>i. (unat (z_rand_state st) + Suc i) mod unat (z_n st)) [0..<k])"
    using Suc.IH [of st'] lt Suc.prems st' by (simp add: mod_simps)
  have "[0..<Suc k] = 0 # map Suc [0..<k]" by (simp add: map_Suc_upt upt_conv_Cons)
  moreover have "unat (z_rand_state st) mod unat (z_n st) = unat (z_rand_state st)"
    using Suc.prems(3) by (simp add: word_less_nat_alt)
  ultimately show ?case
    using ih by (auto simp: st'(1) o_def simp del: upt_Suc)
qed simp

section \<open>The random bits\<close>

text \<open>\<open>1 + a + \<dots> + a ^ (k - 1)\<close>.\<close>

fun geo :: "int \<Rightarrow> nat \<Rightarrow> int" where
  "geo a 0 = 0"
| "geo a (Suc k) = 1 + a * geo a k"

lemma geo_power: "(a - 1) * geo a k = a ^ k - 1"
  by (induction k) (simp_all add: algebra_simps)

lemma geo_double: "geo a (2 * k) = geo a k * (1 + a ^ k)"
proof -
  have "geo a (m + k) = geo a m + a ^ m * geo a k" for m by (induction m) (simp_all add: algebra_simps)
  from this [of k] show ?thesis by (simp add: algebra_simps mult_2 mult_2_right)
qed

lemma geo_odd: "odd a \<Longrightarrow> odd (geo a k) = odd k"
  by (induction k) auto

lemma geo_dvd_iff:
  fixes a :: int
  assumes "a mod 4 = 1"
  shows "2 ^ e dvd geo a k \<longleftrightarrow> 2 ^ e dvd k"
proof (induction e arbitrary: k)
  case (Suc e)
  have a: "odd a" using assms by presburger
  show ?case
  proof (cases "odd k")
    case True
    then have "odd (geo a k)" using geo_odd [OF a] by simp
    with True show ?thesis by (meson dvd_power dvd_trans zero_less_Suc)
  next
    case False
    then obtain m where k: "k = 2 * m" by (auto elim: evenE)
    have "a ^ m mod 4 = 1" using assms by (metis power_mod power_one one_mod_numeral mod_mod_trivial)
    then obtain h where h: "1 + a ^ m = 2 * h" "odd h"
      by (intro that [of "(1 + a ^ m) div 2"]) presburger+
    have "coprime (2 ^ e) h" using h(2) by simp
    then have "2 ^ e dvd geo a m * h \<longleftrightarrow> 2 ^ e dvd geo a m" by (simp add: coprime_dvd_mult_left_iff)
    moreover have "geo a k = 2 * (geo a m * h)" unfolding k geo_double h(1) by simp
    ultimately show ?thesis using Suc.IH [of m] by (simp add: k)
  qed
qed simp

text \<open>The distance of a value to the one \<open>k\<close> steps on.\<close>

lemma lcg_funpow: "((\<lambda>x. a * x + c) ^^ k) (x :: int) = x + ((a - 1) * x + c) * geo a k"
proof (induction k)
  case (Suc k)
  show ?case by (simp only: funpow.simps o_apply Suc geo.simps) (simp add: algebra_simps)
qed simp

lemma lcg_period:
  fixes a c x :: int
  assumes "a mod 4 = 1" "odd c"
  shows "((\<lambda>x. a * x + c) ^^ i) x mod 2 ^ e = ((\<lambda>x. a * x + c) ^^ j) x mod 2 ^ e \<longleftrightarrow> i mod 2 ^ e = j mod 2 ^ e"
proof -
  have a: "odd a" "even (a - 1)" using assms(1) by presburger+
  have main: "((\<lambda>x. a * x + c) ^^ i) x mod 2 ^ e = ((\<lambda>x. a * x + c) ^^ (i + k)) x mod 2 ^ e \<longleftrightarrow> 2 ^ e dvd k" for i k
  proof -
    define y where "y = ((\<lambda>x. a * x + c) ^^ i) x"
    have "((\<lambda>x. a * x + c) ^^ (i + k)) x = y + ((a - 1) * y + c) * geo a k"
      unfolding y_def add.commute [of i k] funpow_add o_apply by (rule lcg_funpow)
    then have "((\<lambda>x. a * x + c) ^^ i) x mod 2 ^ e = ((\<lambda>x. a * x + c) ^^ (i + k)) x mod 2 ^ e
        \<longleftrightarrow> 2 ^ e dvd ((a - 1) * y + c) * geo a k"
      by (simp add: y_def [symmetric] mod_eq_dvd_iff)
    also have "\<dots> \<longleftrightarrow> 2 ^ e dvd geo a k"
    proof -
      have "odd ((a - 1) * y + c)" using a assms(2) by simp
      then have "coprime (2 ^ e) ((a - 1) * y + c)" by simp
      then show ?thesis by (rule coprime_dvd_mult_right_iff)
    qed
    finally show ?thesis using geo_dvd_iff [OF assms(1)] by simp
  qed
  have nat: "i mod 2 ^ e = (i + k) mod 2 ^ e \<longleftrightarrow> 2 ^ e dvd k" for i k :: nat
    using mod_eq_dvd_iff_nat [of i "i + k" "2 ^ e"] by (simp add: eq_commute)
  show ?thesis
  proof (cases "i \<le> j")
    case True
    then show ?thesis using main [of i "j - i"] nat [of i "j - i"] by simp
  next
    case False
    then show ?thesis using main [of j "i - j"] nat [of j "i - j"] by (simp add: eq_commute)
  qed
qed

definition zipf_rand :: "'d double_ops \<Rightarrow> u64 \<Rightarrow> u64" where
  "zipf_rand D s = snd (mehcached_rand_d D s)"

lemma mod_affine: "(a * (x mod n) + c) mod n = (a * x + c) mod (n :: int)"
  by (metis mod_add_left_eq mod_mult_right_eq)

lemma uint_zipf_rand: "uint (zipf_rand D s) = (0x5deece66d * uint s + 0xb) mod 2 ^ 48"
proof -
  have m: "(push_bit 48 1 - 1 :: u64) = mask 48" by (simp add: mask_eq_exp_minus_1 push_bit_eq_mult)
  have "uint (zipf_rand D s) = take_bit 48 (uint (s * 0x5deece66d + 0xb))"
    unfolding zipf_rand_def mehcached_rand_d_def Let_def snd_conv m take_bit_eq_mask [symmetric]
    by (simp only: unsigned_take_bit_eq)
  also have "\<dots> = take_bit 48 (take_bit 64 (uint s * 0x5deece66d + 0xb))"
    by (simp add: uint_word_ariths take_bit_eq_mod mod_simps)
  also have "\<dots> = (uint s * 0x5deece66d + 0xb) mod 2 ^ 48"
    unfolding take_bit_take_bit by (simp add: take_bit_eq_mod)
  finally show ?thesis by (simp only: mult.commute)
qed

lemma uint_zipf_rand_funpow:
  assumes "uint s < 2 ^ 48"
  shows "uint ((zipf_rand D ^^ k) s) = ((\<lambda>x. 0x5deece66d * x + 0xb) ^^ k) (uint s) mod 2 ^ 48"
proof (induction k)
  case (Suc k)
  have "uint ((zipf_rand D ^^ Suc k) s) = (0x5deece66d * (((\<lambda>x. 0x5deece66d * x + 0xb) ^^ k) (uint s) mod 2 ^ 48) + 0xb) mod 2 ^ 48"
    by (simp only: funpow.simps o_apply uint_zipf_rand Suc)
  also have "\<dots> = (0x5deece66d * ((\<lambda>x. 0x5deece66d * x + 0xb) ^^ k) (uint s) + 0xb) mod 2 ^ 48"
    by (rule mod_affine)
  finally show ?case by (simp only: funpow.simps o_apply)
next
  case 0
  then show ?case using assms uint_nonnegative [of s] by (simp add: mod_pos_pos_trivial)
qed

section \<open>Properties\<close>

text \<open>A number system for the witnesses: integers that count thousandths.\<close>

definition milli :: "int double_ops" where
  "milli = \<lparr>d_add = (+), d_sub = (-), d_mul = (\<lambda>x y. x * y div 1000), d_div = (\<lambda>x y. x * 1000 div y),
     d_lt = (<), d_le = (\<le>), d_eq = (=), d_lit = (\<lambda>m k. m * 1000 div 10 ^ k), d_of_u64 = (\<lambda>w. 1000 * uint w),
     d_of_int = (\<lambda>w. 1000 * sint w), u64_of_d = (\<lambda>x. word_of_int (x div 1000)), int_of_d = (\<lambda>x. word_of_int (x div 1000)),
     d_high = word_of_int, d_of_words = (\<lambda>l h. 700)\<rparr>"

lemma init_other_n:
  assumes "mehcached_zipf_init D n theta seed = Some st0" "n' \<noteq> 0"
  shows "\<exists>r. mehcached_zipf_init D n' theta seed = Some (st0\<lparr>z_n := n', z_rand_state := r\<rparr>)"
  using assms by (auto simp: mehcached_zipf_init_def Let_def word_gt_0 split: if_splits)

lemma milli_exponents: "z_theta st = 500 \<Longrightarrow> z_alpha st = 2000 \<Longrightarrow> exponents_ok milli st"
  by (simp add: exponents_ok_def milli_def)

lemma milli_skewed: "skewed milli 500" "\<not> round_robin milli 500" "round_robin milli (-1000)" "\<not> skewed milli (-1000)"
  by (simp_all add: skewed_def round_robin_def milli_def)

lemma milli_init: "\<exists>st. mehcached_zipf_init milli 3 500 77 = Some st \<and> exponents_ok milli st"
proof -
  have "0 \<le> sint (int_of_d milli 500)" by (simp add: milli_def)
  from pow_approx_returns [OF this] obtain p where "mehcached_pow_approx milli (d_lit milli 5 1) 500 = Some p" by blast
  then show ?thesis
    unfolding mehcached_zipf_init_def
    by (simp add: milli_skewed exponents_ok_def) (simp add: milli_def)
qed

text \<open>
  C35. Changing the number of items keeps no trace: after any calls of \<open>mehcached_zipf_next\<close> and
  \<open>mehcached_zipf_change_n\<close> (never to 0) the generator draws the next key, and goes on, as
  one made for the present number of items with the same random state would, whatever the
  rounding of the arithmetic. The sums it keeps are never stale.
\<close>

theorem zipf_next_as_if_fresh:
  assumes "mehcached_zipf_init D n theta seed = Some st0" "zipf_run D ops st0 = Some st" "Change_n 0 \<notin> set ops"
  shows "\<exists>st1. mehcached_zipf_init D (z_n st) theta seed = Some st1
     \<and> mehcached_zipf_next D st = mehcached_zipf_next D (st1\<lparr>z_rand_state := z_rand_state st\<rparr>)"
proof -
  have k: "zipf_inv D st" "zipf_fresh D st = st0\<lparr>z_n := z_n st, z_rand_state := z_rand_state st\<rparr>"
    using keeps_run [OF assms(2,3) keeps_init [OF assms(1)]] by (simp_all add: zipf_keeps_def)
  then obtain r where r: "mehcached_zipf_init D (z_n st) theta seed = Some (st0\<lparr>z_n := z_n st, z_rand_state := r\<rparr>)"
    using init_other_n [OF assms(1)] by (auto simp: zipf_inv_def)
  have "mehcached_zipf_next D st = mehcached_zipf_next D (st0\<lparr>z_n := z_n st, z_rand_state := z_rand_state st\<rparr>)"
    unfolding mehcached_zipf_next_def zipf_update_fresh [OF k(1)] k(2) ..
  with r show ?thesis by simp
qed

theorem zipf_next_as_if_fresh_witness:
  "\<exists>st0 st st1 v. mehcached_zipf_init milli 3 500 77 = Some st0 \<and> zipf_run milli [Next, Change_n 5, Next] st0 = Some st
     \<and> mehcached_zipf_init milli (z_n st) 500 77 = Some st1 \<and> mehcached_zipf_next milli st = Some v
     \<and> mehcached_zipf_next milli (st1\<lparr>z_rand_state := z_rand_state st\<rparr>) = Some v"
proof -
  from milli_init obtain st0 where st0: "mehcached_zipf_init milli 3 500 77 = Some st0" "exponents_ok milli st0" by blast
  from zipf_run_returns [OF st0(2), of "[Next, Change_n 5, Next]"]
  obtain st where st: "zipf_run milli [Next, Change_n 5, Next] st0 = Some st" by blast
  from zipf_run_returns [OF st0(2), of "[Next, Change_n 5, Next, Next]"] st
  obtain v where "mehcached_zipf_next milli st = Some v" by (auto simp: bind_eq_Some_conv)
  moreover have "\<exists>st1. mehcached_zipf_init milli (z_n st) 500 77 = Some st1
      \<and> mehcached_zipf_next milli st = mehcached_zipf_next milli (st1\<lparr>z_rand_state := z_rand_state st\<rparr>)"
    by (rule zipf_next_as_if_fresh [OF st0(1) st]) simp
  ultimately show ?thesis using st0(1) st by metis
qed

text \<open>
  C40. \<open>mehcached_pow_approx\<close> returns exactly when the integer part of the exponent is not
  negative (otherwise the shift ends at -1 and the loop never does), and then multiplies, from
  the lowest bit of that integer on, the repeated squares of the base with the factor for the
  fraction.
\<close>

theorem zipf_power_returns_iff:
  "mehcached_pow_approx D a b =
     (if sint (int_of_d D b) < 0 then None
      else Some (d_mul D (power_of_bits D (int_of_d D b) 31 (d_lit D 1 0) a) (pow_fraction D a b)))"
proof (cases "sint (int_of_d D b) < 0")
  case True
  then have "pow_loop D (int_of_d D b) (d_lit D 1 0) a = None" using pow_loop_nonneg by (metis not_le not_None_eq)
  with True show ?thesis by (simp add: mehcached_pow_approx_def)
next
  case False
  then show ?thesis
    using pow_loop_result [of "int_of_d D b" 31 D "d_lit D 1 0" a]
    by (simp add: mehcached_pow_approx_def sint_nonneg_iff flip: not_le)
qed

text \<open>
  With \<open>theta\<close> = -1 the generator deals the items out in turn, from the seed modulo their
  number on.
\<close>

theorem zipf_round_robin_deals:
  assumes "mehcached_zipf_init D n theta seed = Some st" "round_robin D theta" "\<not> skewed D theta"
  shows "map_option (map unat \<circ> fst) (zipf_keys D k st) = Some (map (\<lambda>i. (unat seed + i) mod unat n) [0..<k])"
proof -
  have st: "z_theta st = theta" "z_n st = n" "z_rand_state st = seed mod n" "n \<noteq> 0"
    using assms by (auto simp: mehcached_zipf_init_def Let_def split: if_splits)
  have "z_rand_state st < z_n st" using st by (simp add: word_less_nat_alt unat_mod unat_gt_0)
  then show ?thesis
    using zipf_keys_round_robin [of D st k] assms(2,3) st by (simp add: unat_mod mod_simps)
qed

theorem zipf_round_robin_deals_witness:
  "\<exists>st. mehcached_zipf_init milli 3 (-1000) 77 = Some st
     \<and> map_option (map unat \<circ> fst) (zipf_keys milli 5 st) = Some [2, 0, 1, 2, 0]"
proof -
  obtain st where st: "mehcached_zipf_init milli 3 (-1000) 77 = Some st"
    by (simp add: mehcached_zipf_init_def skewed_def round_robin_def milli_def Let_def)
  have "map (\<lambda>i. (unat (77 :: u64) + i) mod unat (3 :: u64)) [0..<5] = [2, 0, 1, 2, 0]" by (simp add: upt_rec)
  then show ?thesis
    using st zipf_round_robin_deals [OF st milli_skewed(3,4), of 5] by metis
qed

text \<open>
  A copy that is made with a new seed does not reduce it, so that its first key can lie outside
  the range.
\<close>

lemma zipf_copy_out_of_range:
  assumes "round_robin D (z_theta st)" "\<not> skewed D (z_theta st)" "seed < push_bit 48 1" "z_n st \<le> seed"
  shows "\<exists>st1 st2. mehcached_zipf_init_copy st seed = Some st1 \<and> mehcached_zipf_next D st1 = Some (seed, st2) \<and> \<not> seed < z_n st"
proof -
  have "zipf_update D (st\<lparr>z_rand_state := seed\<rparr>) = Some (st\<lparr>z_rand_state := seed\<rparr>)
      \<or> zipf_update D (st\<lparr>z_rand_state := seed\<rparr>) = Some (st\<lparr>z_rand_state := seed, z_last_n := z_n st, z_dbl_n := d_of_u64 D (z_n st)\<rparr>)"
    using assms(2) by (simp add: zipf_update_def)
  then show ?thesis
    using assms by (auto simp: mehcached_zipf_init_copy_def mehcached_zipf_next_def zipf_draw_def Let_def)
qed

text \<open>
  The random states have full period: from any seed below 2 ^ 48 the generator runs through
  all 2 ^ 48 states before one comes back.
\<close>

theorem zipf_rand_full_period:
  assumes "unat s < 2 ^ 48"
  shows "((\<lambda>s. snd (mehcached_rand_d D s)) ^^ i) s = ((\<lambda>s. snd (mehcached_rand_d D s)) ^^ j) s
     \<longleftrightarrow> i mod 2 ^ 48 = j mod 2 ^ 48"
proof -
  have "int (unat s) < int (2 ^ 48)" using assms by (simp only: of_nat_less_iff)
  then have s: "uint s < 2 ^ 48" by simp
  have f: "(\<lambda>s. snd (mehcached_rand_d D s)) = zipf_rand D" by (simp add: zipf_rand_def fun_eq_iff)
  have a: "(0x5deece66d :: int) mod 4 = 1" "odd (0xb :: int)" by simp_all
  note period = lcg_period [OF a, of i "uint s" 48 j]
  show ?thesis
    unfolding f word_uint_eq_iff uint_zipf_rand_funpow [OF s] using period by (simp only:)
qed

theorem zipf_rand_full_period_witness:
  "((\<lambda>s. snd (mehcached_rand_d milli s)) ^^ 1000000) 7 \<noteq> ((\<lambda>s. snd (mehcached_rand_d milli s)) ^^ 0) 7"
  using zipf_rand_full_period [of 7 1000000 milli 0] by (simp del: funpow.simps)

section \<open>The frequency test\<close>

text \<open>
  \<open>mehcached_test_zipf\<close>: for a \<open>theta\<close>, the frequency of key 0 that the definition predicts,
  with the library's \<open>pow\<close>, and for an admissible \<open>theta\<close> its frequency among ten million keys.
  The code has 10 ^ 6 keys and 10 ^ 7 samples; they are parameters here.
\<close>

definition zipf_sum :: "'d double_ops \<Rightarrow> ('d \<Rightarrow> 'd \<Rightarrow> 'd) \<Rightarrow> 'd \<Rightarrow> nat \<Rightarrow> 'd" where
  "zipf_sum D pw theta n =
     foldl (\<lambda>zetan i. d_add D zetan (d_div D (d_lit D 1 0) (pw (d_add D (d_of_u64 D (word_of_nat i)) (d_lit D 1 0)) theta)))
       (d_lit D 0 0) [0..<n]"

primrec count_key0 :: "nat \<Rightarrow> 'd double_ops \<Rightarrow> 'd zipf_gen_state \<Rightarrow> u64 \<Rightarrow> u64 option" where
  "count_key0 0 D st num_key0 = Some num_key0"
| "count_key0 (Suc k) D st num_key0 =
     Option.bind (mehcached_zipf_next D st) (\<lambda>(key, st). count_key0 k D st (if key = 0 then num_key0 + 1 else num_key0))"

definition mehcached_test_zipf ::
  "'d double_ops \<Rightarrow> ('d \<Rightarrow> 'd \<Rightarrow> 'd) \<Rightarrow> 'd \<Rightarrow> ('d \<times> 'd \<times> 'd option) option" where
  "mehcached_test_zipf D pw theta =
     (let n = 1000000; num_samples = 10000000; expected = d_div D (d_lit D 1 0) (zipf_sum D pw theta n) in
      if d_lt D theta (d_lit D 1 0) \<or> d_le D (d_lit D 40 0) theta
      then Option.bind (mehcached_zipf_init D (word_of_nat n) theta 0) (\<lambda>st.
             map_option (\<lambda>k. (theta, expected, Some (d_div D (d_of_u64 D k) (d_of_u64 D (word_of_nat num_samples)))))
               (count_key0 num_samples D st 0))
      else Some (theta, expected, None))"

text \<open>The count never exceeds the number of samples.\<close>

lemma count_key0_le:
  assumes "count_key0 k D st c = Some c'" "unat c + k < 2 ^ 64"
  shows "unat c \<le> unat c' \<and> unat c' \<le> unat c + k"
  using assms
proof (induction k arbitrary: st c)
  case (Suc k)
  then obtain key st' where n: "mehcached_zipf_next D st = Some (key, st')"
    and r: "count_key0 k D st' (if key = 0 then c + 1 else c) = Some c'" by (auto simp: bind_eq_Some_conv)
  have "unat (c + 1) = unat c + 1" using Suc.prems(2) by (simp add: unat_word_ariths)
  then show ?case using Suc.IH [OF r] Suc.prems(2) by (cases "key = 0") auto
qed simp

end
