(* ===== verification/Core_Binding.thy ===== *)
theory Core_Binding
  imports Rowan_Prelude
begin

text \<open>
  \<open>src/utility/System.cpp\<close>: the tables of cores, by socket, and the binding of threads to
  them in the order in which they ask. \<open>setaffinity\<close> stands for \<open>pthread_setaffinity_np\<close>.
\<close>

definition kLogicCoreCnt :: nat where "kLogicCoreCnt = 36"
definition kMaxSocketCnt :: nat where "kMaxSocketCnt = 2"

text \<open>A row that is shorter than the array is filled with zeros.\<close>

definition core_row :: "nat list \<Rightarrow> nat list" where
  "core_row xs = xs @ replicate (kLogicCoreCnt - length xs) 0"

definition core_table1 :: "nat list list" where
  "core_table1 = map core_row
     [[0, 1, 2, 3, 4, 5, 6, 7, 8, 9, 10, 11, 12, 13, 14, 15, 16, 17,
       36, 37, 38, 39, 40, 41, 42, 43, 44, 45, 46, 47, 48, 49, 50, 51, 52, 53],
      [18, 19, 20, 21, 22, 23, 24, 25, 26, 27, 28, 29, 30, 31, 32, 33, 34, 35,
       54, 55, 56, 57, 58, 59, 60, 61, 62, 63, 64, 65, 66, 67, 68, 69, 70, 71]]"

definition core_table2 :: "nat list list" where
  "core_table2 = map core_row
     [[0, 1, 2, 3, 4, 5, 6, 7, 8, 9, 10, 11,
       24, 25, 26, 27, 28, 29, 30, 31, 32, 33, 34, 35],
      [12, 13, 14, 15, 16, 17, 18, 19, 20, 21, 22, 23,
       36, 37, 38, 39, 40, 41, 42, 43, 44, 45, 46, 47]]"

text \<open>The flag tells whether the error message is printed.\<close>

definition bind_core :: "(nat set \<Rightarrow> 's \<Rightarrow> int \<times> 's) \<Rightarrow> u16 \<Rightarrow> 's \<Rightarrow> bool \<times> 's" where
  "bind_core setaffinity core s =
     (case setaffinity {unat core} s of (rc, s') \<Rightarrow> (rc \<noteq> 0, s'))"

text \<open>
  \<open>cur_id\<close> is the static counter; \<open>None\<close> is an index outside the row, or the deliberate write
  through a null pointer for an unknown configuration.
\<close>

definition auto_bind_core ::
  "(nat set \<Rightarrow> 's \<Rightarrow> int \<times> 's) \<Rightarrow> nat \<Rightarrow> int \<Rightarrow> nat \<times> 's \<Rightarrow> (nat \<times> 's) option" where
  "auto_bind_core setaffinity global_socket_id ServerConfig x =
     (case x of (cur_id, s) \<Rightarrow>
        if ServerConfig = 0 \<or> ServerConfig = 1
        then let table = (if ServerConfig = 0 then core_table1 else core_table2) in
          if global_socket_id < kMaxSocketCnt \<and> cur_id < kLogicCoreCnt
          then Some (cur_id + 1, snd (bind_core setaffinity (word_of_nat (table ! global_socket_id ! cur_id)) s))
          else None
        else None)"

fun auto_bind_cores ::
  "(nat set \<Rightarrow> 's \<Rightarrow> int \<times> 's) \<Rightarrow> nat \<Rightarrow> int \<Rightarrow> nat \<Rightarrow> nat \<times> 's \<Rightarrow> (nat \<times> 's) option" where
  "auto_bind_cores setaffinity sock cfg 0 x = Some x"
| "auto_bind_cores setaffinity sock cfg (Suc k) x =
     Option.bind (auto_bind_core setaffinity sock cfg x) (auto_bind_cores setaffinity sock cfg k)"

section \<open>Which cores are bound\<close>

text \<open>The cores are recorded in the order of the bindings.\<close>

definition log_affinity :: "nat set \<Rightarrow> nat set list \<Rightarrow> int \<times> nat set list" where
  "log_affinity cores s = (0, s @ [cores])"

definition core_of :: "int \<Rightarrow> nat \<Rightarrow> nat \<Rightarrow> nat" where
  "core_of cfg sock i = (if cfg = 0 then core_table1 else core_table2) ! sock ! i"

lemma rows:
  "sock < kMaxSocketCnt \<Longrightarrow> length (core_table1 ! sock) = kLogicCoreCnt \<and> length (core_table2 ! sock) = kLogicCoreCnt"
  by (auto simp: core_table1_def core_table2_def core_row_def kMaxSocketCnt_def kLogicCoreCnt_def less_Suc_eq numeral_2_eq_2)

lemma core_small:
  assumes "sock < kMaxSocketCnt" "i < kLogicCoreCnt"
  shows "core_of cfg sock i < 72"
proof -
  have "\<forall>x \<in> set (core_table1 ! sock). x < 72" "\<forall>x \<in> set (core_table2 ! sock). x < 72"
    using assms(1) by (auto simp: core_table1_def core_table2_def core_row_def kMaxSocketCnt_def kLogicCoreCnt_def less_Suc_eq numeral_2_eq_2)
  then show ?thesis using rows [OF assms(1)] assms(2) by (simp add: core_of_def)
qed

lemma auto_bind_cores_log:
  assumes "sock < kMaxSocketCnt" "cfg = 0 \<or> cfg = 1" "i + k \<le> kLogicCoreCnt"
  shows "auto_bind_cores log_affinity sock cfg k (i, s) = Some (i + k, s @ map (\<lambda>j. {core_of cfg sock j}) [i..<i + k])"
  using assms(3)
proof (induction k arbitrary: i s)
  case (Suc k)
  have "core_of cfg sock i < 72" using core_small [OF assms(1)] Suc.prems by simp
  then have "unat (word_of_nat (core_of cfg sock i) :: u16) = core_of cfg sock i"
    by (simp add: unsigned_of_nat take_bit_nat_eq_self)
  then have "auto_bind_core log_affinity sock cfg (i, s) = Some (Suc i, s @ [{core_of cfg sock i}])"
    using assms(1,2) Suc.prems by (auto simp: auto_bind_core_def bind_core_def log_affinity_def core_of_def)
  moreover have "[i..<i + Suc k] = i # [Suc i..<Suc i + k]" by (simp add: upt_conv_Cons del: upt_Suc)
  ultimately show ?case using Suc.IH [of "Suc i"] Suc.prems by (simp del: upt_Suc)
qed simp

text \<open>
  With the first table each of 36 threads of a socket has a core of its own, and no core
  belongs to both sockets. The second table has only 24 cores for each socket: the threads from
  the 25th on are all bound to core 0, also on the second socket.
\<close>

theorem cores_bound:
  assumes "sock < kMaxSocketCnt" and "k \<le> kLogicCoreCnt"
  shows "(\<exists>cs. auto_bind_cores log_affinity sock 0 k (0, []) = Some (k, map (\<lambda>c. {c}) cs) \<and> distinct cs \<and> length cs = k)
     \<and> (\<exists>cs. auto_bind_cores log_affinity sock 1 k (0, []) = Some (k, map (\<lambda>c. {c}) (cs @ replicate (k - 24) 0))
          \<and> distinct cs \<and> length cs = min k 24)"
proof -
  note run = auto_bind_cores_log [OF assms(1) _, of _ 0 k "[]", simplified, OF _ assms(2)]
  have m: "map (\<lambda>j. {core_of cfg sock j}) [0..<k] = map (\<lambda>c. {c}) (take k (map (core_of cfg sock) [0..<kLogicCoreCnt]))" for cfg
    using assms(2) by (simp add: take_map o_def min_absorb2)
  have t1: "map (core_of 0 sock) [0..<kLogicCoreCnt] = core_table1 ! sock"
    and t2: "map (core_of 1 sock) [0..<kLogicCoreCnt] = core_table2 ! sock"
    using rows [OF assms(1)] by (auto simp: core_of_def intro: nth_equalityI)
  have d: "distinct (core_table1 ! sock)" "\<exists>xs. core_table2 ! sock = xs @ replicate 12 0 \<and> distinct xs \<and> length xs = 24"
    using assms(1) by (auto simp: core_table1_def core_table2_def core_row_def kMaxSocketCnt_def kLogicCoreCnt_def less_Suc_eq numeral_2_eq_2)
  then obtain xs where xs: "core_table2 ! sock = xs @ replicate 12 0" "distinct xs" "length xs = 24" by blast
  have "auto_bind_cores log_affinity sock 0 k (0, []) = Some (k, map (\<lambda>c. {c}) (take k (core_table1 ! sock)))"
    using run [of 0] m [of 0] t1 by simp
  moreover have "auto_bind_cores log_affinity sock 1 k (0, []) = Some (k, map (\<lambda>c. {c}) (take k xs @ replicate (k - 24) 0))"
    using run [of 1] m [of 1] t2 xs assms(2) by (simp add: kLogicCoreCnt_def min_absorb1)
  moreover have "distinct (take k (core_table1 ! sock))" "length (take k (core_table1 ! sock)) = k"
    using d(1) rows [OF assms(1)] assms(2) by simp_all
  moreover have "distinct (take k xs)" "length (take k xs) = min k 24" using xs by simp_all
  ultimately show ?thesis by blast
qed

end
