(* ===== verification/Clock_Timer.thy ===== *)
theory Clock_Timer
  imports Complex_Main Rowan_Prelude
begin

text \<open>
  \<open>include/utility/Timer.h\<close>: time differences in nanoseconds on the real-time clock, and the
  spinning sleep. The clock is a function \<open>now\<close> on a state; its seconds and nanoseconds are
  64-bit numbers.
\<close>

record timespec =
  tv_sec :: u64
  tv_nsec :: u64

record Timer =
  t_s :: timespec
  t_e :: timespec
  t_loop :: u64
  t_ns :: u64

type_synonym 's clock = "'s \<Rightarrow> timespec \<times> 's"

definition timer_begin :: "'s clock \<Rightarrow> Timer \<Rightarrow> 's \<Rightarrow> Timer \<times> 's" where
  "timer_begin now t s = (case now s of (x, s') \<Rightarrow> (t\<lparr>t_s := x\<rparr>, s'))"

text \<open>The signed differences are converted to 64 unsigned bits; a division by zero is \<open>None\<close>.\<close>

definition timer_end :: "'s clock \<Rightarrow> u64 \<Rightarrow> Timer \<Rightarrow> 's \<Rightarrow> (u64 \<times> Timer \<times> 's) option" where
  "timer_end now loop t s =
     (case now s of (x, s') \<Rightarrow>
        let ns_all = (tv_sec x - tv_sec (t_s t)) * 1000000000 + (tv_nsec x - tv_nsec (t_s t))
        in if loop = 0 then None
           else Some (ns_all div loop, t\<lparr>t_loop := loop, t_e := x, t_ns := ns_all div loop\<rparr>, s'))"

definition get_time_ns :: "'s clock \<Rightarrow> 's \<Rightarrow> u64 \<times> 's" where
  "get_time_ns now s = (case now s of (t, s') \<Rightarrow> (tv_sec t * 1000000000 + tv_nsec t, s'))"

text \<open>The loop of \<open>sleep\<close>, which may not end.\<close>

partial_function (option) sleep_loop :: "'s clock \<Rightarrow> u64 \<Rightarrow> Timer \<Rightarrow> 's \<Rightarrow> 's option" where
  "sleep_loop now sleep_ns clock s =
     Option.bind (timer_end now 1 clock s) (\<lambda>(ns, clock, s).
       if ns \<ge> sleep_ns then Some s else sleep_loop now sleep_ns clock s)"

definition timer_sleep :: "'s clock \<Rightarrow> u64 \<Rightarrow> Timer \<Rightarrow> 's \<Rightarrow> 's option" where
  "timer_sleep now sleep_ns uninit s =
     (case timer_begin now uninit s of (clock, s) \<Rightarrow> sleep_loop now sleep_ns clock s)"

section \<open>Time as a number\<close>

text \<open>
  A clock that shows \<open>T k\<close> nanoseconds at its reading number \<open>k\<close>; the state is the number of
  readings.
\<close>

definition shown :: "nat \<Rightarrow> timespec" where
  "shown ns = \<lparr>tv_sec = word_of_nat (ns div 1000000000), tv_nsec = word_of_nat (ns mod 1000000000)\<rparr>"

definition clock_of :: "(nat \<Rightarrow> nat) \<Rightarrow> nat clock" where
  "clock_of T k = (shown (T k), k + 1)"

lemma shown_ns: "tv_sec (shown a) * 1000000000 + tv_nsec (shown a) = word_of_nat a"
proof -
  have "(word_of_nat (a div 1000000000) :: u64) * 1000000000 + word_of_nat (a mod 1000000000)
      = word_of_nat (a div 1000000000 * 1000000000 + a mod 1000000000)"
    by (simp only: of_nat_add of_nat_mult of_nat_numeral)
  then show ?thesis by (simp add: shown_def)
qed

lemma shown_difference:
  "(tv_sec (shown b) - tv_sec (shown a)) * 1000000000 + (tv_nsec (shown b) - tv_nsec (shown a)) = word_of_nat b - word_of_nat a"
  unfolding shown_ns [symmetric] by (simp add: algebra_simps)

lemma timer_end_clock:
  assumes "t_s t = shown a"
  shows "timer_end (clock_of T) loop t k =
     (let d = word_of_nat (T k) - word_of_nat a
      in if loop = 0 then None else Some (d div loop, t\<lparr>t_loop := loop, t_e := shown (T k), t_ns := d div loop\<rparr>, k + 1))"
  unfolding timer_end_def clock_of_def prod.case assms Let_def shown_difference ..

lemma unat_difference:
  "a \<le> b \<Longrightarrow> b - a < 2 ^ 64 \<Longrightarrow> unat (word_of_nat b - word_of_nat a :: u64) = b - a"
proof -
  assume "a \<le> b" "b - a < 2 ^ 64"
  then have "word_of_nat b - word_of_nat a = (word_of_nat (b - a) :: u64)" by (simp add: of_nat_diff)
  then show ?thesis using \<open>b - a < 2 ^ 64\<close> by (simp add: unsigned_of_nat take_bit_nat_eq_self)
qed

text \<open>
  On a clock that does not go back, a timer returns the elapsed time divided by the number of
  loops, whatever second boundaries lie between.
\<close>

theorem timer_measures:
  assumes "T j \<le> T k" "T k - T j < 2 ^ 64" "loop \<noteq> 0" "timer_begin (clock_of T) t j = (t1, s1)"
  shows "\<exists>t2. timer_end (clock_of T) loop t1 k = Some (word_of_nat ((T k - T j) div unat loop), t2, k + 1)"
proof -
  have t1: "t_s t1 = shown (T j)" using assms(4) by (auto simp: timer_begin_def clock_of_def)
  let ?q = "(word_of_nat (T k) - word_of_nat (T j)) div loop"
  have "unat ?q = (T k - T j) div unat loop" using unat_difference [OF assms(1,2)] by (simp add: unat_div)
  then have "?q = word_of_nat ((T k - T j) div unat loop)" by (metis of_nat_unat ucast_id)
  then show ?thesis using assms(3) by (simp add: timer_end_clock [OF t1] Let_def)
qed

lemma sleep_loop_spins:
  assumes "\<And>i. i < m \<Longrightarrow> word_of_nat (T (j + i)) - word_of_nat (T 0) < ns"
    and "ns \<le> word_of_nat (T (j + m)) - word_of_nat (T 0)" and "t_s t = shown (T 0)"
  shows "sleep_loop (clock_of T) ns t j = Some (j + m + 1)"
  using assms
proof (induction m arbitrary: j t)
  case 0
  then show ?case
    by (subst sleep_loop.simps) (simp add: timer_end_clock Let_def)
next
  case (Suc m)
  have "word_of_nat (T j) - word_of_nat (T 0) < ns" using Suc.prems(1) [of 0] by simp
  moreover have "sleep_loop (clock_of T) ns t' (Suc j) = Some (Suc j + m + 1)" if "t_s t' = shown (T 0)" for t'
    using that Suc.prems(2) Suc.prems(1) [of "Suc i" for i] by (intro Suc.IH) auto
  ultimately show ?case
    using Suc.prems(3) by (subst sleep_loop.simps) (simp add: timer_end_clock Let_def not_le)
qed

text \<open>
  \<open>sleep\<close> on a clock that does not go back returns right after the first reading that is at
  least \<open>ns\<close> later than the start.
\<close>

theorem sleep_returns_in_time:
  assumes "mono T" and "T m - T 0 < 2 ^ 64" and "unat ns \<le> T m - T 0" and "0 < m" and "\<forall>i. 0 < i \<and> i < m \<longrightarrow> T i - T 0 < unat ns"
  shows "timer_sleep (clock_of T) ns t 0 = Some (m + 1)"
proof -
  have d: "unat (word_of_nat (T i) - word_of_nat (T 0) :: u64) = T i - T 0" if "i \<le> m" for i
    using that monoD [OF assms(1), of 0 i] monoD [OF assms(1) that] assms(2) by (intro unat_difference) auto
  have "sleep_loop (clock_of T) ns (t\<lparr>t_s := shown (T 0)\<rparr>) 1 = Some (1 + (m - 1) + 1)"
    by (rule sleep_loop_spins) (use d assms in \<open>auto simp: word_less_nat_alt word_le_nat_alt\<close>)
  then show ?thesis using assms(4) by (simp add: timer_sleep_def timer_begin_def clock_of_def)
qed

text \<open>A clock that is set back makes the difference wrap: the sleep ends at once.\<close>

theorem sleep_ends_when_clock_set_back:
  assumes "T 1 < T 0" and "T 0 - T 1 < 2 ^ 63" and "unat ns < 2 ^ 63"
  shows "timer_sleep (clock_of T) ns t 0 = Some 2"
proof -
  define d where "d = T 0 - T 1"
  have T0: "T 0 = T 1 + d" and d: "0 < d" "d < 2 ^ 63" using assms(1,2) by (simp_all add: d_def)
  have "(word_of_nat (2 ^ 64 - d) :: u64) = word_of_nat (2 ^ 64) - word_of_nat d" using d by (intro of_nat_diff) simp
  also have "(word_of_nat (2 ^ 64) :: u64) = 0" by simp
  finally have "word_of_nat (T 1) - word_of_nat (T 0) = (word_of_nat (2 ^ 64 - d) :: u64)" unfolding T0 by simp
  moreover have "unat (word_of_nat (2 ^ 64 - d) :: u64) = 2 ^ 64 - d"
    using d by (simp add: unsigned_of_nat take_bit_nat_eq_self del: of_nat_diff)
  ultimately have "ns \<le> word_of_nat (T 1) - word_of_nat (T 0)" using assms(3) d by (simp add: word_le_nat_alt del: of_nat_diff)
  then have "sleep_loop (clock_of T) ns (t\<lparr>t_s := shown (T 0)\<rparr>) 1 = Some (1 + 0 + 1)" by (intro sleep_loop_spins) simp_all
  then show ?thesis by (simp add: timer_sleep_def timer_begin_def clock_of_def)
qed

section \<open>Printing\<close>

text \<open>The line that \<open>print\<close> writes: nanoseconds below a thousand, else microseconds.\<close>

datatype per_loop = Ns_per_loop u64 | Us_per_loop rat

definition timer_print :: "Timer \<Rightarrow> per_loop" where
  "timer_print t = (if t_ns t < 1000 then Ns_per_loop (t_ns t) else Us_per_loop (of_nat (unat (t_ns t)) / 1000))"

definition end_print :: "'s clock \<Rightarrow> u64 \<Rightarrow> Timer \<Rightarrow> 's \<Rightarrow> (per_loop \<times> Timer \<times> 's) option" where
  "end_print now loop t s = map_option (\<lambda>(_, t, s). (timer_print t, t, s)) (timer_end now loop t s)"

text \<open>The unit is chosen by the measured time, so what is printed is that time.\<close>

lemma end_print_time:
  assumes "end_print now loop t s = Some (l, t', s')"
  shows "(case l of Ns_per_loop n \<Rightarrow> of_nat (unat n) | Us_per_loop us \<Rightarrow> us * 1000) = (of_nat (unat (t_ns t')) :: rat)"
  using assms by (auto simp: end_print_def timer_print_def split: prod.splits)

end
