(* ===== verification/Debug_Output.thy ===== *)
theory Debug_Output
  imports Main
begin

text \<open>
  \<open>src/utility/Debug.cpp\<close>: coloured messages. The format is first copied between two escape
  sequences into an array of 255 characters, without a check, and then printed with its
  arguments. \<open>None\<close> is a copy behind the end of that array. Printing itself (\<open>vprintf\<close> with its
  arguments) and the clock are parameters.
\<close>

definition MAX_FORMAT_LEN :: nat where "MAX_FORMAT_LEN = 255"
definition TITLE :: bool where "TITLE = False"
definition TIMER :: bool where "TIMER = False"
definition CUR :: bool where "CUR = False"
definition DEBUG_ON :: bool where "DEBUG_ON = True"

definition ESC :: char where "ESC = CHR 0x1B"
definition LF :: string where "LF = [CHR 0x0A]"

text \<open>\<open>sprintf\<close> into an array of \<open>MAX_FORMAT_LEN\<close> characters, with the closing zero.\<close>

definition sprintf_format :: "string \<Rightarrow> string \<Rightarrow> string \<Rightarrow> string option" where
  "sprintf_format before fmt after =
     (if length (before @ fmt @ after) + 1 \<le> MAX_FORMAT_LEN then Some (before @ fmt @ after) else None)"

definition style_end :: string where "style_end = ESC # ''[0m'' @ LF"

definition debugTitle :: "(string \<Rightarrow> 's \<Rightarrow> 's) \<Rightarrow> string \<Rightarrow> 's \<Rightarrow> 's" where
  "debugTitle print str s = (if TITLE then print (ESC # ''[0;45;1m'' @ str @ style_end) s else s)"

definition debugItem :: "(string \<Rightarrow> 'a \<Rightarrow> 's \<Rightarrow> 's) \<Rightarrow> string \<Rightarrow> 'a \<Rightarrow> 's \<Rightarrow> 's option" where
  "debugItem vprintf fmt args s =
     (if DEBUG_ON
      then map_option (\<lambda>newFormat. vprintf newFormat args s) (sprintf_format (ESC # ''[0;42;1m'') fmt style_end)
      else Some s)"

definition debugCur :: "(string \<Rightarrow> 'a \<Rightarrow> 's \<Rightarrow> 's) \<Rightarrow> string \<Rightarrow> 'a \<Rightarrow> 's \<Rightarrow> 's option" where
  "debugCur vprintf fmt args s =
     (if CUR then map_option (\<lambda>newFormat. vprintf newFormat args s) (sprintf_format [] fmt LF) else Some s)"

definition notifyInfo :: "(string \<Rightarrow> 'a \<Rightarrow> 's \<Rightarrow> 's) \<Rightarrow> string \<Rightarrow> 'a \<Rightarrow> 's \<Rightarrow> 's option" where
  "notifyInfo vprintf fmt args s =
     map_option (\<lambda>newFormat. vprintf newFormat args s) (sprintf_format (ESC # ''[4m'') fmt style_end)"

definition notifyError :: "(string \<Rightarrow> 'a \<Rightarrow> 's \<Rightarrow> 's) \<Rightarrow> string \<Rightarrow> 'a \<Rightarrow> 's \<Rightarrow> 's option" where
  "notifyError vprintf fmt args s =
     map_option (\<lambda>newFormat. vprintf newFormat args s) (sprintf_format (ESC # ''[0;31m'') fmt style_end)"

text \<open>\<open>gettimeofday\<close> gives seconds and microseconds; the start time is a static variable.\<close>

definition startTimer :: "('s \<Rightarrow> (int \<times> int) \<times> 's) \<Rightarrow> int \<times> 's \<Rightarrow> int \<times> 's" where
  "startTimer gettimeofday x =
     (case x of (startTime, s) \<Rightarrow> (case gettimeofday s of ((sec, usec), s) \<Rightarrow>
        (if TIMER then sec * 1000 * 1000 + usec else startTime, s)))"

definition endTimer :: "('s \<Rightarrow> (int \<times> int) \<times> 's) \<Rightarrow> (int \<Rightarrow> 's \<Rightarrow> 's) \<Rightarrow> int \<times> 's \<Rightarrow> int \<times> 's" where
  "endTimer gettimeofday print_cost x =
     (case x of (startTime, s) \<Rightarrow> (case gettimeofday s of ((sec, usec), s) \<Rightarrow>
        (startTime, if TIMER then print_cost (sec * 1000 * 1000 + usec - startTime) s else s)))"

section \<open>When the array is large enough\<close>

lemma sprintf_format_None: "sprintf_format p fmt q = None \<longleftrightarrow> 254 < length p + length fmt + length q"
  by (auto simp: sprintf_format_def MAX_FORMAT_LEN_def)

text \<open>
  The array overflows from 241 characters of format on for items, 246 for notices and 243 for
  errors, although the comment allows 254; the disabled functions do nothing.
\<close>

theorem format_limits:
  "(debugItem vp fmt args s = None \<longleftrightarrow> 240 < length fmt)
   \<and> (notifyInfo vp fmt args s = None \<longleftrightarrow> 245 < length fmt)
   \<and> (notifyError vp fmt args s = None \<longleftrightarrow> 242 < length fmt)
   \<and> debugCur vp fmt args s = Some s \<and> debugTitle pr str s = s"
  by (auto simp: debugItem_def notifyInfo_def notifyError_def debugCur_def debugTitle_def sprintf_format_None
      style_end_def LF_def DEBUG_ON_def CUR_def TITLE_def)

text \<open>What is printed is the caller's format between the two sequences.\<close>

theorem notice_is_wrapped:
  "length fmt \<le> 242 \<Longrightarrow>
     notifyError vp fmt args s = Some (vp (ESC # ''[0;31m'' @ fmt @ ESC # ''[0m'' @ LF) args s)
   \<and> notifyInfo vp fmt args s = Some (vp (ESC # ''[4m'' @ fmt @ ESC # ''[0m'' @ LF) args s)"
  by (simp add: notifyInfo_def notifyError_def sprintf_format_def style_end_def LF_def MAX_FORMAT_LEN_def)

end
