(* ===== verification/Rpc_Actors.thy ===== *)
theory Rpc_Actors
  imports Rowan_Prelude "HOL-Library.Multiset"
begin

text \<open>
  What \<open>test/rpc_test.cpp\<close> promises, without buffers: threads, named by node and thread number,
  exchange messages that say who sent them. The threads of node 0 call thread 0 of node 1 and
  wait for the answer; every other thread waits for a request and answers its sender. A thread
  first registers and passes a barrier. It has messages waiting to leave and messages waiting to
  be taken; the network delivers in any order, or loses a message.
\<close>

type_synonym thread_name = "nat \<times> nat"

datatype 'm rpc_stage = Starting | AtBarrier | AtLoop | AwaitReply | ShowReply 'm | ShowRequest 'm | SendReply 'm

record rpc_actor =
  a_stage :: "thread_name rpc_stage"
  a_out :: "(thread_name \<times> thread_name) list"
  a_in :: "thread_name list"
  a_said :: "thread_name list"

text \<open>The threads, the messages under way and those lost, as pairs of receiver and sender.\<close>

type_synonym actors = "(thread_name \<Rightarrow> rpc_actor) \<times> (thread_name \<times> thread_name) multiset \<times> (thread_name \<times> thread_name) multiset"

definition known :: "nat \<Rightarrow> nat \<Rightarrow> thread_name \<Rightarrow> bool" where
  "known N T i \<longleftrightarrow> fst i < N \<and> snd i < T"

definition server :: thread_name where "server = (1, 0)"

lemma fst_server [simp]: "fst server = 1" by (simp add: server_def)

inductive actor_step :: "nat \<Rightarrow> nat \<Rightarrow> actors \<Rightarrow> actors \<Rightarrow> bool" for N T where
  register: "known N T i \<Longrightarrow> a_stage (A i) = Starting \<Longrightarrow>
     actor_step N T (A, M, L) (A(i := (A i)\<lparr>a_stage := AtBarrier\<rparr>), M, L)"
| pass: "known N T i \<Longrightarrow> a_stage (A i) = AtBarrier \<Longrightarrow>
     actor_step N T (A, M, L) (A(i := (A i)\<lparr>a_stage := AtLoop\<rparr>), M, L)"
| call: "known N T i \<Longrightarrow> fst i = 0 \<Longrightarrow> a_stage (A i) = AtLoop \<Longrightarrow>
     actor_step N T (A, M, L) (A(i := (A i)\<lparr>a_stage := AwaitReply, a_out := a_out (A i) @ [(server, i)]\<rparr>), M, L)"
| take_request: "known N T i \<Longrightarrow> fst i \<noteq> 0 \<Longrightarrow> a_stage (A i) = AtLoop \<Longrightarrow> a_in (A i) = x # xs \<Longrightarrow>
     actor_step N T (A, M, L) (A(i := (A i)\<lparr>a_stage := ShowRequest x, a_in := xs\<rparr>), M, L)"
| take_reply: "known N T i \<Longrightarrow> a_stage (A i) = AwaitReply \<Longrightarrow> a_in (A i) = x # xs \<Longrightarrow>
     actor_step N T (A, M, L) (A(i := (A i)\<lparr>a_stage := ShowReply x, a_in := xs\<rparr>), M, L)"
| show_reply: "known N T i \<Longrightarrow> a_stage (A i) = ShowReply x \<Longrightarrow>
     actor_step N T (A, M, L) (A(i := (A i)\<lparr>a_stage := AtLoop, a_said := a_said (A i) @ [x]\<rparr>), M, L)"
| show_request: "known N T i \<Longrightarrow> a_stage (A i) = ShowRequest x \<Longrightarrow>
     actor_step N T (A, M, L) (A(i := (A i)\<lparr>a_stage := SendReply x, a_said := a_said (A i) @ [x]\<rparr>), M, L)"
| answer: "known N T i \<Longrightarrow> a_stage (A i) = SendReply x \<Longrightarrow>
     actor_step N T (A, M, L) (A(i := (A i)\<lparr>a_stage := AtLoop, a_out := a_out (A i) @ [(x, i)]\<rparr>), M, L)"
| leave: "known N T i \<Longrightarrow> a_out (A i) = p # ps \<Longrightarrow>
     actor_step N T (A, M, L) (A(i := (A i)\<lparr>a_out := ps\<rparr>), M + {#p#}, L)"
| arrive: "known N T j \<Longrightarrow> (j, x) \<in># M \<Longrightarrow>
     actor_step N T (A, M, L) (A(j := (A j)\<lparr>a_in := a_in (A j) @ [x]\<rparr>), M - {#(j, x)#}, L)"
| lose: "p \<in># M \<Longrightarrow> actor_step N T (A, M, L) (A, M - {#p#}, L + {#p#})"

text \<open>The move of a thread as a function; it has none while it waits for a message.\<close>

definition actor_move :: "thread_name \<Rightarrow> rpc_actor \<Rightarrow> rpc_actor option" where
  "actor_move i a =
     (case a_stage a of
        Starting \<Rightarrow> Some (a\<lparr>a_stage := AtBarrier\<rparr>)
      | AtBarrier \<Rightarrow> Some (a\<lparr>a_stage := AtLoop\<rparr>)
      | AtLoop \<Rightarrow>
          if fst i = 0 then Some (a\<lparr>a_stage := AwaitReply, a_out := a_out a @ [(server, i)]\<rparr>)
          else (case a_in a of [] \<Rightarrow> None | x # xs \<Rightarrow> Some (a\<lparr>a_stage := ShowRequest x, a_in := xs\<rparr>))
      | AwaitReply \<Rightarrow> (case a_in a of [] \<Rightarrow> None | x # xs \<Rightarrow> Some (a\<lparr>a_stage := ShowReply x, a_in := xs\<rparr>))
      | ShowReply x \<Rightarrow> Some (a\<lparr>a_stage := AtLoop, a_said := a_said a @ [x]\<rparr>)
      | ShowRequest x \<Rightarrow> Some (a\<lparr>a_stage := SendReply x, a_said := a_said a @ [x]\<rparr>)
      | SendReply x \<Rightarrow> Some (a\<lparr>a_stage := AtLoop, a_out := a_out a @ [(x, i)]\<rparr>))"

lemma actor_move_step:
  assumes "known N T i" "actor_move i (A i) = Some a"
  shows "actor_step N T (A, M, L) (A(i := a), M, L)"
  using assms actor_step.intros(1-8) [of N T i A]
  by (auto simp: actor_move_def split: rpc_stage.splits list.splits if_splits)

definition actor_start :: "actors \<Rightarrow> bool" where
  "actor_start x \<longleftrightarrow> (case x of (A, M, L) \<Rightarrow> M = {#} \<and> L = {#}
     \<and> (\<forall>i. A i = \<lparr>a_stage = Starting, a_out = [], a_in = [], a_said = []\<rparr>))"

section \<open>Who talks to whom\<close>

definition caller :: "nat \<Rightarrow> thread_name \<Rightarrow> bool" where
  "caller T i \<longleftrightarrow> fst i = 0 \<and> snd i < T"

definition caller_ok :: "thread_name \<Rightarrow> rpc_actor \<Rightarrow> bool" where
  "caller_ok i a \<longleftrightarrow> a_stage a \<in> {Starting, AtBarrier, AtLoop, AwaitReply, ShowReply server} \<and> set (a_out a) \<subseteq> {(server, i)}
     \<and> set (a_in a) \<subseteq> {server} \<and> set (a_said a) \<subseteq> {server}"

definition server_ok :: "nat \<Rightarrow> rpc_actor \<Rightarrow> bool" where
  "server_ok T a \<longleftrightarrow>
     (case a_stage a of Starting \<Rightarrow> True | AtBarrier \<Rightarrow> True | AtLoop \<Rightarrow> True | ShowRequest x \<Rightarrow> caller T x | SendReply x \<Rightarrow> caller T x | _ \<Rightarrow> False)
     \<and> (\<forall>p \<in> set (a_out a). caller T (fst p) \<and> snd p = server)
     \<and> (\<forall>x \<in> set (a_in a) \<union> set (a_said a). caller T x)"

definition idle :: "rpc_actor \<Rightarrow> bool" where
  "idle a \<longleftrightarrow> a_stage a \<in> {Starting, AtBarrier, AtLoop} \<and> a_out a = [] \<and> a_in a = [] \<and> a_said a = []"

definition role_ok :: "nat \<Rightarrow> thread_name \<Rightarrow> rpc_actor \<Rightarrow> bool" where
  "role_ok T i a \<longleftrightarrow> (if caller T i then caller_ok i a else if i = server then server_ok T a else idle a)"

definition in_flight_ok :: "nat \<Rightarrow> thread_name \<times> thread_name \<Rightarrow> bool" where
  "in_flight_ok T p \<longleftrightarrow> fst p = server \<and> caller T (snd p) \<or> caller T (fst p) \<and> snd p = server"

definition roles :: "nat \<Rightarrow> actors \<Rightarrow> bool" where
  "roles T x \<longleftrightarrow> (\<forall>i. role_ok T i (fst x i)) \<and> (\<forall>p. p \<in># fst (snd x) + snd (snd x) \<longrightarrow> in_flight_ok T p)"

lemmas role_defs = role_ok_def caller_ok_def server_ok_def idle_def in_flight_ok_def caller_def

text \<open>
  Where the one message of caller \<open>i\<close> is: on the way to the server, or on the way back; a message
  that is lost stays where it was lost.
\<close>

definition asking :: "actors \<Rightarrow> thread_name \<Rightarrow> nat" where
  "asking x i = (case x of (A, M, L) \<Rightarrow>
     length (a_out (A i)) + count M (server, i) + count L (server, i) + count_list (a_in (A server)) i
     + (if a_stage (A server) = ShowRequest i then 1 else 0))"

definition answering :: "actors \<Rightarrow> thread_name \<Rightarrow> nat" where
  "answering x i = (case x of (A, M, L) \<Rightarrow>
     (if a_stage (A server) = SendReply i then 1 else 0)
     + count_list (a_out (A server)) (i, server) + count M (i, server) + count L (i, server) + length (a_in (A i))
     + (if a_stage (A i) = ShowReply server then 1 else 0))"

fun open_calls :: "'m rpc_stage \<Rightarrow> nat" where
  "open_calls Starting = 0"
| "open_calls AtBarrier = 0"
| "open_calls AtLoop = 0"
| "open_calls _ = 1"

lemma open_calls_le: "open_calls st \<le> 1"
  by (cases st) simp_all

definition one_message :: "actors \<Rightarrow> thread_name \<Rightarrow> bool" where
  "one_message x i \<longleftrightarrow> asking x i + answering x i = open_calls (a_stage (fst x i))
     \<and> count_list (a_said (fst x server)) i = length (a_said (fst x i)) + answering x i"

definition actor_inv :: "nat \<Rightarrow> actors \<Rightarrow> bool" where
  "actor_inv T x \<longleftrightarrow> roles T x \<and> (\<forall>i. caller T i \<longrightarrow> one_message x i)"

lemma roles_upd:
  assumes "roles T (A, M, L)" "role_ok T i a" "\<And>p. p \<in># M' \<Longrightarrow> p \<in># M \<or> in_flight_ok T p"
  shows "roles T (A(i := a), M', L)"
  using assms unfolding roles_def by (metis (no_types, lifting) fst_conv fun_upd_apply snd_conv union_iff)

lemma roles_step:
  assumes "actor_step N T x y" "roles T x"
  shows "roles T y"
proof -
  have ok: "role_ok T i (A i)" if "roles T (A, M, L)" for A M L i
    using that unfolding roles_def by (metis fst_conv)
  show ?thesis
    using assms
  proof (induction rule: actor_step.induct)
    case (register i A M L)
    then show ?case using ok [of A M L i] by (intro roles_upd) (auto simp: role_defs split: if_splits)
  next
    case (pass i A M L)
    then show ?case using ok [of A M L i] by (intro roles_upd) (auto simp: role_defs split: if_splits)
  next
    case (call i A M L)
    then show ?case using ok [of A M L i] by (intro roles_upd) (auto simp: role_defs known_def)
  next
    case (take_request i A x xs M L)
    then show ?case using ok [of A M L i] by (intro roles_upd) (auto simp: role_defs split: if_splits)
  next
    case (take_reply i A x xs M L)
    then show ?case using ok [of A M L i] by (intro roles_upd) (auto simp: role_defs split: if_splits)
  next
    case (show_reply i A x M L)
    then show ?case using ok [of A M L i] by (intro roles_upd) (auto simp: role_defs split: if_splits)
  next
    case (show_request i A x M L)
    then show ?case using ok [of A M L i] by (intro roles_upd) (auto simp: role_defs split: if_splits)
  next
    case (answer i A x M L)
    then show ?case using ok [of A M L i] by (intro roles_upd) (auto simp: role_defs split: if_splits)
  next
    case (leave i A p ps M L)
    then have "in_flight_ok T p" using ok [of A M L i] by (cases p) (auto simp: role_defs known_def split: if_splits)
    then show ?case using leave ok [of A M L i] by (intro roles_upd) (auto simp: role_defs split: if_splits)
  next
    case (arrive j x M A L)
    then have "in_flight_ok T (j, x)" unfolding roles_def by (metis fst_conv snd_conv union_iff)
    then show ?case using arrive ok [of A M L j] by (intro roles_upd) (auto simp: role_defs dest: in_diffD split: if_splits)
  next
    case (lose p M A L)
    then show ?case unfolding roles_def by (auto dest: in_diffD)
  qed
qed

section \<open>One message for each caller\<close>

lemma role_at: "roles T (A, M, L) \<Longrightarrow> role_ok T i (A i)"
  unfolding roles_def by (metis fst_conv)

lemma role_in_flight: "roles T (A, M, L) \<Longrightarrow> p \<in># M \<Longrightarrow> in_flight_ok T p"
  unfolding roles_def by (metis fst_conv snd_conv union_iff)

lemma one_message_step:
  assumes "actor_step N T x y" "roles T x" "caller T j" "one_message x j"
  shows "one_message y j"
proof -
  have j: "j \<noteq> server" "fst j = 0" using assms(3) by (auto simp: caller_def)
  note defs = one_message_def asking_def answering_def
  show ?thesis
    using assms(1,2,4)
  proof (induction rule: actor_step.induct)
    case (register i A M L)
    then show ?case using j by (auto simp: defs)
  next
    case (pass i A M L)
    then show ?case using j by (auto simp: defs)
  next
    case (call i A M L)
    have "i \<noteq> server" using call(2) by auto
    then show ?case using call j by (auto simp: defs)
  next
    case (take_request i A x xs M L)
    then have "i = server" using role_at [OF take_request(5), of i] by (auto simp: role_defs split: if_splits)
    then show ?case using take_request j by (auto simp: defs)
  next
    case (take_reply i A x xs M L)
    then have "i \<noteq> server" "x = server" using role_at [OF take_reply(4), of i] by (auto simp: role_defs split: if_splits)
    then show ?case using take_reply j by (auto simp: defs)
  next
    case (show_reply i A x M L)
    then have "i \<noteq> server" "x = server" using role_at [OF show_reply(3), of i] by (auto simp: role_defs split: if_splits)
    then show ?case using show_reply j by (auto simp: defs)
  next
    case (show_request i A x M L)
    then have "i = server" using role_at [OF show_request(3), of i] by (auto simp: role_defs split: if_splits)
    then show ?case using show_request j by (auto simp: defs)
  next
    case (answer i A x M L)
    then have "i = server" using role_at [OF answer(3), of i] by (auto simp: role_defs split: if_splits)
    then show ?case using answer j by (auto simp: defs)
  next
    case (leave i A p ps M L)
    note r = role_at [OF leave(3), of i]
    show ?case
    proof (cases "i = server")
      case True
      then have "snd p = server" using r leave(2) by (auto simp: role_defs)
      then show ?thesis using True leave j by (cases p) (auto simp: defs split: if_splits)
    next
      case False
      then have "p = (server, i)" using r leave(2) by (auto simp: role_defs split: if_splits)
      then show ?thesis using False leave j by (auto simp: defs split: if_splits)
    qed
  next
    case (arrive i x M A L)
    have "in_flight_ok T (i, x)" by (rule role_in_flight [OF arrive(3,2)])
    then have f: "i = server \<and> caller T x \<or> caller T i \<and> x = server" by (auto simp: in_flight_ok_def)
    have pos: "0 < count M (i, x)" using arrive(2) by simp
    show ?case
    proof (cases "i = server")
      case True
      then have "x \<noteq> server" using f by (auto simp: caller_def)
      moreover obtain k where "count M (i, x) = Suc k" using pos gr0_implies_Suc by blast
      ultimately show ?thesis using True arrive(4) j
        by (cases "x = j") (simp_all add: defs del: split_paired_All)
    next
      case False
      then have "x = server" "caller T i" using f by simp_all
      moreover obtain k where "count M (i, x) = Suc k" using pos gr0_implies_Suc by blast
      ultimately show ?thesis using False arrive(4) j by (cases "i = j") (simp_all add: defs)
    qed
  next
    case (lose p M A L)
    have move: "count (M - {#p#}) q + count (L + {#p#}) q = count M q + count L q" for q
      using lose(1) by (cases "q = p") (simp_all add: not_in_iff flip: count_greater_zero_iff)
    have "asking (A, M - {#p#}, L + {#p#}) j = asking (A, M, L) j"
      "answering (A, M - {#p#}, L + {#p#}) j = answering (A, M, L) j"
      using move [of "(server, j)"] move [of "(j, server)"] by (simp_all only: asking_def answering_def prod.case)
    then show ?case using lose(3) by (simp only: one_message_def fst_conv)
  qed
qed

interpretation actor_sys: invariant_system actor_start "actor_step N T" "actor_inv T" for N T
proof unfold_locales
  fix x assume "actor_start x"
  then obtain A where x: "x = (A, {#}, {#})"
    and A: "\<And>i. A i = \<lparr>a_stage = Starting, a_out = [], a_in = [], a_said = []\<rparr>"
    by (cases x) (simp add: actor_start_def del: split_paired_All)
  have "role_ok T i (A i)" for i by (simp add: role_defs A)
  moreover have "one_message x i" for i by (simp add: x A one_message_def asking_def answering_def)
  ultimately show "actor_inv T x" unfolding actor_inv_def roles_def by (simp add: x)
next
  fix x y assume "actor_step N T x y" "actor_inv T x"
  then show "actor_inv T y"
    unfolding actor_inv_def using roles_step one_message_step by blast
qed

text \<open>So few messages wait at a thread at any time.\<close>

lemma actor_inbox_small:
  assumes "actor_inv T (A, M, L)" "0 < T"
  shows "length (a_in (A i)) \<le> T"
proof -
  from assms have r: "roles T (A, M, L)" and one: "\<And>j. caller T j \<Longrightarrow> one_message (A, M, L) j"
    unfolding actor_inv_def by blast+
  note ri = role_at [OF r, of i]
  consider "i = server" | "caller T i" | "a_in (A i) = []"
    using ri by (auto simp: role_defs split: if_splits)
  then show ?thesis
  proof cases
    case 1
    have fin: "{j. caller T j} = (\<lambda>k. (0, k)) ` {..<T}" by (auto simp: caller_def)
    have "set (a_in (A server)) \<subseteq> {j. caller T j}" using ri 1 by (auto simp: role_defs)
    then have "length (a_in (A server)) = (\<Sum>j | caller T j. count_list (a_in (A server)) j)"
      by (subst sum_count_set) (simp_all add: fin)
    also have "\<dots> \<le> (\<Sum>j | caller T j. 1)"
    proof (rule sum_mono)
      fix j assume "j \<in> {j. caller T j}"
      then show "count_list (a_in (A server)) j \<le> 1"
        using one [of j] open_calls_le [of "a_stage (A j)"] by (simp add: one_message_def asking_def)
    qed
    also have "\<dots> = T" by (simp add: fin card_image inj_on_def)
    finally show ?thesis using 1 by simp
  next
    case 2
    then show ?thesis using one [of i] open_calls_le [of "a_stage (A i)"] assms(2) by (simp add: one_message_def answering_def)
  qed simp
qed

text \<open>
  What can move without a loss: the network, a waiting message, or a thread. When nothing can,
  every caller has lost a message.
\<close>

lemma actor_stuck:
  assumes inv: "actor_inv T (A, M, L)" and "0 < T" "2 \<le> N" and M: "M = {#}"
    and stuck: "\<And>i. known N T i \<Longrightarrow> a_out (A i) = [] \<and> actor_move i (A i) = None"
  shows "T \<le> size L"
proof -
  have "0 < count L (server, i) + count L (i, server)" if i: "caller T i" for i
  proof -
    have k: "known N T i" "known N T server" "fst i = 0" using i assms(2,3) by (auto simp: caller_def known_def server_def)
    have one: "one_message (A, M, L) i" using inv i unfolding actor_inv_def by blast
    have ci: "a_stage (A i) = AwaitReply" "a_in (A i) = []" "a_out (A i) = []"
      using stuck [OF k(1)] k(3) by (auto simp: actor_move_def split: rpc_stage.splits list.splits if_splits)
    have cs: "a_stage (A server) = AwaitReply \<or> a_stage (A server) = AtLoop" "a_in (A server) = []" "a_out (A server) = []"
      using stuck [OF k(2)] by (auto simp: actor_move_def split: rpc_stage.splits list.splits if_splits)
    have "count L (server, i) + count L (i, server) = 1" using one ci cs
      by (auto simp: one_message_def asking_def answering_def M)
    then show ?thesis by linarith
  qed
  then have each: "\<exists>p. p \<in># L \<and> (p = (server, i) \<or> p = (i, server))" if "caller T i" for i
    using that by (metis add_gr_0 count_greater_zero_iff)
  define f where "f k = (SOME p. p \<in># L \<and> (p = (server, (0, k)) \<or> p = ((0, k), server)))" for k
  have f: "f k \<in># L \<and> (f k = (server, (0, k)) \<or> f k = ((0, k), server))" if "k < T" for k
    unfolding f_def by (rule someI_ex) (use each [of "(0, k)"] that in \<open>simp add: caller_def\<close>)
  have "inj_on f {..<T}"
  proof (rule inj_onI)
    fix j k assume "j \<in> {..<T}" "k \<in> {..<T}" "f j = f k"
    then show "j = k" using f [of j] f [of k] by (auto simp: server_def)
  qed
  then have "T = card (f ` {..<T})" by (simp add: card_image)
  also have "\<dots> \<le> card (set_mset L)" by (intro card_mono) (use f in auto)
  also have "\<dots> \<le> size L"
    unfolding size_multiset_overloaded_eq card_eq_sum by (rule sum_mono) (simp add: Suc_le_eq)
  finally show ?thesis .
qed

end
