(* ===== verification/Rpc_Test.thy ===== *)
theory Rpc_Test
  imports Message_Port Rpc_Actors
begin

text \<open>
  \<open>test/rpc_test.cpp\<close>: the threads of node 0 call thread 0 of node 1 in a loop and print who
  answers; the threads of the other nodes wait for a call, print who called, and answer. Each
  thread has its connection and its card; the network between the cards is unreliable: it
  delivers datagrams in any order and may lose any of them.
\<close>

section \<open>The program\<close>

text \<open>
  A thread: where it is in the program (with the address \<open>mm\<close> of the message it has received), its
  thread-local variables, its card, and the node and thread numbers it has printed.
\<close>

record rpc_thread =
  stage :: "u64 rpc_stage"
  tls :: dsm_thread
  ucard :: ud_card
  printed :: "(u8 \<times> u8) list"

text \<open>
  \<open>ud_rpc_call\<close> without extra data: the message is built in the send buffer, from the bytes
  that are there, and posted.
\<close>

definition test_call :: "ibv_wc \<Rightarrow> RpcMessage \<Rightarrow> u16 \<Rightarrow> u16 \<Rightarrow> dsm \<Rightarrow> rpc_thread \<Rightarrow> (dsm \<times> ud_card) option" where
  "test_call wc m nid tid d rt =
     Option.bind (iCon d (tls rt)) (\<lambda>tc.
       let buffer = fst (getSendPool (message tc)) in
       map_option (\<lambda>(b, d, s). (d, s\<lparr>umem := store_bytes (umem s) buffer (bytes_of_rpc b)\<rparr>))
         (ud_rpc_call ud_post_send ud_poll_send wc d (tls rt) m nid tid Slice_Void
            (load_bytes (umem (ucard rt)) buffer MESSAGE_SIZE) (ucard rt)))"

text \<open>\<open>ud_rpc_wait\<close>, whose result is used as a pointer.\<close>

definition test_wait :: "ibv_wc \<Rightarrow> dsm \<Rightarrow> rpc_thread \<Rightarrow> (u64 \<times> dsm \<times> ud_card) option" where
  "test_wait wc d rt =
     Option.bind (ud_rpc_wait ud_post_recv ud_poll_recv wc d (tls rt) (ucard rt)) (\<lambda>(mm, d, s).
       map_option (\<lambda>a. (a, d, s)) mm)"

text \<open>\<open>mm->node_id\<close> and \<open>mm->t_id\<close> are the bytes 2 and 3 of the message.\<close>

definition sender_at :: "(u64 \<Rightarrow> u8) \<Rightarrow> u64 \<Rightarrow> u8 \<times> u8" where
  "sender_at m a = (m (a + 2), m (a + 3))"

text \<open>
  The statements of \<open>rpc_test\<close>. The barrier counts one arrival for each machine, not for each
  thread, so with several threads on a node it makes no promise about who has registered; here
  it lets a thread pass at any time, and no property below relies on it.
\<close>

definition rpc_test_step :: "ibv_wc \<Rightarrow> RpcMessage \<Rightarrow> dsm \<Rightarrow> rpc_thread \<Rightarrow> (dsm \<times> rpc_thread) option" where
  "rpc_test_step wc m d rt =
     (case stage rt of
        Starting \<Rightarrow> map_option (\<lambda>(d, t, s). (d, rt\<lparr>stage := AtBarrier, tls := t, ucard := s\<rparr>))
          (register_thread ud_post_recv 4096 d (tls rt) (ucard rt))
      | AtBarrier \<Rightarrow> Some (d, rt\<lparr>stage := AtLoop\<rparr>)
      | AtLoop \<Rightarrow>
          if get_my_node_id d = 0
          then map_option (\<lambda>(d, s). (d, rt\<lparr>stage := AwaitReply, ucard := s\<rparr>)) (test_call wc m 1 0 d rt)
          else map_option (\<lambda>(mm, d, s). (d, rt\<lparr>stage := ShowRequest mm, ucard := s\<rparr>)) (test_wait wc d rt)
      | AwaitReply \<Rightarrow> map_option (\<lambda>(mm, d, s). (d, rt\<lparr>stage := ShowReply mm, ucard := s\<rparr>)) (test_wait wc d rt)
      | ShowReply mm \<Rightarrow> Some (d, rt\<lparr>stage := AtLoop, printed := printed rt @ [sender_at (umem (ucard rt)) mm]\<rparr>)
      | ShowRequest mm \<Rightarrow> Some (d, rt\<lparr>stage := SendReply mm, printed := printed rt @ [sender_at (umem (ucard rt)) mm]\<rparr>)
      | SendReply mm \<Rightarrow>
          (case sender_at (umem (ucard rt)) mm of (n, k) \<Rightarrow>
             map_option (\<lambda>(d, s). (d, rt\<lparr>stage := AtLoop, ucard := s\<rparr>)) (test_call wc m (ucast n) (ucast k) d rt)))"

section \<open>The cluster\<close>

text \<open>
  The nodes, the threads by node and thread number, and the datagrams under way and lost, with
  the node that sent them. \<open>route\<close> tells which thread an address handle and a queue pair number
  of a node stand for. Thread \<open>k\<close> of a node is the one that registers as number \<open>k\<close>, whenever
  that is; its card is that of connection \<open>k\<close>.
\<close>

record rpc_world =
  nodes :: "dsm list"
  threads :: "thread_name \<Rightarrow> rpc_thread"
  wire :: "(nat \<times> datagram) multiset"
  lost :: "(nat \<times> datagram) multiset"

type_synonym routing = "nat \<Rightarrow> u64 \<Rightarrow> u32 \<Rightarrow> thread_name option"

definition known_thread :: "nat \<Rightarrow> rpc_world \<Rightarrow> thread_name \<Rightarrow> bool" where
  "known_thread T w i \<longleftrightarrow> known (length (nodes w)) T i"

text \<open>
  A thread executes a statement; a card transmits its oldest request; a datagram lands in the
  oldest posted buffer; a datagram is lost, on the wire or because no buffer is posted.
\<close>

inductive rpc_world_step ::
  "ibv_wc \<Rightarrow> (thread_name \<Rightarrow> RpcMessage) \<Rightarrow> routing \<Rightarrow> nat \<Rightarrow> rpc_world \<Rightarrow> rpc_world \<Rightarrow> bool" for wc m route T where
  thread_moves: "known_thread T w i \<Longrightarrow> (stage (threads w i) = Starting \<longrightarrow> appID (nodes w ! fst i) = int (snd i)) \<Longrightarrow>
     rpc_test_step wc (m i) (nodes w ! fst i) (threads w i) = Some (d, rt) \<Longrightarrow>
     rpc_world_step wc m route T w (w\<lparr>nodes := (nodes w)[fst i := d], threads := (threads w)(i := rt)\<rparr>)"
| datagram_leaves: "known_thread T w i \<Longrightarrow> ud_carry (ucard (threads w i)) = Some (p, s) \<Longrightarrow>
     rpc_world_step wc m route T w
       (w\<lparr>threads := (threads w)(i := (threads w i)\<lparr>ucard := s\<rparr>), wire := wire w + {#(fst i, p)#}\<rparr>)"
| datagram_lands: "(n, ah, qpn, bs) \<in># wire w \<Longrightarrow> route n ah qpn = Some j \<Longrightarrow> length hdr = GRH_SIZE \<Longrightarrow>
     u_posted (ucard (threads w j)) \<noteq> [] \<Longrightarrow>
     rpc_world_step wc m route T w
       (w\<lparr>threads := (threads w)(j := (threads w j)\<lparr>ucard := ud_land hdr bs (ucard (threads w j))\<rparr>),
          wire := wire w - {#(n, ah, qpn, bs)#}\<rparr>)"
| datagram_lost: "q \<in># wire w \<Longrightarrow>
     rpc_world_step wc m route T w (w\<lparr>wire := wire w - {#q#}, lost := lost w + {#q#}\<rparr>)"

text \<open>A node before its threads start: fresh connections with room for the calls of all threads.\<close>

definition node_fresh :: "nat \<Rightarrow> nat \<Rightarrow> dsm \<Rightarrow> bool" where
  "node_fresh T n d \<longleftrightarrow> appID d = 0 \<and> my_node_id d = word_of_nat n \<and> T \<le> length (thCon (dsm_node d))
     \<and> (\<forall>tc \<in> set (thCon (dsm_node d)). port_layout (message tc) \<and> curMessage (message tc) = 0
          \<and> curSend (message tc) = 0 \<and> sendCounter (message tc) = 0 \<and> 4 * T \<le> 3 * unat (messageNR (message tc)))"

text \<open>The tables of every node name the threads of the others.\<close>

definition wired :: "routing \<Rightarrow> nat \<Rightarrow> nat \<Rightarrow> nat \<Rightarrow> dsm \<Rightarrow> bool" where
  "wired route N T n d \<longleftrightarrow> N \<le> length (remoteCon (dsm_node d)) \<and>
     (\<forall>j. known N T j \<longrightarrow> (let r = remoteCon (dsm_node d) ! fst j in
        snd j < length (appMessageQPN r) \<and> snd j < length (appAh r)
        \<and> route n (appAh r ! snd j) (appMessageQPN r ! snd j) = Some j))"

text \<open>The start: \<open>T\<close> threads on each of \<open>N\<close> constructed nodes, none of them registered.\<close>

definition rpc_start :: "routing \<Rightarrow> nat \<Rightarrow> nat \<Rightarrow> rpc_world \<Rightarrow> bool" where
  "rpc_start route N T w \<longleftrightarrow> length (nodes w) = N \<and> 2 \<le> N \<and> N \<le> 2 ^ 16 \<and> 0 < T \<and> T \<le> 2 ^ 8 \<and> wire w = {#} \<and> lost w = {#}
     \<and> (\<forall>n < N. node_fresh T n (nodes w ! n) \<and> wired route N T n (nodes w ! n))
     \<and> (\<forall>i. known N T i \<longrightarrow> (\<exists>s. ud_fresh s \<and> threads w i = \<lparr>stage = Starting, tls = fresh_thread, ucard = s, printed = []\<rparr>))"

text \<open>Each thread's message comes from \<open>get_new_msg\<close>.\<close>

definition messages_made :: "(thread_name \<Rightarrow> RpcMessage) \<Rightarrow> bool" where
  "messages_made m \<longleftrightarrow> (\<forall>i. \<exists>block. Option.bind (get_new_msg block) rpc_of_bytes = Some (m i))"

section \<open>Threads of a node\<close>

lemma iCon_eq: "0 \<le> thread_id t \<Longrightarrow> nat (thread_id t) < length (thCon (dsm_node d)) \<Longrightarrow> iCon d t = Some (thCon (dsm_node d) ! nat (thread_id t))"
  by (simp add: iCon_def)

lemma iCon_set_iCon:
  assumes "iCon d t = Some tc0" "0 \<le> thread_id t'"
  shows "iCon (set_iCon d t tc) t' = (if thread_id t' = thread_id t then Some tc else iCon d t')"
  using assms by (auto simp: iCon_def set_iCon_def nat_eq_iff split: if_splits)

lemma set_iCon_frame:
  "my_node_id (set_iCon d t tc) = my_node_id d" "remoteCon (dsm_node (set_iCon d t tc)) = remoteCon (dsm_node d)"
  "appID (set_iCon d t tc) = appID d"
  by (simp_all add: set_iCon_def)

lemma set_iCon_length: "length (thCon (dsm_node (set_iCon d t tc))) = length (thCon (dsm_node d))"
  by (simp add: set_iCon_def)

text \<open>What registration leaves of a node: the thread's connection posted its buffers.\<close>

lemma register_thread_at:
  assumes r: "register_thread ud_post_recv sz d fresh_thread s = Some (d', t, s')" and "0 \<le> appID d"
  shows "thread_id t = appID d \<and> appID d' = appID d + 1 \<and> my_node_id d' = my_node_id d
     \<and> remoteCon (dsm_node d') = remoteCon (dsm_node d) \<and> nat (appID d) < length (thCon (dsm_node d))
     \<and> length (thCon (dsm_node d')) = length (thCon (dsm_node d))
     \<and> (\<exists>tc c. tc = thCon (dsm_node d) ! nat (appID d) \<and> initRecv ud_post_recv (message tc) s = (c, s')
          \<and> thCon (dsm_node d') ! nat (appID d) = tc\<lparr>message := c\<rparr>)
     \<and> (\<forall>i. i \<noteq> nat (appID d) \<longrightarrow> thCon (dsm_node d') ! i = thCon (dsm_node d) ! i)"
  using assms
  by (auto simp: register_thread_def fresh_thread_def Let_def iCon_def set_iCon_def bind_eq_Some_conv
      split: if_splits prod.splits)

text \<open>
  A node that \<open>DSM\<close> has constructed is such a node, with its 36 connections of 128 buffers,
  when the memory of its connections does not wrap around.
\<close>

lemma built_node_fresh:
  assumes bc: "build_connections dev mp_srq d s = Some (d', s')" and "appID d = 0" "my_node_id d = word_of_nat n"
    and "T \<le> kMaxNetThread"
    and room: "\<forall>tc \<in> set (thCon (dsm_node d')). unat (messagePool (message tc)) + 2 * RPC_QUEUE_SIZE * MESSAGE_SIZE \<le> 2 ^ 64"
  shows "node_fresh T n d'"
proof -
  let ?f = "\<lambda>i. mk_ThreadConnection dev (ucast (my_node_id d)) (word_of_nat i) (buf_addr (conf d)) (buf_size (conf d))
      (machine_cnt (conf d)) (nic_name (conf d)) (dsm_mapping d)"
  from bc obtain ts ds s1 where ts: "build_each ?f [0..<kMaxNetThread] s = Some (ts, s1)"
    and d': "d' = d\<lparr>dsm_node := (dsm_node d)\<lparr>thCon := ts, dirCon := ds\<rparr>\<rparr>"
    unfolding build_connections_def Let_def bind_eq_Some_conv by auto
  have "port_layout (message tc) \<and> curMessage (message tc) = 0 \<and> curSend (message tc) = 0 \<and> sendCounter (message tc) = 0
      \<and> 4 * T \<le> 3 * unat (messageNR (message tc))" if "tc \<in> set ts" for tc
  proof -
    from that obtain i s2 s3 where "?f i s2 = Some (tc, s3)"
      using build_each_nth [OF ts] by (auto simp: in_set_conv_nth)
    then obtain ctx cq s4 c s5 where mk: "mk_RawMessageConnection dev ctx cq (word_of_nat RPC_QUEUE_SIZE) s4 = Some (c, s5)" and c: "message tc = c"
      by (auto simp: mk_ThreadConnection_def Let_def case_prod_unfold bind_eq_Some_conv)
    have "unat (messagePool c) + 2 * RPC_QUEUE_SIZE * MESSAGE_SIZE \<le> 2 ^ 64" using room that by (auto simp: d' c)
    from mk_RawMessageConnection_layout [OF mk this] show ?thesis
      using assms(4) by (simp add: c kMaxNetThread_def RPC_QUEUE_SIZE_def)
  qed
  then show ?thesis using assms(2-4) build_each_nth [OF ts] by (simp add: node_fresh_def d')
qed

section \<open>Threads as actors\<close>

definition sender_of :: "u8 list \<Rightarrow> thread_name" where
  "sender_of bs = (unat (bs ! 2), unat (bs ! 3))"

definition dg_abs :: "routing \<Rightarrow> nat \<times> datagram \<Rightarrow> thread_name \<times> thread_name" where
  "dg_abs route q = (case q of (n, ah, qpn, bs) \<Rightarrow> (the (route n ah qpn), sender_of bs))"

definition dg_ok :: "routing \<Rightarrow> nat \<Rightarrow> nat \<Rightarrow> nat \<times> datagram \<Rightarrow> bool" where
  "dg_ok route N T q \<longleftrightarrow> (case q of (n, ah, qpn, bs) \<Rightarrow>
     length bs = 6 \<and> (\<exists>j. route n ah qpn = Some j \<and> known N T j))"

text \<open>The message that a thread works on is the one that it took last.\<close>

definition holding :: "(u64 \<times> u8 list) option \<Rightarrow> u64 \<Rightarrow> thread_name \<Rightarrow> bool" where
  "holding held mm x \<longleftrightarrow> (\<exists>bs. held = Some (mm, bs) \<and> length bs = 6 \<and> x = sender_of bs)"

definition stage_rel :: "(u64 \<times> u8 list) option \<Rightarrow> u64 rpc_stage \<Rightarrow> thread_name rpc_stage \<Rightarrow> bool" where
  "stage_rel held = rel_rpc_stage (holding held)"

definition thread_rel :: "routing \<Rightarrow> nat \<Rightarrow> nat \<Rightarrow> dsm \<Rightarrow> thread_name \<Rightarrow> rpc_thread \<Rightarrow> rpc_actor \<Rightarrow> bool" where
  "thread_rel route N T d i rt a \<longleftrightarrow> stage rt \<noteq> Starting \<and> int (snd i) < appID d \<and> (\<exists>tc pend inb held.
     iCon d (tls rt) = Some tc \<and> thread_id (tls rt) = int (snd i)
     \<and> port_at (message tc, ucard rt) pend inb held \<and> 4 * T \<le> 3 * unat (messageNR (message tc))
     \<and> stage_rel held (stage rt) (a_stage a)
     \<and> a_out a = map (\<lambda>p. dg_abs route (fst i, p)) pend \<and> (\<forall>p \<in> set pend. dg_ok route N T (fst i, p))
     \<and> a_in a = map sender_of inb \<and> (\<forall>bs \<in> set inb. length bs = 6)
     \<and> a_said a = map (\<lambda>(x, y). (unat x, unat y)) (printed rt))"

text \<open>A thread that has not registered: its connection and its card are as constructed.\<close>

definition idle_actor :: rpc_actor where
  "idle_actor = \<lparr>a_stage = Starting, a_out = [], a_in = [], a_said = []\<rparr>"

definition unstarted :: "nat \<Rightarrow> dsm \<Rightarrow> thread_name \<Rightarrow> rpc_thread \<Rightarrow> rpc_actor \<Rightarrow> bool" where
  "unstarted T d i rt a \<longleftrightarrow> (\<exists>s. ud_fresh s \<and> rt = \<lparr>stage = Starting, tls = fresh_thread, ucard = s, printed = []\<rparr>)
     \<and> a = idle_actor \<and> appID d \<le> int (snd i) \<and> snd i < length (thCon (dsm_node d))
     \<and> (let c = message (thCon (dsm_node d) ! snd i) in port_layout c \<and> curMessage c = 0 \<and> curSend c = 0 \<and> sendCounter c = 0
          \<and> 4 * T \<le> 3 * unat (messageNR c))"

definition member_rel :: "routing \<Rightarrow> nat \<Rightarrow> nat \<Rightarrow> dsm \<Rightarrow> thread_name \<Rightarrow> rpc_thread \<Rightarrow> rpc_actor \<Rightarrow> bool" where
  "member_rel route N T d i rt a \<longleftrightarrow> thread_rel route N T d i rt a \<or> unstarted T d i rt a"

lemma member_relD:
  assumes "member_rel route N T d i rt a"
  shows "stage rt \<noteq> Starting \<Longrightarrow> thread_rel route N T d i rt a" and "stage rt = Starting \<Longrightarrow> unstarted T d i rt a"
  using assms by (auto simp: member_rel_def thread_rel_def unstarted_def)

definition node_rel :: "routing \<Rightarrow> nat \<Rightarrow> nat \<Rightarrow> nat \<Rightarrow> dsm \<Rightarrow> bool" where
  "node_rel route N T n d \<longleftrightarrow> 0 \<le> appID d \<and> my_node_id d = word_of_nat n \<and> wired route N T n d"

definition world_rel :: "routing \<Rightarrow> nat \<Rightarrow> nat \<Rightarrow> rpc_world \<Rightarrow> actors \<Rightarrow> bool" where
  "world_rel route N T w x \<longleftrightarrow> length (nodes w) = N \<and> 2 \<le> N \<and> N \<le> 2 ^ 16 \<and> 0 < T \<and> T \<le> 2 ^ 8
     \<and> (\<forall>n < N. node_rel route N T n (nodes w ! n))
     \<and> (\<forall>i. known N T i \<longrightarrow> member_rel route N T (nodes w ! fst i) i (threads w i) (fst x i))
     \<and> (\<forall>q. q \<in># wire w \<longrightarrow> dg_ok route N T q)
     \<and> snd x = (image_mset (dg_abs route) (wire w), image_mset (dg_abs route) (lost w))"

text \<open>The message of a call: six bytes, the sender in the third and fourth.\<close>

lemma made_message:
  assumes "messages_made m"
  shows "rpc_wf (m i) \<and> rpc_size (m i) = 6 \<and> length (bytes_of_rpc (m i)) = MESSAGE_SIZE"
proof -
  obtain block where b: "Option.bind (get_new_msg block) rpc_of_bytes = Some (m i)" using assms unfolding messages_made_def by blast
  then obtain blk where g: "get_new_msg block = Some blk" and r: "rpc_of_bytes blk = Some (m i)" by (auto simp: bind_eq_Some_conv)
  have l: "length block = MESSAGE_SIZE" and w: "write_at block 4 (le_bytes 2 (0 :: u16)) = Some blk"
    using g by (auto simp: get_new_msg_def split: if_splits)
  have len: "length blk = MESSAGE_SIZE" using write_at_length [OF w] l by simp
  have "read_at blk 4 2 = Some (le_bytes 2 (0 :: u16))" using read_write_same [OF w] by simp
  then have "take 2 (drop 4 blk) = le_bytes 2 (0 :: u16)" by (auto simp: read_at_def split: if_splits)
  moreover obtain a b c e s0 s1 rest where blk: "blk = a # b # c # e # s0 # s1 # rest"
    using r by (auto simp: rpc_of_bytes_def split: list.splits)
  ultimately have "le_word [s0, s1] = (0 :: u16)" using le_word_le_bytes [of 2 "0 :: u16"] by simp
  moreover have mi: "m i = \<lparr>magic = a, rtype = b, node_id = c, t_id = e, msg_size = le_word [s0, s1], msg = rest\<rparr>"
    using r by (simp add: rpc_of_bytes_def blk)
  ultimately have sz: "msg_size (m i) = 0" and msg: "length (msg (m i)) = MESSAGE_SIZE - 6"
    using len unfolding mi blk by simp_all
  then show ?thesis by (simp add: rpc_wf_def rpc_size_def sizeof_RpcMessage_def bytes_of_rpc_def MESSAGE_SIZE_def)
qed

lemma build_call_header:
  assumes "rpc_wf m" "rpc_size m = 6" "length old = MESSAGE_SIZE" "build_call d t m Slice_Void old = Some b"
    and "my_node_id d = word_of_nat n" "thread_id t = int k" "n < 2 ^ 8" "k < 2 ^ 8"
  shows "rpc_wf b \<and> length (bytes_of_rpc b) = MESSAGE_SIZE \<and> length (take (rpc_size b) (bytes_of_rpc b)) = 6
     \<and> sender_of (take (rpc_size b) (bytes_of_rpc b)) = (n, k)"
proof -
  have fit: "rpc_size m + 40 < MESSAGE_SIZE" using assms(2) by (simp add: MESSAGE_SIZE_def)
  from build_call_start [OF assms(1) fit assms(3), of d t Slice_Void] assms(4)
  have b: "rpc_wf b" "length (msg b) = MESSAGE_SIZE - 6" "msg_size b = msg_size m"
    "node_id b = ucast (my_node_id d)" "t_id b = word_of_int (thread_id t)"
    by (auto simp: Slice_Void_def)
  have sz: "rpc_size b = 6" using assms(2) b(3) by (simp add: rpc_size_def)
  have "unat (node_id b) = n"
    using assms(5,7) b(4) by (simp add: unsigned_ucast_eq unat_of_nat take_bit_nat_eq_self_iff)
  moreover have "unat (t_id b) = k" using assms(6,8) b(5) by (simp add: unat_of_nat)
  ultimately show ?thesis using b(1,2) sz by (simp add: bytes_of_rpc_def sender_of_def MESSAGE_SIZE_def nth_append)
qed

section \<open>A call and a wait of one thread\<close>

lemma test_callE:
  assumes "test_call wc m nid tid d rt = Some (d', s')"
  obtains tc a c1 b c' s1 where "iCon d (tls rt) = Some tc" "getSendPool (message tc) = (a, c1)"
    "build_call d (tls rt) m Slice_Void (load_bytes (umem (ucard rt)) a MESSAGE_SIZE) = Some b"
    "sendRawMessage ud_post_send ud_poll_send wc c1 a b (appMessageQPN (remoteCon (dsm_node d) ! unat nid) ! unat tid)
       (appAh (remoteCon (dsm_node d) ! unat nid) ! unat tid) (ucard rt) = Some (c', s1)"
    "d' = set_iCon d (tls rt) (tc\<lparr>message := c'\<rparr>)" "s' = s1\<lparr>umem := store_bytes (umem s1) a (bytes_of_rpc b)\<rparr>"
proof -
  from assms obtain tc where tc: "iCon d (tls rt) = Some tc" by (auto simp: test_call_def bind_eq_Some_conv)
  obtain a c1 where gp: "getSendPool (message tc) = (a, c1)" by (cases "getSendPool (message tc)")
  from assms show thesis
    by (auto simp: test_call_def ud_rpc_call_def sendMessage_def tc gp bind_eq_Some_conv split: if_splits intro: that [OF tc gp])
qed

lemma stage_rel_simps [simp]:
  "stage_rel held Starting y \<longleftrightarrow> y = Starting" "stage_rel held AtBarrier y \<longleftrightarrow> y = AtBarrier"
  "stage_rel held AtLoop y \<longleftrightarrow> y = AtLoop" "stage_rel held AwaitReply y \<longleftrightarrow> y = AwaitReply"
  "stage_rel held (ShowReply mm) y \<longleftrightarrow> (\<exists>x. y = ShowReply x \<and> holding held mm x)"
  "stage_rel held (ShowRequest mm) y \<longleftrightarrow> (\<exists>x. y = ShowRequest x \<and> holding held mm x)"
  "stage_rel held (SendReply mm) y \<longleftrightarrow> (\<exists>x. y = SendReply x \<and> holding held mm x)"
  by (cases y; auto simp: stage_rel_def)+

lemma test_call_rel:
  assumes rel: "thread_rel route N T d i rt a" and nd: "node_rel route N T (fst i) d" and made: "messages_made m"
    and call: "test_call wc (m i) nid tid d rt = Some (d', s')" and few: "length (u_sends s') < 2 ^ 64"
    and dest: "known N T (unat nid, unat tid)" and i: "fst i < 2 ^ 8" "snd i < 2 ^ 8"
    and st: "st = AtLoop \<and> st' = AtLoop \<or> st = AwaitReply \<and> st' = AwaitReply"
  shows "(\<exists>tc. d' = set_iCon d (tls rt) tc) \<and> thread_rel route N T d' i (rt\<lparr>stage := st, ucard := s'\<rparr>)
     (a\<lparr>a_stage := st', a_out := a_out a @ [((unat nid, unat tid), i)]\<rparr>)"
proof -
  let ?r = "remoteCon (dsm_node d) ! unat nid"
  from call obtain tc p c1 b c' s1 where tc: "iCon d (tls rt) = Some tc" and gp: "getSendPool (message tc) = (p, c1)"
    and b: "build_call d (tls rt) (m i) Slice_Void (load_bytes (umem (ucard rt)) p MESSAGE_SIZE) = Some b"
    and snd: "sendRawMessage ud_post_send ud_poll_send wc c1 p b (appMessageQPN ?r ! unat tid) (appAh ?r ! unat tid) (ucard rt) = Some (c', s1)"
    and d': "d' = set_iCon d (tls rt) (tc\<lparr>message := c'\<rparr>)" and s': "s' = s1\<lparr>umem := store_bytes (umem s1) p (bytes_of_rpc b)\<rparr>"
    by (rule test_callE)
  from rel tc obtain pend inb held where id: "thread_id (tls rt) = int (snd i)" and at: "port_at (message tc, ucard rt) pend inb held"
    and nr: "4 * T \<le> 3 * unat (messageNR (message tc))"
    and out: "a_out a = map (\<lambda>p. dg_abs route (fst i, p)) pend" "\<forall>p \<in> set pend. dg_ok route N T (fst i, p)"
    and inn: "a_in a = map sender_of inb" "\<forall>bs \<in> set inb. length bs = 6"
    and said: "a_said a = map (\<lambda>(x, y). (unat x, unat y)) (printed rt)" and started: "int (snd i) < appID d"
    by (auto simp: thread_rel_def)
  have mm: "rpc_wf (m i)" "rpc_size (m i) = 6" using made_message [OF made] by blast+
  have nid: "my_node_id d = word_of_nat (fst i)" and wire: "wired route N T (fst i) d" using nd by (simp_all add: node_rel_def)
  have bb: "rpc_wf b" "length (bytes_of_rpc b) = MESSAGE_SIZE" "length (take (rpc_size b) (bytes_of_rpc b)) = 6"
    "sender_of (take (rpc_size b) (bytes_of_rpc b)) = i"
    using build_call_header [OF mm length_load_bytes b nid id i] unfolding prod.collapse by blast+
  let ?dg = "(appAh ?r ! unat tid, appMessageQPN ?r ! unat tid, take (rpc_size b) (bytes_of_rpc b)) :: datagram"
  have few1: "length (u_sends s1) < 2 ^ 64" using few by (simp add: s')
  have at': "port_at (c', s') (pend @ [?dg]) inb held"
    unfolding s' by (rule port_send [OF at gp snd few1 bb(1,2)])
  have r: "route (fst i) (appAh ?r ! unat tid) (appMessageQPN ?r ! unat tid) = Some (unat nid, unat tid)"
    using wire dest unfolding wired_def by (auto simp: Let_def dest!: spec [of _ "unat nid"] spec [of _ "unat tid"])
  have "messageNR c' = messageNR (message tc)"
  proof -
    obtain k where "s1 = (ucard rt)\<lparr>u_polled := k, u_sends := u_sends (ucard rt) @ [raw_send_wr c1 p b (appMessageQPN ?r ! unat tid) (appAh ?r ! unat tid)]\<rparr>"
      and "c' = c1\<lparr>sendCounter := sendCounter c1 + 1\<rparr>"
      using sendRawMessage_ud [OF snd] .
    then show ?thesis using gp by (auto simp: getSendPool_def)
  qed
  moreover have "iCon d' (tls rt) = Some (tc\<lparr>message := c'\<rparr>)"
    using iCon_set_iCon [OF tc, of "tls rt"] id by (simp add: d')
  ultimately have "thread_rel route N T d' i (rt\<lparr>stage := st, ucard := s'\<rparr>) (a\<lparr>a_stage := st', a_out := a_out a @ [((unat nid, unat tid), i)]\<rparr>)"
    unfolding thread_rel_def using id at' nr out inn said bb(3,4) r st dest started
    by (intro conjI exI [of _ "tc\<lparr>message := c'\<rparr>"] exI [of _ "pend @ [?dg]"] exI [of _ inb] exI [of _ held])
      (auto simp: dg_abs_def dg_ok_def d' set_iCon_frame)
  then show ?thesis using d' by blast
qed

lemma test_wait_rel:
  assumes rel: "thread_rel route N T d i rt a" and wait: "test_wait wc d rt = Some (mm, d', s')"
  obtains x xs where "a_in a = x # xs" "\<exists>tc. d' = set_iCon d (tls rt) tc"
    "\<forall>st st'. st \<noteq> Starting \<longrightarrow> (\<forall>held. holding held mm x \<longrightarrow> stage_rel held st st') \<longrightarrow>
       thread_rel route N T d' i (rt\<lparr>stage := st, ucard := s'\<rparr>) (a\<lparr>a_stage := st', a_in := xs\<rparr>)"
proof -
  from rel obtain tc pend inb held where tc: "iCon d (tls rt) = Some tc" and id: "thread_id (tls rt) = int (snd i)"
    and at: "port_at (message tc, ucard rt) pend inb held"
    and nr: "4 * T \<le> 3 * unat (messageNR (message tc))"
    and out: "a_out a = map (\<lambda>p. dg_abs route (fst i, p)) pend" "\<forall>p \<in> set pend. dg_ok route N T (fst i, p)"
    and inn: "a_in a = map sender_of inb" "\<forall>bs \<in> set inb. length bs = 6"
    and said: "a_said a = map (\<lambda>(x, y). (unat x, unat y)) (printed rt)" and started: "int (snd i) < appID d"
    unfolding thread_rel_def by blast
  from wait obtain ex w s1 where p: "pollWithCQ ud_poll_recv 1 wc (ucard rt) = Some (ex, w, s1)"
    by (auto simp: test_wait_def ud_rpc_wait_def tc bind_eq_Some_conv)
  obtain bs rest where b: "inb = bs # rest" and w: "w = recv_wc" and s1: "s1 = (ucard rt)\<lparr>u_filled := tl (u_filled (ucard rt))\<rparr>"
    using ud_poll_recv_once [OF at p] .
  obtain c' where g: "getMessage ud_post_recv (message tc) s1 = (mm, c', s')" and d': "d' = set_iCon d (tls rt) (tc\<lparr>message := c'\<rparr>)"
    using wait p by (auto simp: test_wait_def ud_rpc_wait_def tc w recv_wc_def split: prod.splits)
  note pt = port_take [OF at [unfolded b] g [unfolded s1]]
  have ic: "iCon d' (tls rt) = Some (tc\<lparr>message := c'\<rparr>)"
    using iCon_set_iCon [OF tc, of "tls rt"] id by (simp add: d')
  show thesis
  proof (rule that)
    show "a_in a = sender_of bs # map sender_of rest" by (simp add: inn(1) b)
    show "\<exists>tc. d' = set_iCon d (tls rt) tc" using d' by blast
    show "\<forall>st st'. st \<noteq> Starting \<longrightarrow> (\<forall>held. holding held mm (sender_of bs) \<longrightarrow> stage_rel held st st') \<longrightarrow>
       thread_rel route N T d' i (rt\<lparr>stage := st, ucard := s'\<rparr>) (a\<lparr>a_stage := st', a_in := map sender_of rest\<rparr>)"
    proof (intro allI impI)
      fix st :: "u64 rpc_stage" and st'
      assume st: "st \<noteq> Starting"
      assume "\<forall>held. holding held mm (sender_of bs) \<longrightarrow> stage_rel held st st'"
      moreover have "holding (Some (mm, bs)) mm (sender_of bs)" using inn(2) b by (simp add: holding_def)
      ultimately have "stage_rel (Some (mm, bs)) st st'" by blast
      then show "thread_rel route N T d' i (rt\<lparr>stage := st, ucard := s'\<rparr>) (a\<lparr>a_stage := st', a_in := map sender_of rest\<rparr>)"
        unfolding thread_rel_def using id pt nr out inn said ic b st started
        by (intro conjI exI [of _ "tc\<lparr>message := c'\<rparr>"] exI [of _ pend] exI [of _ rest] exI [of _ "Some (mm, bs)"])
          (auto simp: d' set_iCon_frame)
    qed
  qed
qed

text \<open>
  Registration: the connection of the thread posts its buffers.
\<close>

lemma register_rel:
  assumes un: "unstarted T d i rt a" and id: "appID d = int (snd i)"
    and reg: "register_thread ud_post_recv 4096 d (tls rt) (ucard rt) = Some (d', t, s')"
  shows "thread_rel route N T d' i (rt\<lparr>stage := AtBarrier, tls := t, ucard := s'\<rparr>) (a\<lparr>a_stage := AtBarrier\<rparr>)"
proof -
  let ?tc = "thCon (dsm_node d) ! snd i"
  from un obtain s where rt: "rt = \<lparr>stage = Starting, tls = fresh_thread, ucard = s, printed = []\<rparr>" "ud_fresh s" and a: "a = idle_actor"
    and lay: "port_layout (message ?tc)" "curMessage (message ?tc) = 0" "curSend (message ?tc) = 0" "sendCounter (message ?tc) = 0"
      "4 * T \<le> 3 * unat (messageNR (message ?tc))"
    unfolding unstarted_def Let_def by blast
  from reg have r: "register_thread ud_post_recv 4096 d fresh_thread s = Some (d', t, s')" by (simp add: rt)
  note at = register_thread_at [OF r, unfolded id, simplified]
  then obtain c where init: "initRecv ud_post_recv (message ?tc) s = (c, s')" and tc: "thCon (dsm_node d') ! snd i = ?tc\<lparr>message := c\<rparr>"
    by auto
  from port_start [OF lay(1-4) rt(2) init] have port: "port_at (c, s') [] [] None" "messageNR c = messageNR (message ?tc)" by blast+
  have "iCon d' t = Some (?tc\<lparr>message := c\<rparr>)" using iCon_eq [of t d'] at tc by simp
  then show ?thesis
    unfolding thread_rel_def using at port lay(5)
    by (intro conjI exI [of _ "?tc\<lparr>message := c\<rparr>"] exI [of _ "[]"] exI [of _ "[]"] exI [of _ None]) (auto simp: rt a idle_actor_def)
qed

lemma register_ready:
  assumes "unstarted T d i rt a" "appID d = int (snd i)"
  shows "\<exists>x. register_thread ud_post_recv 4096 d (tls rt) (ucard rt) = Some x"
  using assms by (auto simp: unstarted_def register_thread_def fresh_thread_def iCon_def Let_def split: prod.splits)

text \<open>
  What a statement of thread \<open>k\<close> leaves of its node: everything but the connection \<open>k\<close>, and the
  count of threads unless it is the registration.
\<close>

definition same_but :: "nat \<Rightarrow> dsm \<Rightarrow> dsm \<Rightarrow> bool" where
  "same_but k d d' \<longleftrightarrow> my_node_id d' = my_node_id d \<and> remoteCon (dsm_node d') = remoteCon (dsm_node d)
     \<and> length (thCon (dsm_node d')) = length (thCon (dsm_node d)) \<and> (\<forall>j. j \<noteq> k \<longrightarrow> thCon (dsm_node d') ! j = thCon (dsm_node d) ! j)
     \<and> (appID d' = appID d \<or> appID d = int k \<and> appID d' = int k + 1)"

lemma same_but_refl [simp]: "same_but k d d"
  by (simp add: same_but_def)

lemma same_but_set_iCon: "thread_id t = int k \<Longrightarrow> same_but k d (set_iCon d t tc)"
  by (simp add: same_but_def set_iCon_def)

lemma same_but_register:
  assumes "register_thread ud_post_recv sz d fresh_thread s = Some (d', t, s')" "appID d = int k"
  shows "same_but k d d'"
  using register_thread_at [OF assms(1)] assms(2) by (simp add: same_but_def)

lemma node_rel_same: "same_but k d d' \<Longrightarrow> node_rel route N T n d \<Longrightarrow> node_rel route N T n d'"
  by (auto simp: same_but_def node_rel_def wired_def)

lemma member_rel_other:
  assumes same: "same_but k d d'" and rel: "member_rel route N T d j rt a" and "k \<noteq> snd j"
  shows "member_rel route N T d' j rt a"
  using rel unfolding member_rel_def
proof
  assume t: "thread_rel route N T d j rt a"
  then have "thread_id (tls rt) = int (snd j)" by (auto simp: thread_rel_def)
  then have "iCon d' (tls rt) = iCon d (tls rt)" using same assms(3) by (simp add: iCon_def same_but_def)
  moreover have "int (snd j) < appID d'" using t same by (auto simp: thread_rel_def same_but_def)
  ultimately have "thread_rel route N T d' j rt a" using t by (simp add: thread_rel_def)
  then show "thread_rel route N T d' j rt a \<or> unstarted T d' j rt a" ..
next
  assume "unstarted T d j rt a"
  then have "unstarted T d' j rt a" using same assms(3) by (auto simp: unstarted_def same_but_def Let_def)
  then show "thread_rel route N T d' j rt a \<or> unstarted T d' j rt a" ..
qed

end
