(* ===== verification/Host_Info.thy ===== *)
theory Host_Info
  imports Keeper
begin

text \<open>
  What the program asks of its host: \<open>getIP\<close>, \<open>getMac\<close> and \<open>execute_cmd\<close> of
  \<open>src/utility/System.cpp\<close>, and the memory of \<open>include/utility/HugePageAlloc.h\<close>. The system
  calls are parameters; strings hold no NUL.
\<close>

section \<open>Addresses\<close>

text \<open>
  \<open>inet_ntoa\<close> writes four bytes in decimal. \<open>ioctl name\<close> is the request on a fresh socket for
  the interface of that name: the bytes of the address in the structure afterwards. Neither
  call is checked, so a failed one leaves the bytes of the uninitialised structure.
\<close>

definition inet_ntoa :: "u8 list \<Rightarrow> string" where
  "inet_ntoa a = to_string (unat (a ! 0)) @ ''.'' @ to_string (unat (a ! 1)) @ ''.'' @ to_string (unat (a ! 2)) @ ''.'' @ to_string (unat (a ! 3))"

definition IFNAMSIZ :: nat where "IFNAMSIZ = 16"

definition getIP :: "(string \<Rightarrow> 's \<Rightarrow> u8 list \<times> 's) \<Rightarrow> 's \<Rightarrow> string \<times> 's" where
  "getIP ioctl s = (case ioctl (take (IFNAMSIZ - 1) ''eno1'') s of (addr, s') \<Rightarrow> (inet_ntoa addr, s'))"

definition getMac :: "(string \<Rightarrow> 's \<Rightarrow> u8 list \<times> 's) \<Rightarrow> 's \<Rightarrow> u8 list \<times> 's" where
  "getMac ioctl s = ioctl (take (IFNAMSIZ - 1) ''ens2'') s"

text \<open>A textual address determines the bytes.\<close>

lemma to_string_split:
  assumes "to_string m @ CHR ''.'' # xs = to_string n @ CHR ''.'' # ys"
  shows "m = n \<and> xs = ys"
proof -
  have dot: "\<not> is_digit CHR ''.''" by (simp add: is_digit_def)
  have tw: "takeWhile is_digit (to_string k @ CHR ''.'' # zs) = to_string k" for k zs
    using to_string_digits dot by (simp add: takeWhile_append)
  from arg_cong [OF assms, of "takeWhile is_digit"] have "to_string m = to_string n" unfolding tw .
  then show ?thesis using assms by simp
qed

lemma inet_ntoa_inj:
  assumes "inet_ntoa a = inet_ntoa b" "length a = 4" "length b = 4"
  shows "a = b"
proof -
  from assms(1) have "unat (a ! 0) = unat (b ! 0) \<and> unat (a ! 1) = unat (b ! 1) \<and> unat (a ! 2) = unat (b ! 2) \<and> unat (a ! 3) = unat (b ! 3)"
    by (auto simp: inet_ntoa_def dest!: to_string_split)
  then have eq: "a ! i = b ! i" if "i < 4" for i
    using that by (auto simp: less_Suc_eq numeral_eq_Suc intro: unsigned_word_eqI)
  show ?thesis by (rule nth_equalityI) (use assms(2,3) eq in auto)
qed

section \<open>Running a command\<close>

text \<open>
  \<open>fgets\<close> with a buffer of \<open>n + 1\<close> characters reads up to \<open>n\<close> characters, and not past a line
  break; \<open>chunks\<close> is what the loop reads from an output.
\<close>

fun fgets :: "nat \<Rightarrow> string \<Rightarrow> string \<times> string" where
  "fgets 0 out = ([], out)"
| "fgets (Suc n) [] = ([], [])"
| "fgets (Suc n) (c # out) =
     (if c = CHR 0x0A then ([c], out) else case fgets n out of (l, r) \<Rightarrow> (c # l, r))"

lemma fgets_split: "fgets n out = (l, r) \<Longrightarrow> out = l @ r \<and> length l \<le> n \<and> (out \<noteq> [] \<longrightarrow> n \<noteq> 0 \<longrightarrow> l \<noteq> [])"
proof (induction n out arbitrary: l r rule: fgets.induct)
  case (3 n c out)
  obtain l' r' where f: "fgets n out = (l', r')" by (cases "fgets n out")
  then show ?case using 3 by (cases "c = CHR 0x0A") auto
qed auto

definition CMD_BUF :: nat where "CMD_BUF = 1024"

text \<open>
  \<open>execute_cmd\<close> appends what the command prints to \<open>result\<close>, a buffer of \<open>cap\<close> characters, and
  stops when it holds more than 1024. \<open>popen cmd\<close> is the output, or nothing when the command
  cannot be started. \<open>None\<close> is a write behind one of the buffers.
\<close>

function (sequential) append_output :: "nat \<Rightarrow> string \<Rightarrow> string \<Rightarrow> string option" where
  "append_output cap result [] = Some result"
| "append_output cap result out =
     (case fgets (CMD_BUF - 1) out of (buf_ps, rest) \<Rightarrow>
        if cap \<le> length result + length buf_ps then None
        else if CMD_BUF < length (result @ buf_ps) then Some (result @ buf_ps)
        else append_output cap (result @ buf_ps) rest)"
  by pat_completeness auto

termination
proof (relation "measure (\<lambda>(_, _, out). length out)", goal_cases)
  case (2 cap result v va buf_ps rest)
  then have "fgets (CMD_BUF - 1) (v # va) = (buf_ps, rest)" by simp
  from fgets_split [OF this]
  have "v # va = buf_ps @ rest" "buf_ps \<noteq> []" by (simp_all add: CMD_BUF_def)
  then have "length rest < length (v # va)" by (metis length_append length_greater_0_conv less_add_same_cancel2)
  then show ?case by simp
qed simp

definition execute_cmd :: "(string \<Rightarrow> string option) \<Rightarrow> nat \<Rightarrow> string \<Rightarrow> string \<Rightarrow> string option" where
  "execute_cmd popen cap cmd result =
     (if CMD_BUF \<le> length cmd then None
      else case popen cmd of None \<Rightarrow> Some result | Some out \<Rightarrow> append_output cap result out)"

text \<open>
  With a result buffer of two kilobytes nothing is overrun: a short output is returned whole, a
  longer one up to a break after at least 1025 and at most 2047 characters.
\<close>

lemma append_output_eq:
  assumes "length result \<le> CMD_BUF" "2 * CMD_BUF \<le> cap"
  shows "\<exists>l. append_output cap result out = Some (result @ l) \<and> (\<exists>r. out = l @ r)
     \<and> length (result @ l) < 2 * CMD_BUF \<and> (l = out \<or> CMD_BUF < length (result @ l))"
  using assms
proof (induction cap result out rule: append_output.induct)
  case (1 cap result)
  then show ?case by (simp add: CMD_BUF_def)
next
  case (2 cap result v va)
  let ?out = "v # va"
  obtain b rest where f: "fgets (CMD_BUF - 1) ?out = (b, rest)" by (cases "fgets (CMD_BUF - 1) ?out")
  note fs = fgets_split [OF f]
  have len: "length (result @ b) < 2 * CMD_BUF" using fs 2(2) by (simp add: CMD_BUF_def)
  then have cap: "\<not> cap \<le> length result + length b" using 2(3) by simp
  show ?case
  proof (cases "CMD_BUF < length (result @ b)")
    case True
    then have "append_output cap result ?out = Some (result @ b)" using f cap by simp
    then show ?thesis using fs True len by blast
  next
    case False
    then obtain l where l: "append_output cap (result @ b) rest = Some ((result @ b) @ l)" "\<exists>r. rest = l @ r"
      "length ((result @ b) @ l) < 2 * CMD_BUF" "l = rest \<or> CMD_BUF < length ((result @ b) @ l)"
      using 2(1) [OF f [symmetric] cap False] 2(3) by auto
    have "append_output cap result ?out = append_output cap (result @ b) rest" using f cap False by simp
    then show ?thesis using l fs by (intro exI [of _ "b @ l"]) auto
  qed
qed

lemma execute_cmd_result:
  assumes "length cmd < CMD_BUF" "popen cmd = Some out" "2 * CMD_BUF \<le> cap"
  shows "\<exists>l. execute_cmd popen cap cmd [] = Some l \<and> (\<exists>r. out = l @ r)
     \<and> length l < 2 * CMD_BUF \<and> (l = out \<or> CMD_BUF < length l)"
  using append_output_eq [of "[]" cap out] assms by (simp add: execute_cmd_def)

text \<open>A buffer of the 1024 characters after which the loop stops is not enough.\<close>

lemma fgets_no_break: "CHR 0x0A \<notin> set out \<Longrightarrow> fgets n out = (take n out, drop n out)"
  by (induction n out rule: fgets.induct) auto

lemma execute_cmd_overruns:
  assumes "length cmd < CMD_BUF" "popen cmd = Some out" "length out = CMD_BUF" "CHR 0x0A \<notin> set out"
  shows "execute_cmd popen CMD_BUF cmd [] = None"
proof -
  let ?a = "take (CMD_BUF - 1) out" and ?b = "drop (CMD_BUF - 1) out"
  have f: "fgets (CMD_BUF - 1) out = (?a, ?b)" by (rule fgets_no_break [OF assms(4)])
  have lb: "length ?a = CMD_BUF - 1" "length ?b = 1" "out \<noteq> []" using assms(3) by (auto simp: CMD_BUF_def)
  then obtain c where b: "?b = [c]" by (metis One_nat_def length_0_conv length_Suc_conv)
  have "c \<noteq> CHR 0x0A" using assms(4) b by (metis in_set_dropD list.set_intros(1))
  then have "fgets (CMD_BUF - 1) [c] = ([c], [])" using fgets_no_break [of "[c]"] by (simp add: CMD_BUF_def)
  then have 2: "append_output CMD_BUF ?a [c] = None" using lb(1) by (simp add: CMD_BUF_def)
  obtain v va where v: "out = v # va" using lb(3) by (cases out) auto
  have "append_output CMD_BUF [] out = append_output CMD_BUF ?a [c]"
  proof -
    have "append_output CMD_BUF [] (v # va) = append_output CMD_BUF ?a ?b"
      using f [unfolded v] lb(1) by (simp add: v CMD_BUF_def del: take_Suc_Cons)
    then have "append_output CMD_BUF [] out = append_output CMD_BUF ?a ?b" unfolding v .
    then show ?thesis unfolding b .
  qed
  with 2 show ?thesis using assms(1,2) by (simp add: execute_cmd_def)
qed

section \<open>Memory\<close>

text \<open>
  \<open>page_alloc\<close> maps memory and, when that fails, prints an error and returns the error value
  (all ones) as if it were an address.
\<close>

definition MAP_FAILED :: u64 where "MAP_FAILED = - 1"

definition page_alloc :: "(u64 \<Rightarrow> 's \<Rightarrow> u64 \<times> 's) \<Rightarrow> (string \<Rightarrow> 's \<Rightarrow> 's) \<Rightarrow> u64 \<Rightarrow> 's \<Rightarrow> u64 \<times> 's" where
  "page_alloc mmap notifyError sz s =
     (case mmap sz s of (res, s') \<Rightarrow>
        (res, if res = MAP_FAILED then notifyError ''[1] %s mmap failed!'' s' else s'))"

definition page_free :: "(u64 \<Rightarrow> u64 \<Rightarrow> 's \<Rightarrow> 's) \<Rightarrow> u64 \<Rightarrow> u64 \<Rightarrow> 's \<Rightarrow> 's" where
  "page_free munmap addr sz s = munmap addr sz s"

end
