(* ===== verification/Main_Programs.thy ===== *)
theory Main_Programs
  imports Complex_Main Rpc_Test Server_Node Memcached_Conf Clock_Timer
begin

text \<open>
  The main functions of the three programs (\<open>test/rowan_server.cpp\<close>, \<open>test/rowan_client.cpp\<close>,
  \<open>test/rpc_test.cpp\<close>): their arguments, the configuration they build, the threads they start
  and what the client reports; and the units of \<open>include/utility/Common.h\<close>.
\<close>

section \<open>Units\<close>

definition KB :: u64 where "KB = 1024"
definition MB :: u64 where "MB = 1024 * 1024"
definition GB :: u64 where "GB = 1024 * MB"
definition ns2ms :: u64 where "ns2ms = 1000 * 1000"
definition ns2s :: u64 where "ns2s = ns2ms * 1000"

section \<open>Arguments\<close>

text \<open>
  \<open>std::atoi\<close> of the standard library: blanks, a sign, digits; a number that does not fit an
  \<open>int\<close> is undefined behaviour (\<open>None\<close>). Arguments are the strings of \<open>argv\<close>.
\<close>

definition atoi :: "string \<Rightarrow> int option" where
  "atoi s =
     (let t = dropWhile is_space s;
          v = (case t of
                 [] \<Rightarrow> 0
               | c # ds \<Rightarrow> if c = CHR ''-'' then - int (parse_num ds)
                   else if c = CHR ''+'' then int (parse_num ds) else int (parse_num t))
      in if - (2 ^ 31) \<le> v \<and> v < 2 ^ 31 then Some v else None)"

lemma atoi_to_string:
  assumes "n < 2 ^ 31"
  shows "atoi (to_string n) = Some (int n)"
proof -
  obtain c ds where c: "to_string n = c # ds" "is_digit c"
  proof -
    have "to_string n \<noteq> []" by (subst to_string.simps) simp
    then obtain c ds where "to_string n = c # ds" by (cases "to_string n") auto
    then show thesis using to_string_digits [of c n] that by simp
  qed
  then have "\<not> is_space c" "c \<noteq> CHR ''-''" "c \<noteq> CHR ''+''" by (auto simp: is_digit_def is_space_def)
  moreover have "parse_num (c # ds) = n" using parse_to_string [of n] c(1) by simp
  ultimately show ?thesis using assms by (simp add: atoi_def c(1))
qed

text \<open>The client: the number of client machines and of threads; the rest of the cluster is one server.\<close>

definition nic :: string where "nic = ''mlx5_0''"

definition client_config :: "u32 \<Rightarrow> DSMConfig" where
  "client_config client_nr =
     (mk_DSMConfig ((mk_ClusterInfo 2)\<lparr>server_cnt := 1, client_cnt := client_nr\<rparr>) (128 * MB) (128 * MB) CLIENT)\<lparr>nic_name := nic\<rparr>"

definition client_args :: "string list \<Rightarrow> (DSMConfig \<times> u32) main_result option" where
  "client_args argv =
     (if length argv \<noteq> 3 then Some Exit_main
      else Option.bind (atoi (argv ! 1)) (\<lambda>client_nr. Option.bind (atoi (argv ! 2)) (\<lambda>thread_cnt.
        Some (Serving (client_config (word_of_int client_nr), word_of_int thread_cnt)))))"

definition server_config :: "u32 \<Rightarrow> DSMConfig" where
  "server_config client_nr =
     (mk_DSMConfig ((mk_ClusterInfo 2)\<lparr>server_cnt := 1, client_cnt := client_nr\<rparr>) (128 * MB) (128 * MB) SERVER)\<lparr>nic_name := nic\<rparr>"

definition server_args :: "string list \<Rightarrow> DSMConfig main_result option" where
  "server_args argv =
     (if length argv \<noteq> 2 then Some Exit_main
      else Option.bind (atoi (argv ! 1)) (\<lambda>client_nr. Some (Serving (server_config (word_of_int client_nr)))))"

text \<open>The RPC test: the number of nodes, all of them servers, and of threads.\<close>

definition read_args :: "string list \<Rightarrow> (int \<times> int) main_result option" where
  "read_args argv =
     (if length argv < 3 then Some Exit_main
      else Option.bind (atoi (argv ! 1)) (\<lambda>node_nr. Option.bind (atoi (argv ! 2)) (\<lambda>thread_nr.
        Some (Serving (node_nr, thread_nr)))))"

definition rpc_config :: "int \<Rightarrow> DSMConfig" where
  "rpc_config node_nr = (mk_DSMConfig (mk_ClusterInfo (word_of_int node_nr)) (4 * KB) (4 * KB) SERVER)\<lparr>nic_name := nic\<rparr>"

definition kMaxTestThread :: int where "kMaxTestThread = 24"

text \<open>The threads are stored in an array of \<open>kMaxTestThread\<close>; a further one is stored behind it.\<close>

definition rpc_main :: "string list \<Rightarrow> (DSMConfig \<times> int list) main_result option" where
  "rpc_main argv =
     Option.bind (read_args argv) (\<lambda>r. case r of
       Exit_main \<Rightarrow> Some Exit_main
     | Serving (node_nr, thread_nr) \<Rightarrow>
         if kMaxTestThread < thread_nr then None else Some (Serving (rpc_config node_nr, [0..thread_nr - 1])))"

section \<open>What the client reports\<close>

text \<open>
  Once a second: the sum of the counters of the threads (an array of 64) and the rate since the
  last report, as a real number where the code has a \<open>double\<close>.
\<close>

definition sum_counters :: "u64 list \<Rightarrow> u32 \<Rightarrow> u64 option" where
  "sum_counters counters thread_cnt =
     (if unat thread_cnt \<le> length counters then Some (sum_list (take (unat thread_cnt) counters)) else None)"

definition report :: "u64 list \<Rightarrow> u32 \<Rightarrow> u64 \<Rightarrow> u64 \<Rightarrow> (real \<times> u64) option" where
  "report counters thread_cnt pre_tp ns =
     map_option (\<lambda>tp. (real (unat (tp - pre_tp)) / (real (unat ns) / 1000 / 1000 / 1000), tp)) (sum_counters counters thread_cnt)"

text \<open>
  Server and clients that are started for the same number of clients agree on the number of
  machines.
\<close>

lemma programs_agree:
  assumes "c < 2 ^ 31" "t < 2 ^ 31"
  shows "\<exists>sc cc. server_args [prog, to_string c] = Some (Serving sc) \<and> client_args [prog', to_string c, to_string t] = Some (Serving (cc, word_of_nat t))
     \<and> machine_cnt sc = machine_cnt cc \<and> machine_cnt cc = word_of_nat (c + 1)
     \<and> node_type sc = SERVER \<and> node_type cc = CLIENT \<and> buf_size sc = 134217728 \<and> buf_size cc = 134217728"
  using assms
  by (simp add: server_args_def client_args_def atoi_to_string server_config_def client_config_def mk_DSMConfig_def mk_ClusterInfo_def MB_def numeral_2_eq_2)

text \<open>The RPC test runs its threads exactly when there are at most 24 of them.\<close>

lemma rpc_main_threads:
  assumes "n < 2 ^ 31" "t < 2 ^ 31"
  shows "rpc_main [prog, to_string n, to_string t] =
     (if 24 < t then None else Some (Serving (rpc_config (int n), [0..int t - 1])))"
  using assms by (simp add: rpc_main_def read_args_def atoi_to_string kMaxTestThread_def numeral_2_eq_2)

text \<open>The reported rate times the seconds is the work since the last report.\<close>

lemma report_rate:
  assumes "report counters thread_cnt pre_tp ns = Some (rate, tp)" "0 < ns"
  shows "rate * (real (unat ns) / 10 ^ 9) = real (unat (tp - pre_tp)) \<and> sum_counters counters thread_cnt = Some tp"
proof -
  have "0 < unat ns" using assms(2) by (simp add: word_gt_0 unat_gt_0)
  then have "0 < real (unat ns)" by (simp only: of_nat_0_less_iff)
  then show ?thesis using assms(1) by (auto simp: report_def)
qed

text \<open>
  A turn of the loop: sleep, read the timer and the counters, report, start the timer again.
  What the clock measures over a second is not 0, so the rate is the quotient that the code
  computes.
\<close>

definition client_turn :: "('s \<Rightarrow> 's) \<Rightarrow> 's clock \<Rightarrow> ('s \<Rightarrow> u64 list) \<Rightarrow> u32 \<Rightarrow> u64 \<times> Timer \<times> 's \<Rightarrow> ((real \<times> u64) \<times> u64 \<times> Timer \<times> 's) option" where
  "client_turn sleep1 now counters thread_cnt x =
     (case x of (pre_tp, timer, s) \<Rightarrow>
        Option.bind (timer_end now 1 timer (sleep1 s)) (\<lambda>(ns, timer, s).
          map_option (\<lambda>(t_tp, tp). case timer_begin now timer s of (timer, s) \<Rightarrow> ((t_tp, tp), tp, timer, s))
            (report (counters s) thread_cnt pre_tp ns)))"

primrec client_turns :: "nat \<Rightarrow> ('s \<Rightarrow> 's) \<Rightarrow> 's clock \<Rightarrow> ('s \<Rightarrow> u64 list) \<Rightarrow> u32 \<Rightarrow> u64 \<times> Timer \<times> 's \<Rightarrow> ((real \<times> u64) list \<times> u64 \<times> Timer \<times> 's) option" where
  "client_turns 0 sleep1 now counters thread_cnt x = Some ([], x)"
| "client_turns (Suc k) sleep1 now counters thread_cnt x =
     Option.bind (client_turn sleep1 now counters thread_cnt x) (\<lambda>(l, x).
       map_option (\<lambda>(ls, x). (l # ls, x)) (client_turns k sleep1 now counters thread_cnt x))"

text \<open>The loop goes on for ever: with at most 64 threads no turn fails, whatever the clock shows.\<close>

lemma client_turns_total:
  assumes "\<And>s. length (counters s) = 64" "unat thread_cnt \<le> 64"
  shows "\<exists>ls x'. client_turns k sleep1 now counters thread_cnt x = Some (ls, x') \<and> length ls = k"
proof (induction k arbitrary: x)
  case (Suc k)
  have "\<exists>l x'. client_turn sleep1 now counters thread_cnt x = Some (l, x')"
    using assms by (simp add: client_turn_def timer_end_def report_def sum_counters_def case_prod_unfold Let_def)
  then obtain l x' where "client_turn sleep1 now counters thread_cnt x = Some (l, x')" by blast
  with Suc [of x'] show ?case by auto
next
  case 0
  show ?case by (intro exI [of _ "[]"] exI [of _ x]) simp
qed

end
