(* ===== verification/Spec2Isabelle.thy ===== *)
theory Spec2Isabelle
  imports Config Rpc_Message Rdma_Ops Rdma_Poll Rdma_Vector Rdma_QP Rdma_Resource Mlx5_Driver RC_Mapping
    Message_Connection Message_Send Node_Connect Keeper Barrier DSM_Keeper DSM Rowan_Client Rowan_Server CRC32
    Rpc_Call Client_Program DSM_Shape Cluster_Start Server_Node Rowan_Log Rowan_System Memcached_Conf WR_Lock Bit_Map Murmur_Hash Cache_Lines Zipf
    Core_Binding Clock_Timer Debug_Output Mailbox Message_Port Rpc_Actors Rpc_Test Rpc_Cluster Host_Info Main_Programs
begin

text \<open>
  A verification library for Rowan (remote write aggregation): the server's network card
  appends the writes of many clients to one log in the server's memory, segment by segment, by
  means of a multi-packet shared receive queue; around it stands a small distributed shared
  memory (DSM) with messages, one-sided RDMA operations and a cluster directory in memcached.

  \<^bold>\<open>The parts and their theories.\<close>

  \<^item> \<open>Rowan_Prelude\<close>: machine integers, bounds-checked access to byte memory, the little-endian
    view of words, slot rings, reachable states; the locales named below.
  \<^item> \<open>Config\<close> (\<open>include/dsm/Config.h\<close>): constants and the description of the cluster.
  \<^item> \<open>Rpc_Message\<close> (\<open>RpcMessage.h\<close>, \<open>Slice.h\<close>): the packed message with its append and read
    operations. A block of memory is a list of bytes; an access outside it is \<open>None\<close>.
  \<^item> \<open>Rdma_Ops\<close>, \<open>Rdma_Poll\<close>, \<open>Rdma_Vector\<close> (\<open>src/rdma/Operation.cpp\<close>): the work requests that
    each RDMA function builds and posts, the polling of completion queues, and the splitting of
    a long write into requests. \<open>ibv_post_send\<close>, \<open>ibv_post_recv\<close> and \<open>ibv_poll_cq\<close> are
    functions on an arbitrary state \<open>'s\<close>.
  \<^item> \<open>Rdma_QP\<close>, \<open>Rdma_Resource\<close> (\<open>StateTrans.cpp\<close>, \<open>Resource.cpp\<close>, \<open>Utility.cpp\<close>): the transitions of
    queue pairs and the query of their state, the opening of devices with the
    clean-up on every error exit, memory regions, queue pairs and (multi-packet) shared receive
    queues. The verbs device is a record of functions.
  \<^item> \<open>Mlx5_Driver\<close> (\<open>Driver.cpp\<close>, \<open>mlx5_defs.h\<close>): returning work queue entries to the free list.
  \<^item> \<open>Message_Connection\<close>, \<open>Message_Send\<close> (\<open>AbstractMessageConnection\<close>,
    \<open>RawMessageConnection\<close>): the receive pool that is reposted in batches and the send pool that
    is signalled in batches, each together with its card as a step relation.
  \<^item> \<open>Mailbox\<close>, \<open>Message_Port\<close>: the mailbox as an abstract contract; both pools of one connection on one datagram card with its memory; the
    connection implements the mailbox, a list of messages that wait in each direction.
  \<^item> \<open>RC_Mapping\<close>, \<open>Node_Connect\<close> (\<open>RCMapping.h\<close>, \<open>ThreadConnection\<close>, \<open>DirectoryConnection\<close>):
    which server directory serves which client thread, and the queue pairs on both sides.
  \<^item> \<open>Keeper\<close>, \<open>Barrier\<close>, \<open>DSM_Keeper\<close> (\<open>Keeper.cpp\<close>, \<open>DSMKeeper.cpp\<close>): the cluster directory
    over memcached, its retry loops, the barrier, the exchange of records by which two nodes
    connect their queue pairs, and the sum over all nodes.
  \<^item> \<open>Memcached_Conf\<close> (\<open>Keeper.cpp\<close>): reading \<open>memcached.conf\<close>, connecting to the server it
    names, disconnecting.
  \<^item> \<open>DSM\<close>, \<open>DSM_Shape\<close> (\<open>DSM.cpp\<close>, \<open>DSM.h\<close>): construction of a node, registration of threads,
    one-sided operations, remote procedure calls; type safety of a node: the tables that the
    constructor and the keeper leave, and that every operation of a registered thread stays in them.
  \<^item> \<open>Cluster_Start\<close> (\<open>DSMKeeper.h\<close>): \<open>run\<close> of the keeper, from entering to a connected cluster.
  \<^item> \<open>Rpc_Call\<close>: a call followed from the caller's buffer through the card to the handler; the
    printing of a message.
  \<^item> \<open>Rpc_Actors\<close>, \<open>Rpc_Test\<close>, \<open>Rpc_Cluster\<close> (\<open>test/rpc_test.cpp\<close>): what the RPC test promises,
    as actors with mailboxes; the program, statement by statement, on nodes, connections and
    cards, with a network between them; the simulation of the second by the first. The threads
    register one by one (\<open>Starting\<close>), a registered thread may pass the barrier at any time
    (\<open>AtBarrier\<close>; the barrier counts nodes, so it does not make the threads wait for each other),
    and the network may lose every datagram.
  \<^item> \<open>Rowan_Client\<close>, \<open>Rowan_Server\<close> (\<open>src/rowan\<close>): the ring of send buffers of a client and the
    segment ring of the server, \<open>raw_manage_srq\<close>, interleaved with the card.
  \<^item> \<open>Rowan_Log\<close>: what the log contains when the card lands one message after the other.
  \<^item> \<open>Rowan_System\<close>: the whole program, clients with their cards, network, server with its card.
  \<^item> \<open>Client_Program\<close>, \<open>Server_Node\<close> (\<open>test/rowan_client.cpp\<close>, \<open>test/rowan_server.cpp\<close>): a client
    thread that sends requests for ever, beside its card; the node on which the server runs.
  \<^item> \<open>CRC32_Tables\<close>, \<open>CRC32_Algebra\<close>, \<open>CRC32\<close> (\<open>CRC32.cpp\<close>, \<open>CRC32.h\<close>): CRC-32C by tables and by
    the processor's instruction in three streams; the instruction and the feature test are
    parameters.
  \<^item> \<open>WR_Lock\<close>, \<open>Bit_Map\<close>, \<open>Murmur_Hash\<close>, \<open>Cache_Lines\<close> (\<open>include/utility\<close>): the reader-writer
    lock with its atomic accesses interleaved, the bit map, the hash function, the flushing of
    cache lines.
  \<^item> \<open>Zipf\<close> (\<open>Zipf.h\<close>): the generator of skewed keys; IEEE arithmetic is an arbitrary record of
    operations, so the statements hold for the operations of the machine in the order the code
    applies them.
  \<^item> \<open>Core_Binding\<close>, \<open>Clock_Timer\<close>, \<open>Debug_Output\<close> (\<open>System.cpp\<close>, \<open>Timer.h\<close>, \<open>Debug.cpp\<close>): which
    core a thread is bound to, measuring and sleeping by the clock, the formats of the output.
  \<^item> \<open>Host_Info\<close> (\<open>System.cpp\<close>, \<open>HugePageAlloc.h\<close>): the host's addresses, the output of a command,
    mapped memory; the system calls are parameters.
  \<^item> \<open>Main_Programs\<close> (\<open>test/*.cpp\<close>, \<open>Common.h\<close>): the arguments and configurations of the three
    programs, the threads of the RPC test, the loop in which the client reports its rate.

  \<^bold>\<open>How they interact.\<close> A \<open>dsm\<close> node holds one \<open>ThreadConnection\<close> per thread and
  one \<open>DirectoryConnection\<close> per directory, each over a context of \<open>Rdma_Resource\<close>; \<open>DSM_Keeper\<close>
  connects them through \<open>Keeper\<close> and the transitions of \<open>Rdma_QP\<close>; \<open>DSM\<close> looks up the queue pair
  by \<open>RC_Mapping\<close> and calls \<open>Rdma_Ops\<close>. Messages are built with \<open>Rpc_Message\<close> in buffers of
  \<open>Message_Connection\<close>. The server of \<open>Rowan_Server\<close> uses a \<open>DirectoryConnection\<close> and
  \<open>Mlx5_Driver\<close>; \<open>Server_Node\<close> starts it on the memory of the node that \<open>DSM\<close> constructs.
  \<open>Client_Program\<close> runs the buffer ring of \<open>Rowan_Client\<close> and the batched signalling of
  \<open>Message_Send\<close> against one card: the interval of the signals is what makes reusing a buffer
  safe. \<open>Rowan_Log\<close> refines the card of \<open>Rowan_Server\<close>, and \<open>Rowan_System\<close> puts any number of client
  programs before it: what the clients send is what the log holds. \<open>Cluster_Start\<close> joins the loop of \<open>Keeper\<close>, the exchange of \<open>DSM_Keeper\<close> and the
  transitions of \<open>Rdma_QP\<close> on nodes as \<open>DSM\<close> builds them. \<open>Rpc_Call\<close> joins \<open>DSM\<close>, \<open>Message_Connection\<close> and \<open>Rpc_Message\<close>.
  The RPC test is proved in two refinements: \<open>Message_Port\<close> turns the connection of a thread into a
  mailbox (\<open>port_at\<close>), and \<open>world_sim\<close> of \<open>Rpc_Cluster\<close> takes every step of the cluster to a step
  of the actors, whose invariant then speaks about what the threads print. Threads of a node
  share the \<open>dsm\<close> record; each has its own connection in it.

  \<^bold>\<open>State and effects.\<close> Objects are records with the fields of the class; an operation takes and
  returns them. Foreign state (verbs, memcached, the clock of the processor's instructions) is
  an arbitrary type \<open>'s\<close> passed through. \<open>None\<close> is an assertion that fails, an access outside
  an array or a loop that does not end; \<open>partial_function\<close> is used for the loops that may not
  end (polling, the retry loops of memcached, flushing), and where such a loop returns this is
  proved as an equation \<open>\<dots> = Some \<dots>\<close>. Machine integers are words of their width. Assertions
  are taken to be enabled. Idealised: in \<open>rowan_step\<close> posting a segment succeeds (\<open>recv\<close>; the other
  exit of \<open>rdmaReceive\<close> is in \<open>Rdma_Ops\<close>); a memcached operation that fails has changed nothing
  (\<open>kv_laws\<close>); a release function of verbs releases also when it reports an error (\<open>verbs_laws\<close>);
  the count of polled completions is an \<open>int\<close> and the length of an array a \<open>nat\<close>, without the
  overflow of 32 bits.

  \<^bold>\<open>Concurrency.\<close> Ten components are step relations over the code's own steps, most of them
  beside another party: the server with the card (\<open>rowan_step\<close>, with the messages
  \<open>log_step\<close>), the whole program (\<open>world_step\<close>), the client thread with its card
  (\<open>client_sys\<close>), the operations on a node (\<open>dsm_sys\<close>), receiving and sending with the card
  (\<open>recv_sys\<close>, \<open>send_sys\<close>), the cluster of the RPC test (\<open>rpc_world_step\<close>) and its actors
  (\<open>actor_sys\<close>), the nodes at a barrier (\<open>barrier_sys\<close>), the threads of a lock
  (\<open>wr_sys\<close>). Each but \<open>rpc_world_step\<close>, which is simulated by \<open>actor_sys\<close>, interprets the
  locale \<open>invariant_system\<close> on its start states, steps and invariant; the properties are read off the invariant in every reachable state. What the card
  does is stated as its steps: it fills posted buffers in order of posting. The network of the
  RPC test delivers in any order and loses datagrams, those that find no posted buffer and any
  other (\<open>datagram_lost\<close>). That a registered thread always has a buffer posted follows from the
  number of calls under way, of which a lost datagram stays one; that the test goes on is proved
  as long as fewer datagrams are lost than there are callers.

  \<^bold>\<open>Interfaces.\<close> \<open>slot_ring\<close> (equal buffers in one pool that does not wrap around the address
  space) is interpreted on the segments of the server, the pools of the message connections and
  the buffers of the clients; \<open>invariant_system\<close> on each of the systems above; \<open>mailbox\<close> on a connection with its card;
  \<open>pod_type\<close> (a type stored as bytes) on the four word widths that messages contain; \<open>qp_directory\<close> (clients assigned to directories) on \<open>RCMapping\<close>.

  \<^bold>\<open>What the lemmas show.\<close> For each component: what every branch of each operation returns; that
  its invariant holds after construction and is kept; that the buffers it hands out do not
  overlap; the equivalence of both CRC versions with the bit-by-bit definition; the refinement
  of the bit map to a set; the agreement of the two sides of a connection and a node's way into the
  connected cluster; the refinement of a connection to a mailbox and of the RPC test to its actors;
  termination of polling and of flushing; that a client program never gets
  stuck, its messages are sent as made, and the server's log holds them and always takes the
  next; and where the code
  departs from what it means to do (wrap-around of the reader count, the reused barrier, the lost error of a poll, the overrun of the send
  buffer, the missing header bytes), the exact condition.

  \<^bold>\<open>Bounds.\<close> No fuel is used. The systems are proved for any number of steps; \<open>wr_sys\<close> for fewer
  than 32768 threads (the bound is sharp), the barrier and the keeper for node numbers that fit
  an \<open>int\<close>, memory pools for address ranges that do not wrap.

  \<^bold>\<open>Not modelled.\<close> The declarations of \<open>mlx5_defs.h\<close> that the code does not use (it is a copy
  of the vendor's header); the text of diagnostics on the standard output beyond the formats of
  \<open>Debug_Output\<close>; \<open>WRLockGuard\<close>, which only calls the modelled \<open>wLock\<close> and \<open>wUnlock\<close>; \<open>free\<close> of
  messages and empty destructors. Double-precision arithmetic is a parameter in \<open>Zipf\<close>, and the
  reported rates of \<open>Clock_Timer\<close> and \<open>Main_Programs\<close> are exact numbers. Foreign libraries (verbs,
  memcached, the system calls) are parameters of the definitions that use them.
\<close>

end
